(* ===== verification/Prelude.thy ===== *)
theory Prelude
  imports Main "HOL-Library.Word" "HOL-Library.Signed_Division"
begin

unbundle bit_operations_syntax

text \<open>
  What the components share: the result type of code that may end the process or run into
  undefined behaviour, the byte representation of machine integers, and generic lemmas on
  lists and words.
\<close>

section \<open>Automation collections\<close>

named_theorems res_simps \<open>unfolding of the result type\<close>
named_theorems wire_simps \<open>lengths and contents of encoded messages\<close>
named_theorems node_defs \<open>definitions of the node's handlers\<close>
named_theorems srv_defs \<open>definitions of the server's operations\<close>

section \<open>Code that may stop\<close>

text \<open>
  \<open>Exit\<close> is a call of \<open>fatal\<close> or \<open>syserr\<close> (both print a message and call \<open>exit(1)\<close>).
  \<open>Undefined\<close> is undefined behaviour or an uncaught exception of the source: an access out of
  range, a failed \<open>assert\<close> (compiled out by \<open>-DNDEBUG\<close>, so that the code below it runs without
  its guarantee), signed overflow, \<open>std::map::at\<close> on a missing key.
\<close>

datatype stop = Exit | Undefined

type_synonym 'a res = "stop + 'a"

definition bindR :: "'a res \<Rightarrow> ('a \<Rightarrow> 'b res) \<Rightarrow> 'b res" where
  "bindR r f = (case r of Inl e \<Rightarrow> Inl e | Inr x \<Rightarrow> f x)"

lemma bindR_simps [simp, code, res_simps]:
  "bindR (Inl e) f = Inl e"
  "bindR (Inr x) f = f x"
  by (simp_all add: bindR_def)

lemma bindR_eq_Inr: "bindR r f = Inr y \<longleftrightarrow> (\<exists>x. r = Inr x \<and> f x = Inr y)"
  by (cases r) auto

lemma bindR_eq_Inl: "bindR r f = Inl e \<longleftrightarrow> r = Inl e \<or> (\<exists>x. r = Inr x \<and> f x = Inl e)"
  by (cases r) auto

lemma bindR_split: "P (bindR r f) \<longleftrightarrow> (\<forall>e. r = Inl e \<longrightarrow> P (Inl e)) \<and> (\<forall>x. r = Inr x \<longrightarrow> P (f x))"
  by (cases r) auto

lemma bindR_cong [fundef_cong]:
  "r = r' \<Longrightarrow> (\<And>x. r' = Inr x \<Longrightarrow> f x = g x) \<Longrightarrow> bindR r f = bindR r' g"
  by (cases r') auto

text \<open>
  \<open>safeR P r\<close>: \<open>r\<close> is not undefined behaviour, and if it is a value, \<open>P\<close> holds for it (the process
  may exit on a failed system call).
\<close>

definition safeR :: "('a \<Rightarrow> bool) \<Rightarrow> 'a res \<Rightarrow> bool" where
  "safeR P r = (case r of Inl e \<Rightarrow> e = Exit | Inr x \<Rightarrow> P x)"

lemma safeR_simps [simp]:
  "safeR P (Inr x) = P x"
  "safeR P (Inl e) = (e = Exit)"
  "safeR P (if b then r else r') = (if b then safeR P r else safeR P r')"
  by (simp_all add: safeR_def)

lemma safeR_bind [simp]: "safeR P (bindR r f) = safeR (\<lambda>x. safeR P (f x)) r"
  by (cases r) (simp_all add: safeR_def)

lemma safeR_mono: "safeR P r \<Longrightarrow> (\<And>x. P x \<Longrightarrow> Q x) \<Longrightarrow> safeR Q r"
  by (cases r) auto

lemma safeR_bindI: "safeR Q r \<Longrightarrow> (\<And>x. Q x \<Longrightarrow> safeR P (f x)) \<Longrightarrow> safeR P (bindR r f)"
  by (simp add: safeR_mono)

lemma safeR_not_undefined: "safeR P r \<Longrightarrow> r \<noteq> Inl Undefined"
  by (cases r) auto

lemma safeR_value: "safeR P r \<Longrightarrow> r = Inr x \<Longrightarrow> P x"
  by simp

text \<open>\<open>okR P r\<close>: if \<open>r\<close> is a value, \<open>P\<close> holds for it.\<close>

definition okR :: "('a \<Rightarrow> bool) \<Rightarrow> 'a res \<Rightarrow> bool" where
  "okR P r = (case r of Inl e \<Rightarrow> True | Inr x \<Rightarrow> P x)"

lemma okR_simps [simp]:
  "okR P (Inr x) = P x"
  "okR P (Inl e) = True"
  "okR P (if b then r else r') = (if b then okR P r else okR P r')"
  by (simp_all add: okR_def)

lemma okR_bind [simp]: "okR P (bindR r f) = okR (\<lambda>x. okR P (f x)) r"
  by (cases r) (simp_all add: okR_def)

lemma okR_value: "okR P r \<Longrightarrow> r = Inr x \<Longrightarrow> P x"
  by simp

lemma okR_mono: "okR P r \<Longrightarrow> (\<And>x. P x \<Longrightarrow> Q x) \<Longrightarrow> okR Q r"
  by (cases r) auto

lemma okR_all: "(\<And>x. P x) \<Longrightarrow> okR P r"
  by (cases r) auto

text \<open>Checked access: what \<open>p[i]\<close> does outside the array is \<open>Undefined\<close>.\<close>

definition nth_chk :: "'a list \<Rightarrow> nat \<Rightarrow> 'a res" where
  "nth_chk xs i = (if i < length xs then Inr (xs ! i) else Inl Undefined)"

lemma nth_chk_ok [simp]: "i < length xs \<Longrightarrow> nth_chk xs i = Inr (xs ! i)"
  by (simp add: nth_chk_def)

lemma nth_chk_eq_Inr: "nth_chk xs i = Inr x \<longleftrightarrow> i < length xs \<and> xs ! i = x"
  by (auto simp: nth_chk_def)

section \<open>Bytes of machine integers\<close>

type_synonym byte = "8 word"

text \<open>The byte order of the machine the program runs on (\<open>__BYTE_ORDER__\<close>).\<close>

datatype endian = Little | Big

fun to_le :: "nat \<Rightarrow> nat \<Rightarrow> byte list" where
  "to_le 0 n = []"
| "to_le (Suc k) n = of_nat (n mod 256) # to_le k (n div 256)"

fun from_le :: "byte list \<Rightarrow> nat" where
  "from_le [] = 0"
| "from_le (b # bs) = unat b + 256 * from_le bs"

lemma to_le_numeral:
  "to_le (numeral k) n = of_nat (n mod 256) # to_le (pred_numeral k) (n div 256)"
  unfolding numeral_eq_Suc [of k] by (rule to_le.simps)

lemma unat_byte_less: "unat (b :: byte) < 256"
  using unsigned_less [where 'a = nat, of b] by simp

lemma length_to_le [simp]: "length (to_le k n) = k"
  by (induction k arbitrary: n) auto

lemma unat_of_nat_byte: "unat (of_nat (n mod 256) :: byte) = n mod 256"
  by (simp add: unat_of_nat)

lemma from_le_to_le: "from_le (to_le k n) = n mod 256 ^ k"
proof (induction k arbitrary: n)
  case 0
  then show ?case by simp
next
  case (Suc k)
  have "from_le (to_le (Suc k) n) = n mod 256 + 256 * (n div 256 mod 256 ^ k)"
    by (simp add: Suc.IH unat_of_nat_byte)
  also have "\<dots> = n mod (256 * 256 ^ k)"
    by (simp add: mod_mult2_eq add.commute)
  finally show ?case by simp
qed

lemma from_le_bound: "from_le bs < 256 ^ length bs"
proof (induction bs)
  case Nil
  then show ?case by simp
next
  case (Cons b bs)
  have "unat b < 256"
    by (rule unat_byte_less)
  with Cons.IH show ?case by simp
qed

lemma to_le_from_le: "to_le (length bs) (from_le bs) = bs"
proof (induction bs)
  case Nil
  then show ?case by simp
next
  case (Cons b bs)
  have "unat b < 256"
    by (rule unat_byte_less)
  with Cons.IH show ?case by simp
qed

text \<open>The bytes \<open>memcpy\<close> sees for an integer of \<open>k\<close> bytes, and the integer it stores.\<close>

definition mem_bytes :: "endian \<Rightarrow> nat \<Rightarrow> nat \<Rightarrow> byte list" where
  "mem_bytes e k n = (case e of Little \<Rightarrow> to_le k n | Big \<Rightarrow> rev (to_le k n))"

definition mem_value :: "endian \<Rightarrow> byte list \<Rightarrow> nat" where
  "mem_value e bs = (case e of Little \<Rightarrow> from_le bs | Big \<Rightarrow> from_le (rev bs))"

lemma length_mem_bytes [simp, wire_simps]: "length (mem_bytes e k n) = k"
  by (simp add: mem_bytes_def split: endian.split)

lemma mem_value_bytes: "mem_value e (mem_bytes e k n) = n mod 256 ^ k"
  by (simp add: mem_bytes_def mem_value_def from_le_to_le split: endian.split)

lemma mem_bytes_value: "length bs = k \<Longrightarrow> mem_bytes e k (mem_value e bs) = bs"
  using to_le_from_le [of bs] to_le_from_le [of "rev bs"]
  by (auto simp: mem_bytes_def mem_value_def split: endian.split)

lemma mem_value_bound: "mem_value e bs < 256 ^ length bs"
  using from_le_bound [of bs] from_le_bound [of "rev bs"]
  by (simp add: mem_value_def split: endian.split)

lemma mem_value_word16:
  fixes w :: "16 word"
  shows "mem_value e (mem_bytes e 2 (unat w)) = unat w"
  using unsigned_less [where 'a = nat, of w] by (simp add: mem_value_bytes)

lemma mem_value_word32:
  fixes w :: "32 word"
  shows "mem_value e (mem_bytes e 4 (unat w)) = unat w"
  using unsigned_less [where 'a = nat, of w] by (simp add: mem_value_bytes)

lemma mem_value_word64:
  fixes w :: "64 word"
  shows "mem_value e (mem_bytes e 8 (unat w)) = unat w"
  using unsigned_less [where 'a = nat, of w] by (simp add: mem_value_bytes)

section \<open>Printing integers\<close>

definition digit_char :: "nat \<Rightarrow> char" where
  "digit_char d = char_of (48 + d)"

lemma digit_chars:
  "digit_char 0 = CHR ''0''" "digit_char (Suc 0) = CHR ''1''" "digit_char 2 = CHR ''2''" "digit_char 3 = CHR ''3''"
  "digit_char 4 = CHR ''4''" "digit_char 5 = CHR ''5''" "digit_char 6 = CHR ''6''" "digit_char 7 = CHR ''7''"
  "digit_char 8 = CHR ''8''" "digit_char 9 = CHR ''9''"
  by code_simp+

fun show_nat :: "nat \<Rightarrow> string" where
  "show_nat n = (if n < 10 then [digit_char n] else show_nat (n div 10) @ [digit_char (n mod 10)])"

declare show_nat.simps [simp del]

definition show_int :: "int \<Rightarrow> string" where
  "show_int i = (if i < 0 then ''-'' @ show_nat (nat (- i)) else show_nat (nat i))"

definition hex_byte :: "byte \<Rightarrow> string" where
  "hex_byte b = [''0123456789abcdef'' ! (unat b div 16), ''0123456789abcdef'' ! (unat b mod 16)]"

end
