(* ===== verification/Byte_Order.thy ===== *)
theory Byte_Order
  imports Prelude
begin

text \<open>
  The conversions between host and network byte order: \<open>htons\<close> and \<open>htonl\<close> of the C library and
  the macros \<open>htonll\<close>/\<open>ntohll\<close> of \<open>src/peer-time-sync/messages.c\<close>, for a machine of either byte
  order. The lemmas show that what \<open>memcpy\<close> puts on the wire is the big-endian representation on
  both, and that reading it back gives the value.
\<close>

definition htons :: "endian \<Rightarrow> 16 word \<Rightarrow> 16 word" where
  "htons e w = (case e of Big \<Rightarrow> w | Little \<Rightarrow> word_of_nat (from_le (rev (to_le 2 (unat w)))))"

definition ntohs :: "endian \<Rightarrow> 16 word \<Rightarrow> 16 word" where
  "ntohs e w = htons e w"

definition htonl :: "endian \<Rightarrow> 32 word \<Rightarrow> 32 word" where
  "htonl e w = (case e of Big \<Rightarrow> w | Little \<Rightarrow> word_of_nat (from_le (rev (to_le 4 (unat w)))))"

definition ntohl :: "endian \<Rightarrow> 32 word \<Rightarrow> 32 word" where
  "ntohl e w = htonl e w"

definition htonll :: "endian \<Rightarrow> 64 word \<Rightarrow> 64 word" where
  "htonll e x =
     (case e of
        Big \<Rightarrow> x
      | Little \<Rightarrow> push_bit 32 (ucast (htonl e (ucast (x AND 0xFFFFFFFF)))) OR
                 ucast (htonl e (ucast (drop_bit 32 x))))"

definition ntohll :: "endian \<Rightarrow> 64 word \<Rightarrow> 64 word" where
  "ntohll e x =
     (case e of
        Big \<Rightarrow> x
      | Little \<Rightarrow> push_bit 32 (ucast (ntohl e (ucast (x AND 0xFFFFFFFF)))) OR
                 ucast (ntohl e (ucast (drop_bit 32 x))))"

text \<open>The big-endian (network) representation, the format of the wire.\<close>

definition net_bytes :: "nat \<Rightarrow> nat \<Rightarrow> byte list" where
  "net_bytes k n = rev (to_le k n)"

lemma length_net_bytes [simp, wire_simps]: "length (net_bytes k n) = k"
  by (simp add: net_bytes_def)

lemma to_le_mod: "to_le k (n mod 256 ^ k) = to_le k n"
  by (metis from_le_to_le length_to_le to_le_from_le)

lemma to_le_append: "to_le (j + k) n = to_le j n @ to_le k (n div 256 ^ j)"
  by (induction j arbitrary: n) (simp_all add: div_mult2_eq)

lemma unat_word_of_from_le:
  assumes "(256 :: nat) ^ length bs \<le> 2 ^ LENGTH('a::len)"
  shows "unat (word_of_nat (from_le bs) :: 'a word) = from_le bs"
proof -
  have "from_le bs < 2 ^ LENGTH('a)"
    using from_le_bound [of bs] assms by simp
  then show ?thesis by (simp add: unat_of_nat)
qed

lemma to_le_swap:
  assumes "(256 :: nat) ^ k \<le> 2 ^ LENGTH('a::len)"
  shows "to_le k (unat (word_of_nat (from_le (rev (to_le k n))) :: 'a word)) = rev (to_le k n)"
  using assms to_le_from_le [of "rev (to_le k n)"] by (simp add: unat_word_of_from_le)

lemma mem_htons: "mem_bytes e 2 (unat (htons e w)) = net_bytes 2 (unat w)"
  by (cases e) (simp_all add: mem_bytes_def htons_def net_bytes_def to_le_swap)

lemma mem_htonl: "mem_bytes e 4 (unat (htonl e w)) = net_bytes 4 (unat w)"
  by (cases e) (simp_all add: mem_bytes_def htonl_def net_bytes_def to_le_swap)

lemma unat_halves:
  fixes a b :: "32 word"
  shows "unat (push_bit 32 (ucast a) OR ucast b :: 64 word) = 2 ^ 32 * unat a + unat b"
proof -
  have "bit b n \<Longrightarrow> n < 32" for n
    using bit_imp_le_length [of b n] by simp
  then have "(push_bit 32 (ucast a) :: 64 word) OR ucast b = push_bit 32 (ucast a) + ucast b"
    by (intro disjunctive_add_eq_or [symmetric] bit_eqI) (fastforce simp: bit_simps)
  moreover have "unat (push_bit 32 (ucast a) :: 64 word) = 2 ^ 32 * unat a"
    using unsigned_less [where 'a = nat, of a]
    by (simp add: push_bit_eq_mult unat_word_ariths unsigned_ucast_eq take_bit_nat_eq_self mult.commute)
  moreover have "unat (ucast b :: 64 word) = unat b"
    using unsigned_less [where 'a = nat, of b] by (simp add: unsigned_ucast_eq take_bit_nat_eq_self)
  ultimately show ?thesis
    using unsigned_less [where 'a = nat, of a] unsigned_less [where 'a = nat, of b]
    by (simp add: unat_word_ariths)
qed

lemma unat_low_half: "unat (ucast ((x :: 64 word) AND 0xFFFFFFFF) :: 32 word) = unat x mod 2 ^ 32"
proof -
  have "(0xFFFFFFFF :: 64 word) = mask 32"
    by (simp add: mask_eq_exp_minus_1)
  then have "x AND 0xFFFFFFFF = take_bit 32 x"
    by (simp add: take_bit_eq_mask)
  then show ?thesis
    by (simp add: unsigned_ucast_eq unat_mod take_bit_eq_mod)
qed

lemma unat_high_half: "unat (ucast (drop_bit 32 (x :: 64 word)) :: 32 word) = unat x div 2 ^ 32"
  using unsigned_less [where 'a = nat, of x]
  by (simp add: unsigned_ucast_eq drop_bit_eq_div take_bit_eq_mod unat_div)

lemma to_le_htonl_little: "to_le 4 (unat (htonl Little w)) = rev (to_le 4 (unat w))"
  using mem_htonl [of Little w] by (simp add: mem_bytes_def net_bytes_def)

lemma mem_htonll: "mem_bytes e 8 (unat (htonll e x)) = net_bytes 8 (unat x)"
proof (cases e)
  case Big
  then show ?thesis by (simp add: mem_bytes_def htonll_def net_bytes_def)
next
  case Little
  let ?lo = "ucast (x AND 0xFFFFFFFF) :: 32 word" and ?hi = "ucast (drop_bit 32 x) :: 32 word"
  have "to_le 8 (unat (htonll e x)) = to_le (4 + 4) (2 ^ 32 * unat (htonl e ?lo) + unat (htonl e ?hi))"
    using Little by (simp add: htonll_def unat_halves)
  also have "\<dots> = to_le 4 (unat (htonl e ?hi)) @ to_le 4 (unat (htonl e ?lo))"
    using unsigned_less [where 'a = nat, of "htonl e ?hi"] to_le_mod [of 4 "2 ^ 32 * unat (htonl e ?lo) + unat (htonl e ?hi)"]
    by (simp only: to_le_append) simp
  also have "\<dots> = rev (to_le 4 (unat x mod 2 ^ 32) @ to_le 4 (unat x div 2 ^ 32))"
    using Little by (simp add: to_le_htonl_little unat_low_half unat_high_half)
  also have "\<dots> = rev (to_le (4 + 4) (unat x))"
    using to_le_mod [of 4 "unat x"] by (simp only: to_le_append) simp
  finally show ?thesis
    using Little by (simp add: mem_bytes_def net_bytes_def)
qed

lemma htons_swap: "ntohs e (word_of_nat (mem_value e (net_bytes 2 (unat w)))) = w"
proof -
  have "word_of_nat (mem_value e (net_bytes 2 (unat w))) = htons e w"
    using mem_value_word16 [of e "htons e w"] by (simp add: mem_htons)
  moreover have "ntohs e (htons e w) = w"
  proof (cases e)
    case Big
    then show ?thesis by (simp add: ntohs_def htons_def)
  next
    case Little
    have "to_le 2 (unat (htons e w)) = rev (to_le 2 (unat w))"
      using mem_htons [of e w] Little by (simp add: mem_bytes_def net_bytes_def)
    then have "unat (htons e (htons e w)) = unat w"
      using Little unsigned_less [where 'a = nat, of w]
      by (simp add: htons_def unat_word_of_from_le from_le_to_le)
    then show ?thesis by (simp add: ntohs_def word_unat_eq_iff)
  qed
  ultimately show ?thesis by simp
qed

lemma ntohll_htonll: "ntohll e x = htonll e x"
  by (simp add: ntohll_def htonll_def ntohl_def split: endian.split)

lemma htonll_invol: "htonll e (htonll e x) = x"
proof (cases e)
  case Big
  then show ?thesis by (simp add: htonll_def)
next
  case Little
  have step: "to_le 8 (unat (htonll e y)) = rev (to_le 8 (unat y))" for y
    using mem_htonll [of e y] Little by (simp add: mem_bytes_def net_bytes_def)
  have "to_le 8 (unat (htonll e (htonll e x))) = to_le 8 (unat x)"
    by (simp only: step rev_rev_ident)
  then have "from_le (to_le 8 (unat (htonll e (htonll e x)))) = from_le (to_le 8 (unat x))"
    by simp
  then show ?thesis
    using unsigned_less [where 'a = nat, of x] unsigned_less [where 'a = nat, of "htonll e (htonll e x)"]
    by (simp add: from_le_to_le word_unat_eq_iff)
qed

lemma htonll_swap: "ntohll e (word_of_nat (mem_value e (net_bytes 8 (unat x)))) = x"
proof -
  have "word_of_nat (mem_value e (net_bytes 8 (unat x))) = htonll e x"
    using mem_value_word64 [of e "htonll e x"] by (simp add: mem_htonll)
  then show ?thesis by (simp add: ntohll_htonll htonll_invol)
qed

end
