(* ===== verification/Peer_Lists.thy ===== *)
theory Peer_Lists
  imports Byte_Order
begin

text \<open>
  The peer lists of \<open>src/peer-time-sync/peers.cpp\<close>: a registry of ordered sets of IPv4 socket
  addresses, addressed by the list's id. A \<open>std::set\<close> is the strictly increasing list of its
  elements, in the order \<open>SockaddrInLess\<close>; an operation whose \<open>assert\<close> fails is \<open>Undefined\<close>.
  The locale \<open>peer_registry\<close> states what the client of \<open>peers.h\<close> relies on, in terms of sets; it
  is interpreted on the operations modelled here.
\<close>

section \<open>Socket addresses\<close>

text \<open>
  \<open>struct sockaddr_in\<close>: the address and the port as the integers stored in the struct, that is, in
  network byte order in memory. All sockets of the program are IPv4, so \<open>sin_family\<close> is always
  \<open>AF_INET\<close> and is left out.
\<close>

datatype sockaddr_in = Sockaddr (sin_addr: "32 word") (sin_port: "16 word")

definition SockaddrInLess :: "sockaddr_in \<Rightarrow> sockaddr_in \<Rightarrow> bool" where
  "SockaddrInLess a b =
     (if sin_addr a \<noteq> sin_addr b then sin_addr a < sin_addr b else sin_port a < sin_port b)"

instantiation sockaddr_in :: linorder
begin

definition less_sockaddr_in :: "sockaddr_in \<Rightarrow> sockaddr_in \<Rightarrow> bool" where
  "less_sockaddr_in a b = SockaddrInLess a b"

definition less_eq_sockaddr_in :: "sockaddr_in \<Rightarrow> sockaddr_in \<Rightarrow> bool" where
  "less_eq_sockaddr_in a b = (a = b \<or> SockaddrInLess a b)"

instance
  by intro_classes
    (auto simp: less_sockaddr_in_def less_eq_sockaddr_in_def SockaddrInLess_def
      intro: sockaddr_in.expand split: if_splits)

end

lemma SockaddrInLess_less: "SockaddrInLess = (<)"
  by (intro ext) (simp add: less_sockaddr_in_def)

definition equal_addr :: "sockaddr_in \<Rightarrow> sockaddr_in \<Rightarrow> bool" where
  "equal_addr a b = (sin_addr a = sin_addr b \<and> sin_port a = sin_port b)"

lemma equal_addr_eq [simp]: "equal_addr a b \<longleftrightarrow> a = b"
  by (auto simp: equal_addr_def intro: sockaddr_in.expand)

fun address_in_array :: "sockaddr_in \<Rightarrow> sockaddr_in list \<Rightarrow> bool" where
  "address_in_array a [] = False"
| "address_in_array a (x # xs) = (if equal_addr a x then True else address_in_array a xs)"

lemma address_in_array_iff [simp]: "address_in_array a xs \<longleftrightarrow> a \<in> set xs"
  by (induction xs) auto

fun is_src_addr :: "sockaddr_in \<Rightarrow> sockaddr_in list \<Rightarrow> bool" where
  "is_src_addr a [] = False"
| "is_src_addr a (x # xs) =
     (if sin_addr a = sin_addr x \<and> sin_port a = sin_port x then True else is_src_addr a xs)"

lemma is_src_addr_iff [simp]: "is_src_addr a xs \<longleftrightarrow> a \<in> set xs"
  by (induction xs) (auto intro: sockaddr_in.expand)

section \<open>Ordered sets\<close>

definition set_find :: "sockaddr_in \<Rightarrow> sockaddr_in list \<Rightarrow> sockaddr_in option" where
  "set_find p xs = find (\<lambda>y. \<not> SockaddrInLess y p \<and> \<not> SockaddrInLess p y) xs"

fun set_insert :: "sockaddr_in \<Rightarrow> sockaddr_in list \<Rightarrow> sockaddr_in list" where
  "set_insert p [] = [p]"
| "set_insert p (y # ys) =
     (if SockaddrInLess p y then p # y # ys
      else if SockaddrInLess y p then y # set_insert p ys
      else y # ys)"

fun set_erase :: "sockaddr_in \<Rightarrow> sockaddr_in list \<Rightarrow> sockaddr_in list" where
  "set_erase p [] = []"
| "set_erase p (y # ys) =
     (if \<not> SockaddrInLess p y \<and> \<not> SockaddrInLess y p then ys else y # set_erase p ys)"

lemma set_find_iff: "set_find p xs \<noteq> None \<longleftrightarrow> p \<in> set xs"
  by (induction xs) (auto simp: set_find_def SockaddrInLess_less)

lemma set_set_insert [simp]: "set (set_insert p xs) = insert p (set xs)"
  by (induction xs) (auto simp: SockaddrInLess_less)

lemma sorted_set_insert: "sorted_wrt (<) xs \<Longrightarrow> sorted_wrt (<) (set_insert p xs)"
  by (induction xs) (auto simp: SockaddrInLess_less)

lemma set_set_erase: "sorted_wrt (<) xs \<Longrightarrow> set (set_erase p xs) = set xs - {p}"
  by (induction xs) (auto simp: SockaddrInLess_less)

lemma set_erase_subset: "set (set_erase p xs) \<subseteq> set xs"
  by (induction xs) auto

lemma sorted_set_erase: "sorted_wrt (<) xs \<Longrightarrow> sorted_wrt (<) (set_erase p xs)"
proof (induction xs)
  case (Cons y ys)
  then show ?case
    using set_erase_subset [of p ys] by (auto simp: SockaddrInLess_less)
qed simp

lemma length_set_erase: "length (set_erase p xs) \<le> length xs"
  by (induction xs) auto

lemma length_set_insert: "length (set_insert p xs) \<le> Suc (length xs)"
  by (induction xs) auto

lemma strict_sorted_distinct:
  fixes xs :: "sockaddr_in list"
  shows "sorted_wrt (<) xs \<Longrightarrow> distinct xs"
  by (induction xs) auto

lemma card_strict_sorted:
  fixes xs :: "sockaddr_in list"
  shows "sorted_wrt (<) xs \<Longrightarrow> card (set xs) = length xs"
  by (simp add: strict_sorted_distinct distinct_card)

section \<open>The registry\<close>

text \<open>
  An iterator is the end of its list, the element it stands at, or invalid after its element was
  destroyed.
\<close>

datatype peer_iter = It_end | It_at sockaddr_in | It_invalid

record peer_store =
  peer_lists :: "sockaddr_in list list"
  peer_list_iterators :: "peer_iter list"

definition MAX_CAPACITY :: nat where
  "MAX_CAPACITY = 65535"

definition set_begin :: "sockaddr_in list \<Rightarrow> peer_iter" where
  "set_begin xs = (case xs of [] \<Rightarrow> It_end | x # _ \<Rightarrow> It_at x)"

definition empty_store :: peer_store where
  "empty_store = \<lparr>peer_lists = [], peer_list_iterators = []\<rparr>"

definition peer_list_create :: "peer_store \<Rightarrow> nat \<times> peer_store" where
  "peer_list_create st =
     (length (peer_lists st),
      st\<lparr>peer_lists := peer_lists st @ [[]],
         peer_list_iterators := peer_list_iterators st @ [set_begin []]\<rparr>)"

definition peer_list_count :: "peer_store \<Rightarrow> nat \<Rightarrow> 16 word res" where
  "peer_list_count st i =
     bindR (nth_chk (peer_lists st) i) (\<lambda>xs. Inr (word_of_nat (length xs)))"

text \<open>The loop of \<open>peer_list_count_excl\<close>, with its \<open>uint16_t\<close> counter.\<close>

fun count_excl_loop :: "sockaddr_in list \<Rightarrow> sockaddr_in list \<Rightarrow> sockaddr_in \<Rightarrow> 16 word \<Rightarrow> 16 word" where
  "count_excl_loop [] src dest count = count"
| "count_excl_loop (p # ps) src dest count =
     (if is_src_addr p src then count_excl_loop ps src dest count
      else if sin_addr p = sin_addr dest \<and> sin_port p = sin_port dest
      then count_excl_loop ps src dest count
      else count_excl_loop ps src dest (count + 1))"

definition peer_list_count_excl ::
  "peer_store \<Rightarrow> nat \<Rightarrow> sockaddr_in list \<Rightarrow> sockaddr_in \<Rightarrow> 16 word res" where
  "peer_list_count_excl st i src dest =
     bindR (nth_chk (peer_lists st) i) (\<lambda>xs. Inr (count_excl_loop xs src dest 0))"

definition peer_list_contains :: "peer_store \<Rightarrow> nat \<Rightarrow> sockaddr_in \<Rightarrow> bool res" where
  "peer_list_contains st i p =
     bindR (nth_chk (peer_lists st) i) (\<lambda>xs. Inr (set_find p xs \<noteq> None))"

definition peer_list_add :: "peer_store \<Rightarrow> nat \<Rightarrow> sockaddr_in \<Rightarrow> (int \<times> peer_store) res" where
  "peer_list_add st i p =
     bindR (peer_list_contains st i p) (\<lambda>c.
       if c then Inr (0, st)
       else bindR (nth_chk (peer_lists st) i) (\<lambda>xs.
         if length xs < MAX_CAPACITY
         then Inr (1, st\<lparr>peer_lists := (peer_lists st)[i := set_insert p xs]\<rparr>)
         else Inr (-1, st)))"

text \<open>Erasing an element invalidates an iterator that stands at it.\<close>

definition drop_iter :: "sockaddr_in \<Rightarrow> peer_iter \<Rightarrow> peer_iter" where
  "drop_iter p it = (if it = It_at p then It_invalid else it)"

definition peer_list_remove :: "peer_store \<Rightarrow> nat \<Rightarrow> sockaddr_in \<Rightarrow> peer_store res" where
  "peer_list_remove st i p =
     bindR (nth_chk (peer_lists st) i) (\<lambda>xs.
       Inr (st\<lparr>peer_lists := (peer_lists st)[i := set_erase p xs],
               peer_list_iterators :=
                 (peer_list_iterators st)[i := drop_iter p (peer_list_iterators st ! i)]\<rparr>))"

text \<open>One record of the buffer: the address length, the address and the port.\<close>

definition peer_record :: "endian \<Rightarrow> sockaddr_in \<Rightarrow> byte list" where
  "peer_record e p = [4] @ mem_bytes e 4 (unat (sin_addr p)) @ mem_bytes e 2 (unat (sin_port p))"

text \<open>
  The loop of \<open>peer_list_write_to_buf_excl\<close>: the bytes it writes at \<open>buf\<close>, and the value it
  returns.
\<close>

fun write_excl_loop ::
  "endian \<Rightarrow> sockaddr_in list \<Rightarrow> nat \<Rightarrow> sockaddr_in list \<Rightarrow> sockaddr_in \<Rightarrow> byte list \<times> bool" where
  "write_excl_loop e [] sz src dest = ([], if 0 < sz then False else True)"
| "write_excl_loop e (p # ps) sz src dest =
     (if is_src_addr p src then write_excl_loop e ps sz src dest
      else if sin_addr p = sin_addr dest \<and> sin_port p = sin_port dest
      then write_excl_loop e ps sz src dest
      else if sz < 7 then ([], False)
      else (case write_excl_loop e ps (sz - 7) src dest of
              (bs, ok) \<Rightarrow> (peer_record e p @ bs, ok)))"

definition peer_list_write_to_buf_excl ::
  "endian \<Rightarrow> peer_store \<Rightarrow> nat \<Rightarrow> nat \<Rightarrow> sockaddr_in list \<Rightarrow> sockaddr_in \<Rightarrow> (byte list \<times> bool) res" where
  "peer_list_write_to_buf_excl e st i sz src dest =
     bindR (nth_chk (peer_lists st) i) (\<lambda>xs. Inr (write_excl_loop e xs sz src dest))"

definition peer_list_cpy :: "peer_store \<Rightarrow> nat \<Rightarrow> nat \<Rightarrow> peer_store res" where
  "peer_list_cpy st src_list dest_list =
     bindR (nth_chk (peer_lists st) src_list) (\<lambda>xs.
     bindR (nth_chk (peer_lists st) dest_list) (\<lambda>_.
       if src_list = dest_list then Inr st
       else Inr (st\<lparr>peer_lists := (peer_lists st)[dest_list := xs],
                    peer_list_iterators := (peer_list_iterators st)[dest_list := It_invalid]\<rparr>)))"

definition peer_list_iterator_begin :: "peer_store \<Rightarrow> nat \<Rightarrow> (bool \<times> peer_store) res" where
  "peer_list_iterator_begin st i =
     bindR (nth_chk (peer_lists st) i) (\<lambda>xs.
       Inr (set_begin xs \<noteq> It_end,
            st\<lparr>peer_list_iterators := (peer_list_iterators st)[i := set_begin xs]\<rparr>))"

text \<open>The successor of an element: the next greater one of the set.\<close>

definition set_next :: "sockaddr_in \<Rightarrow> sockaddr_in list \<Rightarrow> peer_iter" where
  "set_next a xs = (case find (SockaddrInLess a) xs of None \<Rightarrow> It_end | Some y \<Rightarrow> It_at y)"

definition peer_list_iterator_next :: "peer_store \<Rightarrow> nat \<Rightarrow> (bool \<times> peer_store) res" where
  "peer_list_iterator_next st i =
     bindR (nth_chk (peer_lists st) i) (\<lambda>xs.
     bindR (nth_chk (peer_list_iterators st) i) (\<lambda>it.
       case it of
         It_at a \<Rightarrow>
           Inr (set_next a xs \<noteq> It_end,
                st\<lparr>peer_list_iterators := (peer_list_iterators st)[i := set_next a xs]\<rparr>)
       | _ \<Rightarrow> Inl Undefined))"

definition peer_list_iterator_get_peer :: "peer_store \<Rightarrow> nat \<Rightarrow> sockaddr_in res" where
  "peer_list_iterator_get_peer st i =
     bindR (nth_chk (peer_lists st) i) (\<lambda>xs.
     bindR (nth_chk (peer_list_iterators st) i) (\<lambda>it.
       case it of It_at a \<Rightarrow> Inr a | _ \<Rightarrow> Inl Undefined))"

definition peer_list_full :: "peer_store \<Rightarrow> nat \<Rightarrow> bool res" where
  "peer_list_full st i =
     bindR (nth_chk (peer_lists st) i) (\<lambda>xs. Inr (MAX_CAPACITY \<le> length xs))"

lemmas peer_ops_defs =
  peer_list_create_def peer_list_count_def peer_list_count_excl_def peer_list_contains_def
  peer_list_add_def peer_list_remove_def peer_list_write_to_buf_excl_def peer_list_cpy_def
  peer_list_iterator_begin_def peer_list_iterator_next_def peer_list_iterator_get_peer_def
  peer_list_full_def

section \<open>The invariant of the registry\<close>

definition wf_store :: "peer_store \<Rightarrow> bool" where
  "wf_store st \<longleftrightarrow>
     length (peer_list_iterators st) = length (peer_lists st) \<and>
     (\<forall>xs \<in> set (peer_lists st). sorted_wrt (<) xs \<and> length xs \<le> MAX_CAPACITY)"

definition num_lists :: "peer_store \<Rightarrow> nat" where
  "num_lists st = length (peer_lists st)"

definition peers_of :: "peer_store \<Rightarrow> nat \<Rightarrow> sockaddr_in set" where
  "peers_of st i = set (peer_lists st ! i)"

lemma wf_store_list:
  "wf_store st \<Longrightarrow> i < num_lists st \<Longrightarrow>
   sorted_wrt (<) (peer_lists st ! i) \<and> length (peer_lists st ! i) \<le> MAX_CAPACITY"
  by (simp add: wf_store_def num_lists_def)

lemma wf_store_update:
  assumes "wf_store st" and "sorted_wrt (<) xs" and "length xs \<le> MAX_CAPACITY"
  shows "wf_store (st\<lparr>peer_lists := (peer_lists st)[i := xs]\<rparr>)"
  using assms set_update_subset_insert [of "peer_lists st" i xs] by (auto simp: wf_store_def)

lemma wf_store_iters:
  "wf_store st \<Longrightarrow> length its = length (peer_list_iterators st) \<Longrightarrow>
   wf_store (st\<lparr>peer_list_iterators := its\<rparr>)"
  by (simp add: wf_store_def)

lemma wf_empty_store: "wf_store empty_store"
  by (simp add: wf_store_def empty_store_def)

lemma wf_peer_list_create: "wf_store st \<Longrightarrow> wf_store (snd (peer_list_create st))"
  by (auto simp: wf_store_def peer_list_create_def)

lemma contains_eq:
  "i < num_lists st \<Longrightarrow> peer_list_contains st i p = Inr (p \<in> peers_of st i)"
  by (simp add: peer_list_contains_def num_lists_def peers_of_def set_find_iff del: not_None_eq)

lemma full_eq:
  "wf_store st \<Longrightarrow> i < num_lists st \<Longrightarrow>
   peer_list_full st i = Inr (MAX_CAPACITY \<le> card (peers_of st i))"
  using wf_store_list [of st i]
  by (simp add: peer_list_full_def num_lists_def peers_of_def card_strict_sorted)

lemma add_eq:
  assumes "wf_store st" and "i < num_lists st"
  shows "peer_list_add st i p =
    (if p \<in> peers_of st i then Inr (0, st)
     else if card (peers_of st i) < MAX_CAPACITY
     then Inr (1, st\<lparr>peer_lists := (peer_lists st)[i := set_insert p (peer_lists st ! i)]\<rparr>)
     else Inr (-1, st))"
proof -
  have "card (peers_of st i) = length (peer_lists st ! i)"
    using wf_store_list [OF assms] by (simp add: peers_of_def card_strict_sorted)
  with assms(2) show ?thesis
    by (simp add: peer_list_add_def contains_eq) (simp add: num_lists_def)
qed

lemma peers_of_update:
  "i < num_lists st \<Longrightarrow>
   peers_of (st\<lparr>peer_lists := (peer_lists st)[i := xs]\<rparr>) j = (if j = i then set xs else peers_of st j)"
  by (simp add: peers_of_def num_lists_def)

lemma add_result:
  assumes "wf_store st" and "i < num_lists st"
  obtains r st' where "peer_list_add st i p = Inr (r, st')" and "wf_store st'"
    and "num_lists st' = num_lists st" and "r \<in> {-1, 0, 1}"
    and "r < 0 \<longleftrightarrow> p \<notin> peers_of st i \<and> MAX_CAPACITY \<le> card (peers_of st i)"
    and "peers_of st' = (peers_of st)(i := if r < 0 then peers_of st i else insert p (peers_of st i))"
proof -
  note wf = wf_store_list [OF assms]
  let ?st = "st\<lparr>peer_lists := (peer_lists st)[i := set_insert p (peer_lists st ! i)]\<rparr>"
  consider (old) "p \<in> peers_of st i" | (full) "p \<notin> peers_of st i" "MAX_CAPACITY \<le> card (peers_of st i)"
    | (new) "p \<notin> peers_of st i" "card (peers_of st i) < MAX_CAPACITY"
    by linarith
  then show thesis
  proof cases
    case old
    then show thesis
      using assms by (intro that [of 0 st]) (auto simp: add_eq insert_absorb)
  next
    case full
    then show thesis
      using assms by (intro that [of "-1" st]) (auto simp: add_eq)
  next
    case new
    then have "length (set_insert p (peer_lists st ! i)) \<le> MAX_CAPACITY"
      using wf length_set_insert [of p "peer_lists st ! i"]
      by (simp add: peers_of_def card_strict_sorted)
    then have "wf_store ?st"
      using wf assms(1) by (simp add: wf_store_update sorted_set_insert)
    moreover have "peers_of ?st = (peers_of st)(i := insert p (peers_of st i))"
      using assms(2) by (intro ext) (simp add: peers_of_update, simp add: peers_of_def)
    ultimately show thesis
      using new assms by (intro that [of 1 ?st]) (auto simp: add_eq num_lists_def)
  qed
qed

lemma remove_result:
  assumes "wf_store st" and "i < num_lists st"
  obtains st' where "peer_list_remove st i p = Inr st'" and "wf_store st'"
    and "num_lists st' = num_lists st" and "peers_of st' = (peers_of st)(i := peers_of st i - {p})"
proof -
  note wf = wf_store_list [OF assms]
  let ?st1 = "st\<lparr>peer_lists := (peer_lists st)[i := set_erase p (peer_lists st ! i)]\<rparr>"
  let ?its = "(peer_list_iterators st)[i := drop_iter p (peer_list_iterators st ! i)]"
  let ?st = "?st1\<lparr>peer_list_iterators := ?its\<rparr>"
  have "wf_store ?st1"
    using wf assms(1) length_set_erase [of p "peer_lists st ! i"]
    by (simp add: wf_store_update sorted_set_erase)
  then have "wf_store ?st"
    by (rule wf_store_iters) simp
  moreover have "peers_of ?st = peers_of ?st1"
    by (simp add: peers_of_def fun_eq_iff)
  moreover have "peers_of ?st1 = (peers_of st)(i := peers_of st i - {p})"
    using assms(2) wf by (intro ext) (simp add: peers_of_update, simp add: peers_of_def set_set_erase)
  moreover have "peer_list_remove st i p = Inr ?st"
    using assms(2) by (simp add: peer_list_remove_def num_lists_def)
  ultimately show thesis
    by (intro that [of ?st]) (auto simp: num_lists_def)
qed

lemma cpy_result:
  assumes "wf_store st" and "i < num_lists st" and "j < num_lists st"
  obtains st' where "peer_list_cpy st i j = Inr st'" and "wf_store st'"
    and "num_lists st' = num_lists st" and "peers_of st' = (peers_of st)(j := peers_of st i)"
proof (cases "i = j")
  case True
  with assms show thesis
    by (intro that [of st]) (auto simp: peer_list_cpy_def num_lists_def)
next
  case False
  let ?st1 = "st\<lparr>peer_lists := (peer_lists st)[j := peer_lists st ! i]\<rparr>"
  let ?st = "?st1\<lparr>peer_list_iterators := (peer_list_iterators st)[j := It_invalid]\<rparr>"
  have "wf_store ?st1"
    using assms wf_store_list [of st i] by (simp add: wf_store_update)
  then have "wf_store ?st"
    by (rule wf_store_iters) simp
  moreover have "peers_of ?st = (peers_of st)(j := peers_of st i)"
    using assms(3) by (intro ext) (simp add: peers_of_def num_lists_def)
  ultimately show thesis
    using False assms by (intro that [of ?st]) (auto simp: peer_list_cpy_def num_lists_def)
qed

section \<open>The interface of peers.h\<close>

text \<open>
  What \<open>messages.c\<close> relies on: the lists are sets of at most \<open>cap\<close> addresses, the operations
  change one list only, and no operation on an existing list stops.
\<close>

locale peer_registry =
  fixes wf :: "'s \<Rightarrow> bool"
    and lists :: "'s \<Rightarrow> nat"
    and elems :: "'s \<Rightarrow> nat \<Rightarrow> sockaddr_in set"
    and cap :: nat
    and contains :: "'s \<Rightarrow> nat \<Rightarrow> sockaddr_in \<Rightarrow> bool res"
    and full :: "'s \<Rightarrow> nat \<Rightarrow> bool res"
    and add :: "'s \<Rightarrow> nat \<Rightarrow> sockaddr_in \<Rightarrow> (int \<times> 's) res"
    and remove :: "'s \<Rightarrow> nat \<Rightarrow> sockaddr_in \<Rightarrow> 's res"
    and cpy :: "'s \<Rightarrow> nat \<Rightarrow> nat \<Rightarrow> 's res"
  assumes finite_elems: "wf s \<Longrightarrow> i < lists s \<Longrightarrow> finite (elems s i) \<and> card (elems s i) \<le> cap"
    and contains_law: "i < lists s \<Longrightarrow> contains s i p = Inr (p \<in> elems s i)"
    and full_law: "wf s \<Longrightarrow> i < lists s \<Longrightarrow> full s i = Inr (cap \<le> card (elems s i))"
    and add_law: "wf s \<Longrightarrow> i < lists s \<Longrightarrow>
      \<exists>r s'. add s i p = Inr (r, s') \<and> wf s' \<and> lists s' = lists s \<and> r \<in> {-1, 0, 1} \<and>
        (r < 0 \<longleftrightarrow> p \<notin> elems s i \<and> cap \<le> card (elems s i)) \<and>
        elems s' = (elems s)(i := if r < 0 then elems s i else insert p (elems s i))"
    and remove_law: "wf s \<Longrightarrow> i < lists s \<Longrightarrow>
      \<exists>s'. remove s i p = Inr s' \<and> wf s' \<and> lists s' = lists s \<and>
        elems s' = (elems s)(i := elems s i - {p})"
    and cpy_law: "wf s \<Longrightarrow> i < lists s \<Longrightarrow> j < lists s \<Longrightarrow>
      \<exists>s'. cpy s i j = Inr s' \<and> wf s' \<and> lists s' = lists s \<and> elems s' = (elems s)(j := elems s i)"
begin

text \<open>A list below its capacity, or one that already holds the peer, holds it after \<open>add\<close>.\<close>

lemma add_contains:
  assumes "wf s" and "i < lists s" and "p \<in> elems s i \<or> card (elems s i) < cap"
  shows "\<exists>r s'. add s i p = Inr (r, s') \<and> 0 \<le> r \<and> wf s' \<and> lists s' = lists s \<and>
    contains s' i p = Inr True \<and> elems s' = (elems s)(i := insert p (elems s i))"
  using add_law [OF assms(1,2), of p] assms(2,3) by (fastforce simp: contains_law)

text \<open>Adding a peer keeps a property of the elements of every list that the peer has.\<close>

lemma add_keeps:
  assumes "wf s" and "i < lists s" and "add s i p = Inr (r, s')"
    and "\<forall>q \<in> elems s j. P q" and "j = i \<Longrightarrow> P p"
  shows "\<forall>q \<in> elems s' j. P q"
  using add_law [OF assms(1,2), of p] assms(3-5) by (fastforce split: if_splits)

lemma remove_add_moves:
  assumes "wf s" and "i < lists s" and "j < lists s" and "i \<noteq> j"
    and "p \<in> elems s j \<or> card (elems s j) < cap"
  shows "\<exists>s1 r s2. remove s i p = Inr s1 \<and> add s1 j p = Inr (r, s2) \<and> wf s2 \<and> lists s2 = lists s \<and>
    elems s2 = (elems s)(i := elems s i - {p}, j := insert p (elems s j))"
proof -
  obtain s1 where s1: "remove s i p = Inr s1" "wf s1" "lists s1 = lists s"
      "elems s1 = (elems s)(i := elems s i - {p})"
    using remove_law [OF assms(1,2)] by blast
  obtain r s2 where "add s1 j p = Inr (r, s2)" "wf s2" "lists s2 = lists s"
      "elems s2 = (elems s1)(j := insert p (elems s1 j))"
    using add_contains [of s1 j p] s1 assms(3-5) by auto
  with s1 assms(4) show ?thesis by auto
qed

end

interpretation peers: peer_registry wf_store num_lists peers_of MAX_CAPACITY
  peer_list_contains peer_list_full peer_list_add peer_list_remove peer_list_cpy
proof unfold_locales
  show "finite (peers_of s i) \<and> card (peers_of s i) \<le> MAX_CAPACITY"
    if "wf_store s" "i < num_lists s" for s i
    using wf_store_list [OF that] by (simp add: peers_of_def card_strict_sorted)
qed (use contains_eq full_eq add_result remove_result cpy_result in \<open>metis+\<close>)

section \<open>Counting and writing the peers of a HELLO_REPLY\<close>

definition keeps_peer :: "sockaddr_in list \<Rightarrow> sockaddr_in \<Rightarrow> sockaddr_in \<Rightarrow> bool" where
  "keeps_peer src dest p \<longleftrightarrow> p \<notin> set src \<and> p \<noteq> dest"

lemma same_addr_iff [simp]: "sin_addr a = sin_addr b \<and> sin_port a = sin_port b \<longleftrightarrow> a = b"
  by (auto intro: sockaddr_in.expand)

lemma count_excl_loop_eq:
  "count_excl_loop xs src dest c = c + of_nat (length (filter (keeps_peer src dest) xs))"
  by (induction xs arbitrary: c) (auto simp: keeps_peer_def)

lemma count_excl_unat:
  assumes "wf_store st" and "i < num_lists st"
  shows "\<exists>c. peer_list_count_excl st i src dest = Inr c \<and>
    unat c = length (filter (keeps_peer src dest) (peer_lists st ! i))"
proof -
  have "length (filter (keeps_peer src dest) (peer_lists st ! i)) \<le> 65535"
    using wf_store_list [OF assms] length_filter_le [of "keeps_peer src dest" "peer_lists st ! i"]
    unfolding MAX_CAPACITY_def by linarith
  then show ?thesis
    using assms(2) by (simp add: peer_list_count_excl_def num_lists_def count_excl_loop_eq unat_of_nat)
qed

lemma length_peer_record [simp, wire_simps]: "length (peer_record e p) = 7"
  by (simp add: peer_record_def)

lemma length_concat_records [simp, wire_simps]: "length (concat (map (peer_record e) ps)) = 7 * length ps"
  by (induction ps) auto

lemma write_excl_loop_eq:
  "write_excl_loop e xs (7 * length (filter (keeps_peer src dest) xs)) src dest =
     (concat (map (peer_record e) (filter (keeps_peer src dest) xs)), True)"
  by (induction xs) (auto simp: keeps_peer_def)

text \<open>The loop never writes more than the size it is given.\<close>

lemma write_excl_loop_bound: "length (fst (write_excl_loop e xs sz src dest)) \<le> sz"
proof (induction xs arbitrary: sz)
  case (Cons p ps)
  then show ?case
    using Cons.IH [of sz] Cons.IH [of "sz - 7"]
    by (cases "write_excl_loop e ps (sz - 7) src dest") auto
qed simp

section \<open>Iteration\<close>

lemma find_next:
  fixes xs :: "sockaddr_in list"
  shows "sorted_wrt (<) xs \<Longrightarrow> k < length xs \<Longrightarrow>
    find (\<lambda>y. xs ! k < y) xs = (if Suc k < length xs then Some (xs ! Suc k) else None)"
proof (induction xs arbitrary: k)
  case (Cons x xs)
  show ?case
  proof (cases k)
    case 0
    then show ?thesis using Cons.prems by (cases xs) auto
  next
    case (Suc k')
    then have "\<not> xs ! k' < x"
      using Cons.prems by (simp add: less_imp_le leD)
    with Suc show ?thesis using Cons by auto
  qed
qed simp

lemma set_next_nth:
  "sorted_wrt (<) xs \<Longrightarrow> k < length xs \<Longrightarrow>
   set_next (xs ! k) xs = (if Suc k < length xs then It_at (xs ! Suc k) else It_end)"
  using find_next [of xs k] by (simp add: set_next_def SockaddrInLess_less)

lemma peers_of_iters [simp]: "peers_of (st\<lparr>peer_list_iterators := its\<rparr>) i = peers_of st i"
  by (simp add: peers_of_def)

lemma num_lists_iters [simp]: "num_lists (st\<lparr>peer_list_iterators := its\<rparr>) = num_lists st"
  by (simp add: num_lists_def)

end
