(* ===== verification/Node_Clock.thy ===== *)
theory Node_Clock
  imports Peer_Lists
begin

text \<open>
  The state of a node (\<open>NodeData\<close> of \<open>src/peer-time-sync/node_data.h\<close>), the process around it, and
  the clocks of \<open>src/peer-time-sync/clock.c\<close>. The system calls are the fields of \<open>env\<close>: the
  answer of the \<open>n\<close>-th \<open>clock_gettime(CLOCK_MONOTONIC)\<close> (\<open>None\<close> when it fails) and the return
  value of the \<open>n\<close>-th \<open>sendto\<close>.
\<close>

section \<open>The node and its process\<close>

record timespec =
  tv_sec :: int
  tv_nsec :: int

definition CLOCK_UNSYNCHRONIZED :: "8 word" where
  "CLOCK_UNSYNCHRONIZED = 255"

definition CLOCK_LEADER :: "8 word" where
  "CLOCK_LEADER = 0"

text \<open>
  The array \<open>my_addresses\<close> carries its length, so \<open>num_my_addresses\<close> is no field of its own.
  \<open>offset_ms\<close> is an \<open>int64_t\<close>, kept as an integer; the arithmetic on it checks the range.
\<close>

record NodeData =
  my_addresses :: "sockaddr_in list"
  known_peer :: sockaddr_in
  sock_fd :: int
  peer_list :: nat
  waiting_for_hello_reply :: bool
  waiting_for_ack_connect :: nat
  sync_level :: "8 word"
  offset_ms :: int
  synchronized_peer :: sockaddr_in
  next_sync_start :: timespec
  next_sync_check :: timespec
  last_sync_start :: "64 word"
  asked_to_synchronize :: nat
  synchronizing :: bool
  synchronizing_level :: "8 word"
  peer_to_sync :: sockaddr_in
  waiting_for_delay_response :: timespec
  T1 :: "64 word"
  T2 :: "64 word"
  T3 :: "64 word"
  T4 :: "64 word"

text \<open>
  What a node puts out: a datagram handed to \<open>sendto\<close>, or a line on standard error (without the
  text of \<open>errno\<close> that \<open>error\<close> may append).
\<close>

datatype out_event = Sendto "byte list" sockaddr_in | Stderr string

record proc =
  nd :: NodeData
  store :: peer_store
  start_time :: timespec
  clock_reads :: nat
  sendto_calls :: nat
  outputs :: "out_event list"

record env =
  byte_order :: endian
  clock_gettime :: "nat \<Rightarrow> timespec option"
  sendto_result :: "nat \<Rightarrow> int"

definition emit :: "out_event \<Rightarrow> proc \<Rightarrow> proc" where
  "emit x w = w\<lparr>outputs := outputs w @ [x]\<rparr>"

definition upd_nd :: "(NodeData \<Rightarrow> NodeData) \<Rightarrow> proc \<Rightarrow> proc" where
  "upd_nd f w = w\<lparr>nd := f (nd w)\<rparr>"

section \<open>Clocks\<close>

definition read_clock :: "env \<Rightarrow> proc \<Rightarrow> (timespec \<times> proc) res" where
  "read_clock E w =
     (case clock_gettime E (clock_reads w) of
        None \<Rightarrow> Inl Exit
      | Some t \<Rightarrow> Inr (t, w\<lparr>clock_reads := Suc (clock_reads w)\<rparr>))"

definition clock_init :: "env \<Rightarrow> proc \<Rightarrow> proc res" where
  "clock_init E w = bindR (read_clock E w) (\<lambda>(t, w). Inr (w\<lparr>start_time := t\<rparr>))"

definition elapsed_ms :: "timespec \<Rightarrow> timespec \<Rightarrow> int" where
  "elapsed_ms start now =
     (tv_sec now - tv_sec start) * 1000 + (tv_nsec now - tv_nsec start) sdiv 1000000"

definition get_natural_clock :: "env \<Rightarrow> proc \<Rightarrow> (64 word \<times> proc) res" where
  "get_natural_clock E w =
     bindR (read_clock E w) (\<lambda>(t, w). Inr (word_of_int (elapsed_ms (start_time w) t), w))"

text \<open>Arithmetic on \<open>int64_t\<close>: leaving the range is undefined.\<close>

definition int64 :: "int \<Rightarrow> int res" where
  "int64 x = (if - (2 ^ 63) \<le> x \<and> x < 2 ^ 63 then Inr x else Inl Undefined)"

definition get_clock :: "env \<Rightarrow> proc \<Rightarrow> (64 word \<times> proc) res" where
  "get_clock E w =
     bindR (get_natural_clock E w) (\<lambda>(n, w).
       let natural_time = sint n in
       if sync_level (nd w) = CLOCK_UNSYNCHRONIZED then Inr (word_of_int natural_time, w)
       else if offset_ms (nd w) \<le> natural_time
       then bindR (int64 (natural_time - offset_ms (nd w))) (\<lambda>d. Inr (word_of_int d, w))
       else Inr (0, w))"

definition set_event_in_x_seconds :: "env \<Rightarrow> int \<Rightarrow> proc \<Rightarrow> (timespec \<times> proc) res" where
  "set_event_in_x_seconds E x w =
     bindR (read_clock E w) (\<lambda>(t, w). Inr (t\<lparr>tv_sec := tv_sec t + x\<rparr>, w))"

definition check_order :: "timespec \<Rightarrow> timespec \<Rightarrow> bool" where
  "check_order before after \<longleftrightarrow>
     tv_sec before < tv_sec after \<or> (tv_sec before = tv_sec after \<and> tv_nsec before < tv_nsec after)"

definition now_is_after :: "env \<Rightarrow> timespec \<Rightarrow> proc \<Rightarrow> (bool \<times> proc) res" where
  "now_is_after E ts w = bindR (read_clock E w) (\<lambda>(t, w). Inr (check_order ts t, w))"

text \<open>The sum is evaluated from the left, as C does.\<close>

definition update_offset :: "NodeData \<Rightarrow> NodeData res" where
  "update_offset n =
     bindR (int64 (sint (T2 n) - sint (T1 n))) (\<lambda>a.
     bindR (int64 (a + sint (T3 n))) (\<lambda>b.
     bindR (int64 (b - sint (T4 n))) (\<lambda>c.
       Inr (n\<lparr>offset_ms := c sdiv 2\<rparr>))))"

lemmas clock_defs =
  read_clock_def clock_init_def get_natural_clock_def get_clock_def set_event_in_x_seconds_def
  now_is_after_def

section \<open>Facts about clocks\<close>

lemma emit_simps [simp]:
  "nd (emit x w) = nd w" "store (emit x w) = store w" "start_time (emit x w) = start_time w"
  "clock_reads (emit x w) = clock_reads w" "outputs (emit x w) = outputs w @ [x]"
  "sendto_calls (emit x w) = sendto_calls w"
  by (simp_all add: emit_def)

lemma upd_nd_simps [simp]:
  "nd (upd_nd f w) = f (nd w)" "store (upd_nd f w) = store w" "start_time (upd_nd f w) = start_time w"
  "clock_reads (upd_nd f w) = clock_reads w" "outputs (upd_nd f w) = outputs w"
  "sendto_calls (upd_nd f w) = sendto_calls w"
  by (simp_all add: upd_nd_def)

lemma int64_ok [simp]: "- (2 ^ 63) \<le> x \<Longrightarrow> x < 2 ^ 63 \<Longrightarrow> int64 x = Inr x"
  by (simp add: int64_def)

lemma int64_eq_Inr: "int64 x = Inr y \<longleftrightarrow> y = x \<and> - (2 ^ 63) \<le> x \<and> x < 2 ^ 63"
  by (auto simp: int64_def)

text \<open>Deadlines are ordered lexicographically; the order is a strict linear order.\<close>

lemma check_order_irrefl: "\<not> check_order t t"
  by (simp add: check_order_def)

lemma check_order_trans: "check_order a b \<Longrightarrow> check_order b c \<Longrightarrow> check_order a c"
  by (auto simp: check_order_def)

lemma check_order_total: "a \<noteq> b \<Longrightarrow> check_order a b \<or> check_order b (a :: timespec)"
  by (cases a; cases b) (auto simp: check_order_def)

text \<open>Truncating division by two loses at most one half.\<close>

lemma sdiv2_error: "\<bar>2 * (x sdiv 2) - x\<bar> \<le> (1 :: int)"
proof -
  have "x sdiv 2 = sgn x * (\<bar>x\<bar> div 2)"
    by (simp add: signed_divide_int_def)
  moreover have "2 * (\<bar>x\<bar> div 2) \<le> \<bar>x\<bar>" "\<bar>x\<bar> \<le> 2 * (\<bar>x\<bar> div 2) + 1"
    by presburger+
  ultimately show ?thesis
    by (cases "x < 0"; cases "x = 0") (auto simp: abs_if sgn_if)
qed

lemma sdiv2_double [simp]: "(2 * x) sdiv 2 = (x :: int)"
  by (simp add: signed_divide_int_def abs_mult sgn_mult mult.commute abs_mult_sgn)

lemma update_offset_eq:
  assumes "\<bar>sint (T1 n)\<bar> < 2 ^ 60" and "\<bar>sint (T2 n)\<bar> < 2 ^ 60"
    and "\<bar>sint (T3 n)\<bar> < 2 ^ 60" and "\<bar>sint (T4 n)\<bar> < 2 ^ 60"
  shows "update_offset n =
    Inr (n\<lparr>offset_ms := (sint (T2 n) - sint (T1 n) + sint (T3 n) - sint (T4 n)) sdiv 2\<rparr>)"
  using assms by (simp add: update_offset_def abs_less_iff)

end
