(* ===== verification/Node_Messages.thy ===== *)
theory Node_Messages
  imports Node_Clock
begin

text \<open>
  The messages of the peer-time-sync protocol: \<open>src/peer-time-sync/messages.c\<close>. First the
  functions that build a message in \<open>send_buffer\<close> (here: the bytes of the message), then one
  definition per handler, the dispatcher, and the timers. A handler takes the received bytes and
  the sender and maps the state of the process to its next state. The \<open>LOG\<close> lines are compiled
  out by \<open>-DNDEBUG\<close> and are left out.
\<close>

section \<open>Constants\<close>

definition HELLO :: byte where "HELLO = 1"
definition HELLO_REPLY :: byte where "HELLO_REPLY = 2"
definition CONNECT :: byte where "CONNECT = 3"
definition ACK_CONNECT :: byte where "ACK_CONNECT = 4"
definition SYNC_START :: byte where "SYNC_START = 11"
definition DELAY_REQUEST :: byte where "DELAY_REQUEST = 12"
definition DELAY_RESPONSE :: byte where "DELAY_RESPONSE = 13"
definition LEADER :: byte where "LEADER = 21"
definition GET_TIME :: byte where "GET_TIME = 31"
definition TIME :: byte where "TIME = 32"

lemmas msg_codes [wire_simps] =
  HELLO_def HELLO_REPLY_def CONNECT_def ACK_CONNECT_def SYNC_START_def DELAY_REQUEST_def
  DELAY_RESPONSE_def LEADER_def GET_TIME_def TIME_def

definition LEADER_SYNCHRONIZATION_DELAY :: int where "LEADER_SYNCHRONIZATION_DELAY = 2"
definition SYNCHRONIZATION_CHECK_DELAY :: int where "SYNCHRONIZATION_CHECK_DELAY = 20"
definition DELAY_RESPONSE_TIME :: int where "DELAY_RESPONSE_TIME = 5"
definition SYNC_START_DELAY :: int where "SYNC_START_DELAY = 5"

definition BUFFER_SIZE :: nat where "BUFFER_SIZE = 65536"

lemmas timing_defs =
  LEADER_SYNCHRONIZATION_DELAY_def SYNCHRONIZATION_CHECK_DELAY_def DELAY_RESPONSE_TIME_def
  SYNC_START_DELAY_def

section \<open>Reporting and sending\<close>

definition error_msg_hex :: "byte list \<Rightarrow> proc \<Rightarrow> proc" where
  "error_msg_hex buf w = emit (Stderr (''ERROR MSG '' @ concat (map hex_byte (take 10 buf)))) w"

definition report_error :: "string \<Rightarrow> proc \<Rightarrow> proc" where
  "report_error msg w = emit (Stderr (''ERROR '' @ msg)) w"

definition send_message :: "env \<Rightarrow> byte \<Rightarrow> byte list \<Rightarrow> sockaddr_in \<Rightarrow> proc \<Rightarrow> proc" where
  "send_message E ty msg dest w =
     (let sent = sendto_result E (sendto_calls w);
          w = emit (Sendto msg dest) (w\<lparr>sendto_calls := Suc (sendto_calls w)\<rparr>)
      in if sent < 0
         then report_error (''Failed to send a message of type '' @ show_nat (unat ty)) w
         else if nat sent \<noteq> length msg
         then report_error (''Incomplete message of type '' @ show_nat (unat ty) @ '' sent'') w
         else w)"

section \<open>Building messages\<close>

definition create_simple_message :: "byte \<Rightarrow> byte list" where
  "create_simple_message ty = [ty]"

definition create_sync_level_and_timestamp_message ::
  "endian \<Rightarrow> byte \<Rightarrow> byte \<Rightarrow> 64 word \<Rightarrow> byte list" where
  "create_sync_level_and_timestamp_message e ty level ts =
     [ty, level] @ mem_bytes e 8 (unat (htonll e ts))"

definition create_hello_message :: "byte list" where
  "create_hello_message = create_simple_message HELLO"

text \<open>The length of the result is the returned size: an empty message stands for the result 0.\<close>

definition create_hello_reply_message ::
  "env \<Rightarrow> nat \<Rightarrow> sockaddr_in list \<Rightarrow> sockaddr_in \<Rightarrow> proc \<Rightarrow> (byte list \<times> proc) res" where
  "create_hello_reply_message E pl src dest w =
     bindR (peer_list_count_excl (store w) pl src dest) (\<lambda>count.
       let e = byte_order E;
           network_count = mem_bytes e 2 (unat (htons e count));
           peers_list_size = unat count * 7
       in if BUFFER_SIZE \<le> 3 + peers_list_size then Inr ([], w)
          else bindR (peer_list_write_to_buf_excl e (store w) pl peers_list_size src dest) (\<lambda>(bs, ok).
            if \<not> ok then Inr ([], report_error ''Incorrect HELLO_REPLY message created'' w)
            else Inr ([HELLO_REPLY] @ network_count @ bs, w)))"

definition create_connect_message :: "byte list" where
  "create_connect_message = create_simple_message CONNECT"

definition create_ack_connect_message :: "byte list" where
  "create_ack_connect_message = create_simple_message ACK_CONNECT"

definition create_sync_start_message :: "endian \<Rightarrow> byte \<Rightarrow> 64 word \<Rightarrow> byte list" where
  "create_sync_start_message e level ts = create_sync_level_and_timestamp_message e SYNC_START level ts"

definition create_delay_request_message :: "byte list" where
  "create_delay_request_message = create_simple_message DELAY_REQUEST"

definition create_delay_response_message :: "endian \<Rightarrow> byte \<Rightarrow> 64 word \<Rightarrow> byte list" where
  "create_delay_response_message e level ts =
     create_sync_level_and_timestamp_message e DELAY_RESPONSE level ts"

definition create_time_message :: "endian \<Rightarrow> byte \<Rightarrow> 64 word \<Rightarrow> byte list" where
  "create_time_message e level ts = create_sync_level_and_timestamp_message e TIME level ts"

lemmas create_defs [wire_simps] =
  create_simple_message_def create_hello_message_def create_connect_message_def
  create_ack_connect_message_def create_sync_start_message_def create_delay_request_message_def
  create_delay_response_message_def create_time_message_def

section \<open>Reading messages\<close>

text \<open>\<open>memcpy(dst, buf + i, k)\<close>: reading past the received bytes is \<open>Undefined\<close>.\<close>

definition read_bytes :: "byte list \<Rightarrow> nat \<Rightarrow> nat \<Rightarrow> byte list res" where
  "read_bytes buf i k = (if i + k \<le> length buf then Inr (take k (drop i buf)) else Inl Undefined)"

definition read_count :: "endian \<Rightarrow> byte list \<Rightarrow> nat \<Rightarrow> 16 word res" where
  "read_count e buf i =
     bindR (read_bytes buf i 2) (\<lambda>bs. Inr (ntohs e (word_of_nat (mem_value e bs))))"

definition read_timestamp :: "endian \<Rightarrow> byte list \<Rightarrow> nat \<Rightarrow> 64 word res" where
  "read_timestamp e buf i =
     bindR (read_bytes buf i 8) (\<lambda>bs. Inr (ntohll e (word_of_nat (mem_value e bs))))"

definition read_peer :: "endian \<Rightarrow> byte list \<Rightarrow> nat \<Rightarrow> sockaddr_in res" where
  "read_peer e buf i =
     bindR (read_bytes buf i 4) (\<lambda>a.
     bindR (read_bytes buf (i + 4) 2) (\<lambda>p.
       Inr (Sockaddr (word_of_nat (mem_value e a)) (word_of_nat (mem_value e p)))))"

lemmas read_defs = read_bytes_def read_count_def read_timestamp_def read_peer_def

section \<open>Joining the network\<close>

definition handle_hello :: "env \<Rightarrow> byte list \<Rightarrow> sockaddr_in \<Rightarrow> proc \<Rightarrow> proc res" where
  "handle_hello E buf sender w =
     (if length buf \<noteq> 1 then Inr (error_msg_hex buf w)
      else if address_in_array sender (my_addresses (nd w)) then Inr (error_msg_hex buf w)
      else bindR (create_hello_reply_message E (peer_list (nd w)) (my_addresses (nd w)) sender w)
        (\<lambda>(msg, w).
          if 0 < length msg
          then bindR (peer_list_add (store w) (peer_list (nd w)) sender) (\<lambda>(r, st).
            let w = w\<lparr>store := st\<rparr> in
            if 0 \<le> r then Inr (send_message E HELLO_REPLY msg sender w)
            else Inr (error_msg_hex buf w))
          else Inr (error_msg_hex buf w)))"

text \<open>The loop of \<open>check_hello_reply\<close> over the announced records; \<open>pos\<close> is \<open>buf - msg_buf\<close>.\<close>

fun check_peers_loop ::
  "endian \<Rightarrow> sockaddr_in list \<Rightarrow> sockaddr_in \<Rightarrow> byte list \<Rightarrow> nat \<Rightarrow> nat \<Rightarrow> bool res" where
  "check_peers_loop e my sender buf pos 0 = Inr True"
| "check_peers_loop e my sender buf pos (Suc n) =
     bindR (nth_chk buf pos) (\<lambda>address_length.
       if address_length \<noteq> 4 then Inr False
       else bindR (read_peer e buf (pos + 1)) (\<lambda>peer.
         if sin_port peer = 0 then Inr False
         else if equal_addr peer sender \<or> address_in_array peer my then Inr False
         else check_peers_loop e my sender buf (pos + 7) n))"

definition check_hello_reply :: "env \<Rightarrow> byte list \<Rightarrow> sockaddr_in \<Rightarrow> proc \<Rightarrow> bool res" where
  "check_hello_reply E buf sender w =
     (if \<not> waiting_for_hello_reply (nd w) \<or> \<not> equal_addr sender (known_peer (nd w)) then Inr False
      else if address_in_array sender (my_addresses (nd w)) then Inr False
      else if length buf < 3 then Inr False
      else bindR (read_count (byte_order E) buf 1) (\<lambda>count.
        if length buf \<noteq> 3 + unat count * 7 then Inr False
        else check_peers_loop (byte_order E) (my_addresses (nd w)) sender buf 3 (unat count)))"

text \<open>The second loop over the records, in \<open>handle_hello_reply\<close>.\<close>

fun connect_peers_loop :: "env \<Rightarrow> byte list \<Rightarrow> nat \<Rightarrow> nat \<Rightarrow> proc \<Rightarrow> proc res" where
  "connect_peers_loop E buf pos 0 w = Inr w"
| "connect_peers_loop E buf pos (Suc n) w =
     bindR (read_peer (byte_order E) buf (pos + 1)) (\<lambda>peer.
     bindR (peer_list_add (store w) (waiting_for_ack_connect (nd w)) peer) (\<lambda>(_, st).
       connect_peers_loop E buf (pos + 7) n
         (send_message E CONNECT create_connect_message peer (w\<lparr>store := st\<rparr>))))"

definition handle_hello_reply :: "env \<Rightarrow> byte list \<Rightarrow> sockaddr_in \<Rightarrow> proc \<Rightarrow> proc res" where
  "handle_hello_reply E buf sender w =
     bindR (check_hello_reply E buf sender w) (\<lambda>ok.
       if \<not> ok then Inr (error_msg_hex buf w)
       else
         let w = upd_nd (\<lambda>n. n\<lparr>waiting_for_hello_reply := False\<rparr>) w in
         bindR (read_count (byte_order E) buf 1) (\<lambda>count.
         bindR (connect_peers_loop E buf 3 (unat count) w) (\<lambda>w.
         bindR (peer_list_add (store w) (peer_list (nd w)) sender) (\<lambda>(_, st).
           Inr (w\<lparr>store := st\<rparr>)))))"

definition handle_connect :: "env \<Rightarrow> byte list \<Rightarrow> sockaddr_in \<Rightarrow> proc \<Rightarrow> proc res" where
  "handle_connect E buf sender w =
     (if length buf \<noteq> 1 then Inr (error_msg_hex buf w)
      else
        bindR (peer_list_full (store w) (peer_list (nd w))) (\<lambda>full.
        bindR (peer_list_contains (store w) (peer_list (nd w)) sender) (\<lambda>known.
          if full \<and> \<not> known then Inr (error_msg_hex buf w)
          else if address_in_array sender (my_addresses (nd w)) then Inr (error_msg_hex buf w)
          else
            let w = send_message E ACK_CONNECT create_ack_connect_message sender w in
            bindR (peer_list_add (store w) (peer_list (nd w)) sender) (\<lambda>(_, st).
              Inr (w\<lparr>store := st\<rparr>)))))"

definition handle_ack_connect :: "env \<Rightarrow> byte list \<Rightarrow> sockaddr_in \<Rightarrow> proc \<Rightarrow> proc res" where
  "handle_ack_connect E buf sender w =
     (if length buf \<noteq> 1 then Inr (error_msg_hex buf w)
      else
        bindR (peer_list_contains (store w) (waiting_for_ack_connect (nd w)) sender) (\<lambda>expected.
        if \<not> expected then Inr (error_msg_hex buf w)
        else
          bindR (peer_list_full (store w) (peer_list (nd w))) (\<lambda>full.
          bindR (peer_list_contains (store w) (peer_list (nd w)) sender) (\<lambda>known.
            if full \<and> \<not> known then Inr (error_msg_hex buf w)
            else if address_in_array sender (my_addresses (nd w)) then Inr (error_msg_hex buf w)
            else
              bindR (peer_list_remove (store w) (waiting_for_ack_connect (nd w)) sender) (\<lambda>st.
              bindR (peer_list_add st (peer_list (nd w)) sender) (\<lambda>(_, st).
                Inr (w\<lparr>store := st\<rparr>)))))))"

section \<open>Synchronizing\<close>

definition check_sync_start :: "byte list \<Rightarrow> sockaddr_in \<Rightarrow> proc \<Rightarrow> bool res" where
  "check_sync_start buf sender w =
     (if length buf \<noteq> 10 then Inr False
      else bindR (nth_chk buf 1) (\<lambda>sender_sync_level.
        bindR (peer_list_contains (store w) (peer_list (nd w)) sender) (\<lambda>sender_is_known.
          Inr (\<not> (254 \<le> unat sender_sync_level \<or> \<not> sender_is_known)))))"

text \<open>The part of \<open>handle_sync_start\<close> that starts an exchange with the sender.\<close>

definition start_synchronizing ::
  "env \<Rightarrow> byte \<Rightarrow> 64 word \<Rightarrow> 64 word \<Rightarrow> sockaddr_in \<Rightarrow> proc \<Rightarrow> proc res" where
  "start_synchronizing E sender_sync_level sender_timestamp receive_time sender w =
     (let w = upd_nd (\<lambda>n. n\<lparr>synchronizing := True, synchronizing_level := sender_sync_level,
                           T1 := sender_timestamp, T2 := receive_time, peer_to_sync := sender\<rparr>) w
      in bindR (get_natural_clock E w) (\<lambda>(t3, w).
           let w = upd_nd (\<lambda>n. n\<lparr>T3 := t3\<rparr>) w;
               w = send_message E DELAY_REQUEST create_delay_request_message sender w
           in bindR (set_event_in_x_seconds E DELAY_RESPONSE_TIME w) (\<lambda>(ts, w).
                Inr (upd_nd (\<lambda>n. n\<lparr>waiting_for_delay_response := ts\<rparr>) w))))"

definition handle_sync_start :: "env \<Rightarrow> byte list \<Rightarrow> sockaddr_in \<Rightarrow> proc \<Rightarrow> proc res" where
  "handle_sync_start E buf sender w =
     bindR (get_natural_clock E w) (\<lambda>(receive_time, w).
     bindR (check_sync_start buf sender w) (\<lambda>ok.
       if \<not> ok then Inr (error_msg_hex buf w)
       else if synchronizing (nd w) then Inr w
       else
         bindR (nth_chk buf 1) (\<lambda>sender_sync_level.
         bindR (read_timestamp (byte_order E) buf 2) (\<lambda>sender_timestamp.
           if sync_level (nd w) < CLOCK_UNSYNCHRONIZED \<and> equal_addr sender (synchronized_peer (nd w))
           then
             if sync_level (nd w) \<le> sender_sync_level
             then Inr (upd_nd (\<lambda>n. n\<lparr>sync_level := CLOCK_UNSYNCHRONIZED, offset_ms := 0\<rparr>) w)
             else bindR (set_event_in_x_seconds E SYNCHRONIZATION_CHECK_DELAY w) (\<lambda>(ts, w).
               start_synchronizing E sender_sync_level sender_timestamp receive_time sender
                 (upd_nd (\<lambda>n. n\<lparr>next_sync_check := ts\<rparr>) w))
           else
             if unat (sync_level (nd w)) \<le> unat sender_sync_level + 1 then Inr w
             else start_synchronizing E sender_sync_level sender_timestamp receive_time sender w))))"

definition handle_delay_request :: "env \<Rightarrow> byte list \<Rightarrow> sockaddr_in \<Rightarrow> proc \<Rightarrow> proc res" where
  "handle_delay_request E buf sender w =
     bindR (get_clock E w) (\<lambda>(synchronized_receive_time, w).
     bindR (get_natural_clock E w) (\<lambda>(receive_time, w).
       if length buf \<noteq> 1 then Inr (error_msg_hex buf w)
       else bindR (peer_list_contains (store w) (asked_to_synchronize (nd w)) sender) (\<lambda>asked.
         if \<not> asked \<or> last_sync_start (nd w) + word_of_int DELAY_RESPONSE_TIME < receive_time
         then Inr (error_msg_hex buf w)
         else Inr (send_message E DELAY_RESPONSE
                     (create_delay_response_message (byte_order E) (sync_level (nd w))
                       synchronized_receive_time) sender w))))"

text \<open>The end of \<open>handle_delay_response\<close>, after the four times are known.\<close>

definition finish_synchronizing :: "env \<Rightarrow> byte \<Rightarrow> sockaddr_in \<Rightarrow> proc \<Rightarrow> proc res" where
  "finish_synchronizing E sender_sync_level sender w =
     (let w = upd_nd (\<lambda>n. n\<lparr>sync_level := sender_sync_level + 1\<rparr>) w in
      bindR (update_offset (nd w)) (\<lambda>n.
      let w = w\<lparr>nd := n\<lparr>synchronized_peer := sender\<rparr>\<rparr> in
      bindR (set_event_in_x_seconds E SYNCHRONIZATION_CHECK_DELAY w) (\<lambda>(ts, w).
        Inr (upd_nd (\<lambda>n. n\<lparr>next_sync_check := ts, synchronizing := False\<rparr>) w))))"

definition handle_delay_response :: "env \<Rightarrow> byte list \<Rightarrow> sockaddr_in \<Rightarrow> proc \<Rightarrow> proc res" where
  "handle_delay_response E buf sender w =
     (if length buf \<noteq> 10 then Inr (error_msg_hex buf w)
      else if \<not> synchronizing (nd w) \<or> \<not> equal_addr sender (peer_to_sync (nd w))
      then Inr (error_msg_hex buf w)
      else
        bindR (nth_chk buf 1) (\<lambda>sender_sync_level.
        bindR (read_timestamp (byte_order E) buf 2) (\<lambda>sender_timestamp.
          if sender_sync_level \<noteq> synchronizing_level (nd w) \<or> sender_timestamp < T1 (nd w)
          then Inr (error_msg_hex buf w)
          else
            let w = upd_nd (\<lambda>n. n\<lparr>T4 := sender_timestamp\<rparr>) w in
            bindR (if 254 \<le> unat (sync_level (nd w)) \<and> unat sender_sync_level + 1 < 254
                   then bindR (set_event_in_x_seconds E 0 w) (\<lambda>(ts, w).
                          Inr (upd_nd (\<lambda>n. n\<lparr>next_sync_start := ts\<rparr>) w))
                   else Inr w)
              (finish_synchronizing E sender_sync_level sender))))"

definition handle_leader :: "env \<Rightarrow> byte list \<Rightarrow> sockaddr_in \<Rightarrow> proc \<Rightarrow> proc res" where
  "handle_leader E buf sender w =
     (if length buf \<noteq> 2 then Inr (error_msg_hex buf w)
      else bindR (nth_chk buf 1) (\<lambda>msg_sync.
        if msg_sync = CLOCK_LEADER
        then
          let w = upd_nd (\<lambda>n. n\<lparr>sync_level := CLOCK_LEADER\<rparr>) w in
          bindR (set_event_in_x_seconds E LEADER_SYNCHRONIZATION_DELAY w) (\<lambda>(ts, w).
            Inr (upd_nd (\<lambda>n. n\<lparr>next_sync_start := ts\<rparr>) w))
        else if msg_sync = CLOCK_UNSYNCHRONIZED
        then
          if sync_level (nd w) \<noteq> CLOCK_LEADER then Inr (error_msg_hex buf w)
          else Inr (upd_nd (\<lambda>n. n\<lparr>sync_level := CLOCK_UNSYNCHRONIZED\<rparr>) w)
        else Inr (error_msg_hex buf w)))"

definition handle_get_time :: "env \<Rightarrow> byte list \<Rightarrow> sockaddr_in \<Rightarrow> proc \<Rightarrow> proc res" where
  "handle_get_time E buf sender w =
     (if length buf \<noteq> 1 then Inr (error_msg_hex buf w)
      else bindR (get_clock E w) (\<lambda>(now, w).
        Inr (send_message E TIME (create_time_message (byte_order E) (sync_level (nd w)) now) sender w)))"

section \<open>Dispatch and timers\<close>

definition handle_message :: "env \<Rightarrow> byte list \<Rightarrow> sockaddr_in \<Rightarrow> proc \<Rightarrow> proc res" where
  "handle_message E buf sender w =
     bindR (nth_chk buf 0) (\<lambda>message_type.
       if message_type = HELLO then handle_hello E buf sender w
       else if message_type = HELLO_REPLY then handle_hello_reply E buf sender w
       else if message_type = CONNECT then handle_connect E buf sender w
       else if message_type = ACK_CONNECT then handle_ack_connect E buf sender w
       else if message_type = SYNC_START then handle_sync_start E buf sender w
       else if message_type = DELAY_REQUEST then handle_delay_request E buf sender w
       else if message_type = DELAY_RESPONSE then handle_delay_response E buf sender w
       else if message_type = LEADER then handle_leader E buf sender w
       else if message_type = GET_TIME then handle_get_time E buf sender w
       else Inr (error_msg_hex buf w))"

definition send_hello_message :: "env \<Rightarrow> proc \<Rightarrow> proc" where
  "send_hello_message E w = send_message E HELLO create_hello_message (known_peer (nd w)) w"

text \<open>
  The \<open>do ... while\<close> loop that sends SYNC_START to every peer. The fuel is the number of peers,
  which is enough: the iterator reaches the end of the set after that many steps
  (lemma \<open>sync_start_loop_all\<close> of the theory \<open>Node_Invariants\<close>).
\<close>

fun sync_start_loop :: "env \<Rightarrow> nat \<Rightarrow> proc \<Rightarrow> proc res" where
  "sync_start_loop E 0 w = Inl Undefined"
| "sync_start_loop E (Suc fuel) w =
     bindR (peer_list_iterator_get_peer (store w) (peer_list (nd w))) (\<lambda>peer_addr.
     bindR (get_clock E w) (\<lambda>(now, w).
       let w = send_message E SYNC_START
                 (create_sync_start_message (byte_order E) (sync_level (nd w)) now) peer_addr w
       in bindR (peer_list_iterator_next (store w) (peer_list (nd w))) (\<lambda>(more, st).
            let w = w\<lparr>store := st\<rparr> in
            if more then sync_start_loop E fuel w else Inr w)))"

definition check_sync_timeout :: "env \<Rightarrow> proc \<Rightarrow> proc res" where
  "check_sync_timeout E w =
     (if CLOCK_LEADER < sync_level (nd w) \<and> sync_level (nd w) < CLOCK_UNSYNCHRONIZED
      then bindR (now_is_after E (next_sync_check (nd w)) w) (\<lambda>(late, w).
        if late then Inr (upd_nd (\<lambda>n. n\<lparr>sync_level := CLOCK_UNSYNCHRONIZED, offset_ms := 0\<rparr>) w)
        else Inr w)
      else Inr w)"

text \<open>What \<open>check_and_handle_timers\<close> does once \<open>next_sync_start\<close> has passed: its loop and what follows.\<close>

definition sync_start_peers :: "env \<Rightarrow> proc \<Rightarrow> proc res" where
  "sync_start_peers E w =
     bindR (peer_list_iterator_begin (store w) (peer_list (nd w))) (\<lambda>(any, st).
       let w = w\<lparr>store := st\<rparr> in
       if any
       then bindR (sync_start_loop E (length (peer_lists (store w) ! peer_list (nd w))) w) (\<lambda>w.
         bindR (peer_list_cpy (store w) (peer_list (nd w)) (asked_to_synchronize (nd w))) (\<lambda>st.
           Inr (w\<lparr>store := st\<rparr>)))
       else Inr w)"

definition note_sync_start :: "env \<Rightarrow> proc \<Rightarrow> proc res" where
  "note_sync_start E w =
     bindR (get_natural_clock E w) (\<lambda>(now, w).
       let w = upd_nd (\<lambda>n. n\<lparr>last_sync_start := now\<rparr>) w in
       bindR (set_event_in_x_seconds E SYNC_START_DELAY w) (\<lambda>(ts, w).
         Inr (upd_nd (\<lambda>n. n\<lparr>next_sync_start := ts\<rparr>) w)))"

definition send_sync_starts :: "env \<Rightarrow> proc \<Rightarrow> proc res" where
  "send_sync_starts E w =
     (if unat (sync_level (nd w)) < 254
      then bindR (now_is_after E (next_sync_start (nd w)) w) (\<lambda>(due, w).
        if due then bindR (sync_start_peers E w) (note_sync_start E) else Inr w)
      else Inr w)"

definition check_and_handle_timers :: "env \<Rightarrow> proc \<Rightarrow> proc res" where
  "check_and_handle_timers E w = bindR (check_sync_timeout E w) (send_sync_starts E)"

lemmas handler_defs [node_defs] =
  handle_hello_def handle_hello_reply_def check_hello_reply_def handle_connect_def
  handle_ack_connect_def check_sync_start_def start_synchronizing_def handle_sync_start_def
  handle_delay_request_def finish_synchronizing_def handle_delay_response_def handle_leader_def handle_get_time_def

end
