(* ===== verification/Node_Invariants.thy ===== *)
theory Node_Invariants
  imports Node_Messages
begin

text \<open>
  The invariant of a node and its preservation by every handler of \<open>Node_Messages\<close> and by the
  timers. \<open>safeR\<close> states at once that a handler has no undefined behaviour (no read past the
  received bytes, no unknown list, no signed overflow) and that it keeps the invariant.
\<close>

section \<open>The invariant\<close>

definition own_free :: "sockaddr_in list \<Rightarrow> peer_store \<Rightarrow> nat \<Rightarrow> bool" where
  "own_free my st i \<longleftrightarrow> (\<forall>p \<in> peers_of st i. p \<notin> set my)"

text \<open>
  The three lists exist and are different, none holds an own address, the offset is half of an
  \<open>int64_t\<close>, and during an exchange the recorded level is one that others may synchronize to and
  the recorded times are below \<open>2^61\<close> ms.
\<close>

definition node_ok :: "NodeData \<Rightarrow> peer_store \<Rightarrow> bool" where
  "node_ok n st \<longleftrightarrow>
     wf_store st \<and>
     peer_list n < num_lists st \<and> waiting_for_ack_connect n < num_lists st \<and>
     asked_to_synchronize n < num_lists st \<and>
     distinct [peer_list n, waiting_for_ack_connect n, asked_to_synchronize n] \<and>
     own_free (my_addresses n) st (peer_list n) \<and>
     own_free (my_addresses n) st (waiting_for_ack_connect n) \<and>
     own_free (my_addresses n) st (asked_to_synchronize n) \<and>
     - (2 ^ 62) \<le> offset_ms n \<and> offset_ms n < 2 ^ 62 \<and>
     (synchronizing n \<longrightarrow> unat (synchronizing_level n) < 254 \<and>
        unat (T1 n) < 2 ^ 61 \<and> unat (T2 n) < 2 ^ 61 \<and> unat (T3 n) < 2 ^ 61)"

text \<open>
  What the code relies on of \<open>CLOCK_MONOTONIC\<close>: it does not run backwards from the start of the
  process, and the process runs for less than \<open>2^61\<close> ms.
\<close>

definition sane_clock :: "env \<Rightarrow> timespec \<Rightarrow> bool" where
  "sane_clock E s \<longleftrightarrow>
     (\<forall>k t. clock_gettime E k = Some t \<longrightarrow> 0 \<le> elapsed_ms s t \<and> elapsed_ms s t < 2 ^ 61)"

definition proc_ok :: "env \<Rightarrow> proc \<Rightarrow> bool" where
  "proc_ok E w \<longleftrightarrow> node_ok (nd w) (store w) \<and> sane_clock E (start_time w)"

text \<open>
  The only messages that a node reads a timestamp from are SYNC_START and DELAY_RESPONSE with ten bytes. In
  a tame datagram that is one of them, the timestamp is below \<open>2^61\<close> ms; any other datagram is tame.
\<close>

definition timestamp_ok :: "env \<Rightarrow> byte list \<Rightarrow> bool" where
  "timestamp_ok E buf \<longleftrightarrow> (case read_timestamp (byte_order E) buf 2 of Inl e \<Rightarrow> True | Inr ts \<Rightarrow> unat ts < 2 ^ 61)"

definition tame :: "env \<Rightarrow> byte list \<Rightarrow> bool" where
  "tame E buf \<longleftrightarrow> (length buf = 10 \<and> hd buf \<in> {SYNC_START, DELAY_RESPONSE} \<longrightarrow> timestamp_ok E buf)"

lemma proc_ok_emit [simp]: "proc_ok E (emit x w) = proc_ok E w"
  by (simp add: proc_ok_def)

lemma send_message_simps [simp]:
  "nd (send_message E ty msg dest w) = nd w"
  "store (send_message E ty msg dest w) = store w"
  "start_time (send_message E ty msg dest w) = start_time w"
  "clock_reads (send_message E ty msg dest w) = clock_reads w"
  by (simp_all add: send_message_def report_error_def Let_def)

lemma error_msg_hex_simps [simp]:
  "nd (error_msg_hex buf w) = nd w" "store (error_msg_hex buf w) = store w"
  "start_time (error_msg_hex buf w) = start_time w" "proc_ok E (error_msg_hex buf w) = proc_ok E w"
  by (simp_all add: error_msg_hex_def)

lemma proc_ok_send [simp]: "proc_ok E (send_message E' ty msg dest w) = proc_ok E w"
  by (simp add: proc_ok_def)

section \<open>Clock reads\<close>

lemma safe_read_clock:
  "(\<And>t. clock_gettime E (clock_reads w) = Some t \<Longrightarrow> P (t, w\<lparr>clock_reads := Suc (clock_reads w)\<rparr>)) \<Longrightarrow>
   safeR P (read_clock E w)"
  by (simp add: read_clock_def split: option.split)

text \<open>A clock read changes the number of clock reads only; a time is below \<open>2^61\<close>.\<close>

lemma safe_natural_clock:
  assumes "sane_clock E (start_time w)"
    and "\<And>t w'. unat t < 2 ^ 61 \<Longrightarrow> w' = w\<lparr>clock_reads := Suc (clock_reads w)\<rparr> \<Longrightarrow> P (t, w')"
  shows "safeR P (get_natural_clock E w)"
proof -
  have "unat (word_of_int (elapsed_ms (start_time w) t) :: 64 word) < 2 ^ 61"
    if "clock_gettime E (clock_reads w) = Some t" for t
  proof -
    have "0 \<le> elapsed_ms (start_time w) t" "elapsed_ms (start_time w) t < 2 ^ 61"
      using assms(1) that by (auto simp: sane_clock_def)
    then show ?thesis by (simp add: unat_eq_nat_uint uint_word_of_int nat_less_iff)
  qed
  then show ?thesis
    by (auto simp: get_natural_clock_def intro!: safe_read_clock assms(2))
qed

lemma uint_less_of_unat: "unat t < n \<Longrightarrow> uint t < int n"
  by (metis of_nat_less_iff uint_nat)

lemma sint_small:
  assumes "unat (t :: 64 word) < 2 ^ 63"
  shows "sint t = uint t"
proof -
  have "- (2 ^ 63) \<le> (0 :: int)" by simp
  also have "0 \<le> uint t" by simp
  finally have "signed_take_bit 63 (uint t) = uint t"
    using uint_less_of_unat [OF assms] by (intro signed_take_bit_int_eq_self) simp_all
  then show ?thesis by (simp add: sint_uint)
qed

lemma safe_get_clock:
  assumes "proc_ok E w"
    and "\<And>t w'. w' = w\<lparr>clock_reads := Suc (clock_reads w)\<rparr> \<Longrightarrow> P (t, w')"
  shows "safeR P (get_clock E w)"
proof -
  have off: "- (2 ^ 62) \<le> offset_ms (nd w)" "offset_ms (nd w) < 2 ^ 62"
    and sane: "sane_clock E (start_time w)"
    using assms(1) by (auto simp: proc_ok_def node_ok_def)
  show ?thesis
    unfolding get_clock_def safeR_bind
  proof (rule safe_natural_clock [OF sane])
    fix t :: "64 word" and w'
    assume t: "unat t < 2 ^ 61" and w': "w' = w\<lparr>clock_reads := Suc (clock_reads w)\<rparr>"
    have "sint t = uint t" "uint t < 2 ^ 61" "0 \<le> uint t"
      using t uint_less_of_unat [of t "2 ^ 61"] by (simp_all add: sint_small)
    then show "safeR P (case (t, w') of (n, w) \<Rightarrow>
       let natural_time = sint n in
       if sync_level (nd w) = CLOCK_UNSYNCHRONIZED then Inr (word_of_int natural_time, w)
       else if offset_ms (nd w) \<le> natural_time
       then bindR (int64 (natural_time - offset_ms (nd w))) (\<lambda>d. Inr (word_of_int d, w))
       else Inr (0, w))"
      using off assms(2) [OF w'] w' by (simp add: Let_def)
  qed
qed

lemma safe_set_event:
  "(\<And>t w'. w' = w\<lparr>clock_reads := Suc (clock_reads w)\<rparr> \<Longrightarrow> P (t, w')) \<Longrightarrow>
   safeR P (set_event_in_x_seconds E x w)"
  by (simp add: set_event_in_x_seconds_def) (rule safe_read_clock, simp)

lemma safe_now_is_after:
  "(\<And>b w'. w' = w\<lparr>clock_reads := Suc (clock_reads w)\<rparr> \<Longrightarrow> P (b, w')) \<Longrightarrow>
   safeR P (now_is_after E ts w)"
  by (simp add: now_is_after_def) (rule safe_read_clock, simp)

section \<open>Each handler keeps the invariant\<close>

lemma proc_okI: "node_ok (nd w) (store w) \<Longrightarrow> sane_clock E (start_time w) \<Longrightarrow> proc_ok E w"
  by (simp add: proc_ok_def)

lemma proc_okD:
  assumes "proc_ok E w"
  shows "wf_store (store w)" "sane_clock E (start_time w)"
    "peer_list (nd w) < num_lists (store w)" "waiting_for_ack_connect (nd w) < num_lists (store w)"
    "asked_to_synchronize (nd w) < num_lists (store w)"
  using assms by (auto simp: proc_ok_def node_ok_def)

text \<open>Adding a foreign address to any of the three lists keeps the invariant.\<close>

lemma node_ok_add:
  assumes "node_ok n st" and "i < num_lists st" and "p \<notin> set (my_addresses n)"
  shows "safeR (\<lambda>(r, st'). node_ok n st') (peer_list_add st i p)"
proof -
  have wf: "wf_store st" using assms(1) by (simp add: node_ok_def)
  obtain r st' where st': "peer_list_add st i p = Inr (r, st')" "wf_store st'" "num_lists st' = num_lists st"
    using peers.add_law [OF wf assms(2), of p] by blast
  have keep: "own_free (my_addresses n) st' j" if "own_free (my_addresses n) st j" for j
    using peers.add_keeps [OF wf assms(2) st'(1), where P = "\<lambda>q. q \<notin> set (my_addresses n)"] that assms(3)
    by (auto simp: own_free_def)
  then show ?thesis
    using assms(1) st' by (auto simp: node_ok_def)
qed

lemma safe_add:
  assumes "proc_ok E w" and "i < num_lists (store w)" and "p \<notin> set (my_addresses (nd w))"
    and "\<And>r st'. node_ok (nd w) st' \<Longrightarrow> P (r, st')"
  shows "safeR P (peer_list_add (store w) i p)"
proof (rule safeR_mono)
  show "safeR (\<lambda>(r, st'). node_ok (nd w) st') (peer_list_add (store w) i p)"
    using assms(1-3) by (intro node_ok_add) (simp_all add: proc_ok_def)
  show "P x" if "case x of (r, st') \<Rightarrow> node_ok (nd w) st'" for x
    using that assms(4) by (cases x) simp
qed

lemma safe_handle_hello:
  assumes ok: "proc_ok E w"
  shows "safeR (proc_ok E) (handle_hello E buf sender w)"
proof -
  have "\<exists>c. peer_list_count_excl (store w) (peer_list (nd w)) (my_addresses (nd w)) sender = Inr c"
    using count_excl_unat proc_okD [OF ok] by blast
  then obtain c where c: "peer_list_count_excl (store w) (peer_list (nd w)) (my_addresses (nd w)) sender = Inr c"
    by blast
  have wr: "\<exists>bs b. peer_list_write_to_buf_excl (byte_order E) (store w) (peer_list (nd w)) sz
      (my_addresses (nd w)) sender = Inr (bs, b)" for sz
    using proc_okD(3) [OF ok]
    by (cases "write_excl_loop (byte_order E) (peer_lists (store w) ! peer_list (nd w)) sz
          (my_addresses (nd w)) sender")
      (simp add: peer_list_write_to_buf_excl_def num_lists_def)
  obtain bs b where bs: "peer_list_write_to_buf_excl (byte_order E) (store w) (peer_list (nd w)) (unat c * 7)
      (my_addresses (nd w)) sender = Inr (bs, b)"
    using wr by blast
  show ?thesis
    using ok proc_okD [OF ok]
    by (auto simp: handle_hello_def create_hello_reply_message_def c bs Let_def report_error_def
        proc_ok_def intro!: safe_add [OF ok])
qed

text \<open>Reading a record announced by the length check stays inside the message.\<close>

lemma read_bytes_ok [simp]: "i + k \<le> length buf \<Longrightarrow> read_bytes buf i k = Inr (take k (drop i buf))"
  by (simp add: read_bytes_def)

lemma read_peer_ok: "i + 6 \<le> length buf \<Longrightarrow> \<exists>p. read_peer e buf i = Inr p"
  by (simp add: read_peer_def)

lemma check_peers_loop_ok:
  "pos + 7 * n \<le> length buf \<Longrightarrow> \<exists>b. check_peers_loop e my sender buf pos n = Inr b"
proof (induction n arbitrary: pos)
  case 0
  show ?case by (simp only: check_peers_loop.simps) blast
next
  case (Suc n)
  then obtain p where "read_peer e buf (pos + 1) = Inr p"
    using read_peer_ok [of "pos + 1" buf e] by auto
  with Suc show ?case by auto
qed

lemma check_hello_reply_ok: "\<exists>b. check_hello_reply E buf sender w = Inr b"
proof (cases "length buf < 3")
  case True
  then show ?thesis by (auto simp: check_hello_reply_def)
next
  case False
  then obtain count where count: "read_count (byte_order E) buf 1 = Inr count"
    by (simp add: read_count_def)
  show ?thesis
    using False check_peers_loop_ok [of 3 "unat count" buf "byte_order E" "my_addresses (nd w)" sender]
    by (auto simp: check_hello_reply_def count [simplified])
qed

text \<open>The peers an accepted message announces are foreign.\<close>

lemma check_peers_loop_foreign:
  "check_peers_loop e my sender buf pos (Suc n) = Inr True \<Longrightarrow>
   \<exists>p. read_peer e buf (pos + 1) = Inr p \<and> p \<notin> set my \<and> check_peers_loop e my sender buf (pos + 7) n = Inr True"
  by (auto simp: bindR_eq_Inr split: if_splits)

lemma safe_connect_peers_loop:
  "proc_ok E w \<Longrightarrow> check_peers_loop (byte_order E) (my_addresses (nd w)) sender buf pos n = Inr True \<Longrightarrow>
   safeR (\<lambda>w'. proc_ok E w' \<and> nd w' = nd w) (connect_peers_loop E buf pos n w)"
proof (induction n arbitrary: pos w)
  case (Suc n)
  obtain p where p: "read_peer (byte_order E) buf (pos + 1) = Inr p" "p \<notin> set (my_addresses (nd w))"
      "check_peers_loop (byte_order E) (my_addresses (nd w)) sender buf (pos + 7) n = Inr True"
    using check_peers_loop_foreign [OF Suc.prems(2)] by blast
  have "safeR (\<lambda>w'. proc_ok E w' \<and> nd w' = nd w) (connect_peers_loop E buf (pos + 7) n
      (send_message E CONNECT create_connect_message p (w\<lparr>store := st'\<rparr>)))"
    if "node_ok (nd w) st'" for st'
    using Suc.IH [of "send_message E CONNECT create_connect_message p (w\<lparr>store := st'\<rparr>)" "pos + 7"]
      p(3) that proc_okD(2) [OF Suc.prems(1)] by (simp add: proc_ok_def)
  then show ?case
    using Suc.prems(1) p proc_okD(4) [OF Suc.prems(1)]
    by (auto intro!: safe_add [OF Suc.prems(1)])
qed simp

lemma safe_handle_hello_reply:
  assumes ok: "proc_ok E w"
  shows "safeR (proc_ok E) (handle_hello_reply E buf sender w)"
proof (cases "check_hello_reply E buf sender w")
  case (Inl e)
  then show ?thesis using check_hello_reply_ok [of E buf sender w] by simp
next
  case (Inr b)
  show ?thesis
  proof (cases b)
    case True
    let ?w = "upd_nd (\<lambda>n. n\<lparr>waiting_for_hello_reply := False\<rparr>) w"
    obtain count where count: "read_count (byte_order E) buf 1 = Inr count"
      and loop: "check_peers_loop (byte_order E) (my_addresses (nd w)) sender buf 3 (unat count) = Inr True"
      and foreign: "sender \<notin> set (my_addresses (nd w))"
      using Inr True by (auto simp: check_hello_reply_def bindR_eq_Inr split: if_splits)
    have okw: "proc_ok E ?w"
      using ok by (simp add: proc_ok_def node_ok_def)
    have "safeR (\<lambda>w'. proc_ok E w' \<and> nd w' = nd ?w) (connect_peers_loop E buf 3 (unat count) ?w)"
      using okw loop by (intro safe_connect_peers_loop) simp_all
    moreover have "peer_list (nd x) < num_lists (store x)" if "proc_ok E x" for x
      using that by (rule proc_okD(3))
    ultimately have "safeR (\<lambda>w'. safeR (proc_ok E) (bindR (peer_list_add (store w') (peer_list (nd w')) sender)
        (\<lambda>(_, st). Inr (w'\<lparr>store := st\<rparr>)))) (connect_peers_loop E buf 3 (unat count) ?w)"
      using foreign by (elim safeR_mono) (force intro!: safe_add [where E = E] intro: proc_okI dest: proc_okD(2))
    then show ?thesis
      using Inr True count by (simp add: handle_hello_reply_def Let_def)
  next
    case False
    then show ?thesis using Inr ok by (simp add: handle_hello_reply_def)
  qed
qed

lemma safe_handle_connect:
  assumes ok: "proc_ok E w"
  shows "safeR (proc_ok E) (handle_connect E buf sender w)"
  using ok proc_okD [OF ok]
  by (auto simp: handle_connect_def contains_eq full_eq Let_def proc_ok_def intro!: safe_add [OF ok])

lemma node_ok_remove:
  assumes "node_ok n st" and "i < num_lists st"
  shows "safeR (\<lambda>st'. node_ok n st' \<and> num_lists st' = num_lists st) (peer_list_remove st i p)"
proof -
  have wf: "wf_store st" using assms(1) by (simp add: node_ok_def)
  obtain st' where "peer_list_remove st i p = Inr st'" "wf_store st'" "num_lists st' = num_lists st"
      "peers_of st' = (peers_of st)(i := peers_of st i - {p})"
    using peers.remove_law [OF wf assms(2), of p] by blast
  then show ?thesis
    using assms(1) by (auto simp: node_ok_def own_free_def)
qed

lemma safe_handle_ack_connect:
  assumes ok: "proc_ok E w"
  shows "safeR (proc_ok E) (handle_ack_connect E buf sender w)"
proof -
  have "safeR (\<lambda>st. safeR (proc_ok E) (bindR (peer_list_add st (peer_list (nd w)) sender)
      (\<lambda>(_, st). Inr (w\<lparr>store := st\<rparr>))))
      (peer_list_remove (store w) (waiting_for_ack_connect (nd w)) sender)"
    if foreign: "sender \<notin> set (my_addresses (nd w))"
  proof (rule safeR_mono)
    show "safeR (\<lambda>st'. node_ok (nd w) st' \<and> num_lists st' = num_lists (store w))
        (peer_list_remove (store w) (waiting_for_ack_connect (nd w)) sender)"
      using ok proc_okD [OF ok] by (intro node_ok_remove) (simp_all add: proc_ok_def)
    fix st
    assume st: "node_ok (nd w) st \<and> num_lists st = num_lists (store w)"
    then have "safeR (\<lambda>(r, st'). node_ok (nd w) st') (peer_list_add st (peer_list (nd w)) sender)"
      using foreign proc_okD(3) [OF ok] by (intro node_ok_add) auto
    then show "safeR (proc_ok E) (bindR (peer_list_add st (peer_list (nd w)) sender)
        (\<lambda>(_, st). Inr (w\<lparr>store := st\<rparr>)))"
      using proc_okD(2) [OF ok] unfolding safeR_bind by (elim safeR_mono) (auto simp: proc_ok_def)
  qed
  then show ?thesis
    using ok proc_okD [OF ok] by (auto simp: handle_ack_connect_def contains_eq full_eq)
qed

lemma safe_start_synchronizing:
  assumes ok: "proc_ok E w" and "unat level < 254" and "unat ts < 2 ^ 61" and "unat rt < 2 ^ 61"
  shows "safeR (proc_ok E) (start_synchronizing E level ts rt sender w)"
  using assms proc_okD(2) [OF ok]
  by (auto simp: start_synchronizing_def Let_def proc_ok_def node_ok_def
      intro!: safe_natural_clock safe_set_event)

lemma read_timestamp_ok: "i + 8 \<le> length buf \<Longrightarrow> \<exists>ts. read_timestamp e buf i = Inr ts"
  by (simp add: read_timestamp_def)

lemma proc_ok_clock [simp]: "proc_ok E (w\<lparr>clock_reads := k\<rparr>) = proc_ok E w"
  by (simp add: proc_ok_def)

lemma node_ok_timer_fields [simp]:
  "node_ok (n\<lparr>next_sync_check := t\<rparr>) st = node_ok n st"
  "node_ok (n\<lparr>next_sync_start := t\<rparr>) st = node_ok n st"
  "node_ok (n\<lparr>last_sync_start := x\<rparr>) st = node_ok n st"
  "node_ok (n\<lparr>sync_level := l\<rparr>) st = node_ok n st"
  "node_ok (n\<lparr>synchronized_peer := p\<rparr>) st = node_ok n st"
  "node_ok (n\<lparr>T4 := x\<rparr>) st = node_ok n st"
  by (simp_all add: node_ok_def)

lemma check_sync_start_eq:
  assumes "peer_list (nd w) < num_lists (store w)"
  shows "check_sync_start buf sender w =
    Inr (length buf = 10 \<and> unat (buf ! 1) < 254 \<and> sender \<in> peers_of (store w) (peer_list (nd w)))"
  using assms by (auto simp: check_sync_start_def contains_eq)

lemma timestamp_okD: "timestamp_ok E buf \<Longrightarrow> read_timestamp (byte_order E) buf 2 = Inr ts \<Longrightarrow> unat ts < 2 ^ 61"
  by (simp add: timestamp_ok_def)

lemma node_ok_unsync: "node_ok n st \<Longrightarrow> node_ok (n\<lparr>sync_level := l, offset_ms := 0\<rparr>) st"
  by (simp add: node_ok_def)

lemma safe_set_event_nd:
  assumes "proc_ok E w" and "\<And>t. node_ok (f t (nd w)) (store w)"
  shows "safeR (\<lambda>w'. proc_ok E w' \<and> (\<exists>t. nd w' = f t (nd w)))
    (bindR (set_event_in_x_seconds E x w) (\<lambda>(t, w). Inr (upd_nd (f t) w)))"
  using assms by (auto simp: proc_ok_def intro!: safe_set_event)

lemma safe_handle_sync_start:
  assumes ok: "proc_ok E w" and tame: "length buf = 10 \<longrightarrow> timestamp_ok E buf"
  shows "safeR (proc_ok E) (handle_sync_start E buf sender w)"
  unfolding handle_sync_start_def safeR_bind
proof (rule safe_natural_clock [OF proc_okD(2) [OF ok]], goal_cases)
  case (1 rt w')
  have okw: "proc_ok E w'" using ok 1(2) by simp
  note chk = check_sync_start_eq [OF proc_okD(3) [OF okw]]
  show ?case
  proof (cases "length buf = 10 \<and> unat (buf ! 1) < 254")
    case True
    then obtain ts where ts: "read_timestamp (byte_order E) buf 2 = Inr ts"
      using read_timestamp_ok [of 2 buf] by auto
    then have go: "safeR (proc_ok E) (start_synchronizing E (buf ! 1) ts rt sender v)" if "proc_ok E v" for v
      using True that tame 1(1) by (auto intro!: safe_start_synchronizing dest: timestamp_okD)
    have "safeR (proc_ok E) (bindR (set_event_in_x_seconds E SYNCHRONIZATION_CHECK_DELAY w') (\<lambda>(t, v).
        start_synchronizing E (buf ! 1) ts rt sender (upd_nd (\<lambda>n. n\<lparr>next_sync_check := t\<rparr>) v)))"
      unfolding safeR_bind
      by (rule safe_set_event) (use okw go in \<open>auto simp: proc_ok_def\<close>)
    moreover have "proc_ok E (upd_nd (\<lambda>n. n\<lparr>sync_level := CLOCK_UNSYNCHRONIZED, offset_ms := 0\<rparr>) w')"
      using okw by (simp add: proc_ok_def node_ok_unsync)
    ultimately show ?thesis
      using okw True go [OF okw] by (auto simp: chk ts simp del: safeR_bind)
  next
    case False
    then show ?thesis using okw by (auto simp: chk)
  qed
qed

lemma safe_handle_delay_request:
  assumes ok: "proc_ok E w"
  shows "safeR (proc_ok E) (handle_delay_request E buf sender w)"
  unfolding handle_delay_request_def safeR_bind
proof (rule safe_get_clock [OF ok], goal_cases)
  case (1 t w')
  then have okw: "proc_ok E w'" using ok by simp
  then show ?case
    using proc_okD [OF okw]
    by (auto intro!: safe_natural_clock simp: contains_eq)
qed

lemma update_offset_safe:
  assumes "unat (T1 n) < 2 ^ 61" and "unat (T2 n) < 2 ^ 61" and "unat (T3 n) < 2 ^ 61"
    and "unat (T4 n) < 2 ^ 61"
  shows "\<exists>c. update_offset n = Inr (n\<lparr>offset_ms := c\<rparr>) \<and> - (2 ^ 62) \<le> c \<and> c < 2 ^ 62"
proof -
  have s: "0 \<le> sint x \<and> sint x < 2305843009213693952" if "unat x < 2 ^ 61" for x :: "64 word"
    using that uint_less_of_unat [OF that] by (simp add: sint_small)
  note b = s [OF assms(1)] s [OF assms(2)] s [OF assms(3)] s [OF assms(4)]
  let ?c = "sint (T2 n) - sint (T1 n) + sint (T3 n) - sint (T4 n)"
  have "- 4611686018427387904 \<le> ?c" "?c < 4611686018427387904"
    using b by linarith+
  moreover have "update_offset n = Inr (n\<lparr>offset_ms := ?c sdiv 2\<rparr>)"
    using b by (simp add: update_offset_def)
  ultimately show ?thesis
    using sdiv2_error [of ?c] by (intro exI [of _ "?c sdiv 2"]) (simp add: abs_le_iff)
qed

lemma safe_finish_synchronizing:
  assumes ok: "proc_ok E w" and sy: "synchronizing (nd w)" and "unat (T4 (nd w)) < 2 ^ 61"
  shows "safeR (proc_ok E) (finish_synchronizing E l sender w)"
proof -
  let ?n = "(nd w)\<lparr>sync_level := l + 1\<rparr>"
  have "\<exists>c. update_offset ?n = Inr (?n\<lparr>offset_ms := c\<rparr>) \<and> - (2 ^ 62) \<le> c \<and> c < 2 ^ 62"
    using assms by (intro update_offset_safe) (auto simp: proc_ok_def node_ok_def)
  then obtain c where "update_offset ?n = Inr (?n\<lparr>offset_ms := c\<rparr>)" "- (2 ^ 62) \<le> c" "c < 2 ^ 62"
    by blast
  then show ?thesis
    using ok by (auto simp: finish_synchronizing_def Let_def proc_ok_def node_ok_def intro!: safe_set_event)
qed

lemma safe_handle_delay_response:
  assumes ok: "proc_ok E w" and tame: "length buf = 10 \<longrightarrow> timestamp_ok E buf"
  shows "safeR (proc_ok E) (handle_delay_response E buf sender w)"
proof (cases "length buf = 10 \<and> synchronizing (nd w) \<and> sender = peer_to_sync (nd w)")
  case True
  then obtain ts where ts: "read_timestamp (byte_order E) buf 2 = Inr ts"
    using read_timestamp_ok [of 2 buf] by auto
  let ?w = "upd_nd (\<lambda>n. n\<lparr>T4 := ts\<rparr>) w"
  have okw: "proc_ok E ?w" "synchronizing (nd ?w)" "T4 (nd ?w) = ts"
    using ok True by (simp_all add: proc_ok_def)
  have fin: "safeR (proc_ok E) (finish_synchronizing E (buf ! 1) sender v)"
    if "proc_ok E v" "synchronizing (nd v)" "T4 (nd v) = ts" for v
    using that ts tame True by (auto intro!: safe_finish_synchronizing dest: timestamp_okD)
  have "safeR (proc_ok E) (bindR (bindR (set_event_in_x_seconds E 0 ?w) (\<lambda>(t, w).
      Inr (upd_nd (\<lambda>n. n\<lparr>next_sync_start := t\<rparr>) w))) (finish_synchronizing E (buf ! 1) sender))"
    using safe_set_event_nd [OF okw(1), of "\<lambda>t n. n\<lparr>next_sync_start := t\<rparr>"] okw fin
    by (intro safeR_bindI [where Q = "\<lambda>v. proc_ok E v \<and> (\<exists>t. nd v = (nd ?w)\<lparr>next_sync_start := t\<rparr>)"])
      (auto simp: proc_ok_def)
  then show ?thesis
    using True ok fin [OF okw]
    by (auto simp: handle_delay_response_def ts Let_def simp del: safeR_bind)
next
  case False
  then show ?thesis using ok by (auto simp: handle_delay_response_def)
qed

lemma safe_handle_leader:
  assumes ok: "proc_ok E w"
  shows "safeR (proc_ok E) (handle_leader E buf sender w)"
  using ok by (auto simp: handle_leader_def Let_def proc_ok_def intro!: safe_set_event)

lemma safe_handle_get_time:
  assumes ok: "proc_ok E w"
  shows "safeR (proc_ok E) (handle_get_time E buf sender w)"
  using ok by (auto simp: handle_get_time_def intro!: safe_get_clock)

lemma safe_handle_message:
  assumes "proc_ok E w" and "tame E buf" and "buf \<noteq> []"
  shows "safeR (proc_ok E) (handle_message E buf sender w)"
proof -
  have ts: "length buf = 10 \<longrightarrow> timestamp_ok E buf" if "buf ! 0 = SYNC_START \<or> buf ! 0 = DELAY_RESPONSE"
    using assms(2,3) that by (auto simp: tame_def hd_conv_nth)
  show ?thesis
    using assms(1,3) ts
    by (simp add: handle_message_def safe_handle_hello safe_handle_hello_reply safe_handle_connect
        safe_handle_ack_connect safe_handle_sync_start safe_handle_delay_request
        safe_handle_delay_response safe_handle_leader safe_handle_get_time)
qed

section \<open>The timers\<close>

text \<open>The datagrams among the outputs.\<close>

fun datagrams :: "out_event list \<Rightarrow> (byte list \<times> sockaddr_in) list" where
  "datagrams [] = []"
| "datagrams (Sendto m d # xs) = (m, d) # datagrams xs"
| "datagrams (Stderr s # xs) = datagrams xs"

lemma datagrams_append [simp]: "datagrams (xs @ ys) = datagrams xs @ datagrams ys"
  by (induction xs rule: datagrams.induct) auto

lemma datagrams_send [simp]:
  "datagrams (outputs (send_message E ty msg dest w)) = datagrams (outputs w) @ [(msg, dest)]"
  by (simp add: send_message_def report_error_def Let_def)

lemma node_ok_iters:
  "node_ok n st \<Longrightarrow> length its = length (peer_list_iterators st) \<Longrightarrow>
   node_ok n (st\<lparr>peer_list_iterators := its\<rparr>)"
  by (auto simp: node_ok_def own_free_def wf_store_iters)

text \<open>
  From the \<open>k\<close>-th peer on, the loop sends one SYNC_START with the node's level to each remaining
  peer, in order, and ends: the fuel \<open>length xs - k\<close> is enough.
\<close>

definition sync_starts :: "endian \<Rightarrow> byte \<Rightarrow> sockaddr_in list \<Rightarrow> (byte list \<times> sockaddr_in) list \<Rightarrow> bool" where
  "sync_starts e level ps ds \<longleftrightarrow>
     list_all2 (\<lambda>p d. snd d = p \<and> (\<exists>ts. fst d = create_sync_start_message e level ts)) ps ds"

lemma sync_start_loop_all:
  assumes "proc_ok E w" and "xs = peer_lists (store w) ! peer_list (nd w)" and "k < length xs"
    and "peer_list_iterators (store w) ! peer_list (nd w) = It_at (xs ! k)"
  shows "safeR (\<lambda>w'. proc_ok E w' \<and> nd w' = nd w \<and> peer_lists (store w') = peer_lists (store w) \<and>
      (\<exists>ds. datagrams (outputs w') = datagrams (outputs w) @ ds \<and>
        sync_starts (byte_order E) (sync_level (nd w)) (drop k xs) ds))
    (sync_start_loop E (length xs - k) w)"
  using assms
proof (induction "length xs - k" arbitrary: k w)
  case (Suc n)
  let ?i = "peer_list (nd w)"
  have i: "?i < length (peer_lists (store w))" "length (peer_list_iterators (store w)) = length (peer_lists (store w))"
    using Suc.prems(1) by (auto simp: proc_ok_def node_ok_def num_lists_def wf_store_def)
  have sorted: "sorted_wrt (<) xs"
    using wf_store_list [OF proc_okD(1,3) [OF Suc.prems(1)]] Suc.prems(2) by simp
  have get: "peer_list_iterator_get_peer (store w) ?i = Inr (xs ! k)"
    using i Suc.prems(4) by (simp add: peer_list_iterator_get_peer_def)
  let ?more = "Suc k < length xs"
  let ?st = "(store w)\<lparr>peer_list_iterators := (peer_list_iterators (store w))[?i := set_next (xs ! k) xs]\<rparr>"
  have nxt: "peer_list_iterator_next (store w) ?i = Inr (?more, ?st)"
    using i Suc.prems(2-4) sorted by (simp add: peer_list_iterator_next_def set_next_nth)
  let ?P = "\<lambda>w'. proc_ok E w' \<and> nd w' = nd w \<and> peer_lists (store w') = peer_lists (store w) \<and>
      (\<exists>ds. datagrams (outputs w') = datagrams (outputs w) @ ds \<and>
        sync_starts (byte_order E) (sync_level (nd w)) (drop k xs) ds)"
  have fuel: "length xs - k = Suc (length xs - Suc k)"
    using Suc.prems(3) by simp
  show ?case
    unfolding fuel sync_start_loop.simps get bindR_simps safeR_bind
  proof (rule safe_get_clock [OF Suc.prems(1)], goal_cases)
    case (1 t w1)
    let ?m = "create_sync_start_message (byte_order E) (sync_level (nd w)) t"
    let ?w = "(send_message E SYNC_START ?m (xs ! k) w1)\<lparr>store := ?st\<rparr>"
    have okw: "proc_ok E ?w"
      using Suc.prems(1) 1 by (simp add: proc_ok_def node_ok_iters)
    have out: "datagrams (outputs ?w) = datagrams (outputs w) @ [(?m, xs ! k)]"
      using 1 by simp
    have drop: "drop k xs = xs ! k # drop (Suc k) xs"
      using Suc.prems(3) by (simp add: Cons_nth_drop_Suc)
    have "safeR ?P (if ?more then sync_start_loop E (length xs - Suc k) ?w else Inr ?w)"
    proof (cases ?more)
      case True
      have "safeR (\<lambda>w'. proc_ok E w' \<and> nd w' = nd ?w \<and> peer_lists (store w') = peer_lists (store ?w) \<and>
          (\<exists>ds. datagrams (outputs w') = datagrams (outputs ?w) @ ds \<and>
            sync_starts (byte_order E) (sync_level (nd ?w)) (drop (Suc k) xs) ds))
        (sync_start_loop E (length xs - Suc k) ?w)"
        using Suc.hyps(2) Suc.prems(2,3) True i sorted 1 okw
        by (intro Suc.hyps(1)) (simp_all add: set_next_nth)
      then have "safeR ?P (sync_start_loop E (length xs - Suc k) ?w)"
      proof (rule safeR_mono)
        fix v
        assume v: "proc_ok E v \<and> nd v = nd ?w \<and> peer_lists (store v) = peer_lists (store ?w) \<and>
          (\<exists>ds. datagrams (outputs v) = datagrams (outputs ?w) @ ds \<and>
            sync_starts (byte_order E) (sync_level (nd ?w)) (drop (Suc k) xs) ds)"
        then obtain ds where "datagrams (outputs v) = datagrams (outputs w) @ (?m, xs ! k) # ds"
            "sync_starts (byte_order E) (sync_level (nd w)) (drop (Suc k) xs) ds"
          using out 1 by auto
        then show "?P v"
          using v 1 by (auto simp: drop sync_starts_def)
      qed
      with True show ?thesis by simp
    next
      case False
      then have "drop (Suc k) xs = []" by simp
      then show ?thesis
        using False okw out 1 by (auto simp: drop sync_starts_def)
    qed
    with 1 show ?case by (cases ?more) (simp_all add: Let_def nxt)
  qed
qed simp

lemma set_begin_nth: "set_begin xs = (if xs = [] then It_end else It_at (xs ! 0))"
  by (cases xs) (simp_all add: set_begin_def)

lemma node_ok_cpy:
  assumes "node_ok n st"
  shows "safeR (node_ok n) (peer_list_cpy st (peer_list n) (asked_to_synchronize n))"
proof -
  have pre: "wf_store st" "peer_list n < num_lists st" "asked_to_synchronize n < num_lists st"
    using assms by (auto simp: node_ok_def)
  obtain st' where "peer_list_cpy st (peer_list n) (asked_to_synchronize n) = Inr st'" "wf_store st'"
      "num_lists st' = num_lists st"
      "peers_of st' = (peers_of st)(asked_to_synchronize n := peers_of st (peer_list n))"
    using peers.cpy_law [OF pre] by blast
  then show ?thesis
    using assms by (auto simp: node_ok_def own_free_def)
qed

text \<open>The round of SYNC_START messages, from \<open>peer_list_iterator_begin\<close> to \<open>peer_list_cpy\<close>.\<close>

lemma iterator_begin_eq:
  assumes "proc_ok E w"
  defines "xs \<equiv> peer_lists (store w) ! peer_list (nd w)"
  shows "peer_list_iterator_begin (store w) (peer_list (nd w)) = Inr (xs \<noteq> [],
      (store w)\<lparr>peer_list_iterators := (peer_list_iterators (store w))[peer_list (nd w) := set_begin xs]\<rparr>)"
    and "peer_list (nd w) < length (peer_list_iterators (store w))"
  using assms by (auto simp: proc_ok_def node_ok_def num_lists_def wf_store_def
      peer_list_iterator_begin_def set_begin_nth)

lemma safe_copy_asked:
  assumes "proc_ok E w"
  shows "safeR (proc_ok E) (bindR (peer_list_cpy (store w) (peer_list (nd w))
      (asked_to_synchronize (nd w))) (\<lambda>st. Inr (w\<lparr>store := st\<rparr>)))"
proof (rule safeR_bindI)
  show "safeR (node_ok (nd w)) (peer_list_cpy (store w) (peer_list (nd w)) (asked_to_synchronize (nd w)))"
    using assms by (intro node_ok_cpy) (simp add: proc_ok_def)
qed (use assms in \<open>simp add: proc_ok_def\<close>)

lemma safe_sync_start_peers:
  assumes ok: "proc_ok E w"
  shows "safeR (proc_ok E) (sync_start_peers E w)"
proof (cases "peer_lists (store w) ! peer_list (nd w) = []")
  case True
  then show ?thesis
    using ok by (simp add: sync_start_peers_def iterator_begin_eq [OF ok] Let_def proc_ok_def node_ok_iters)
next
  case False
  let ?i = "peer_list (nd w)" and ?xs = "peer_lists (store w) ! peer_list (nd w)"
  let ?w = "w\<lparr>store := (store w)\<lparr>peer_list_iterators := (peer_list_iterators (store w))[?i := set_begin ?xs]\<rparr>\<rparr>"
  have okw: "proc_ok E ?w"
    using ok by (simp add: proc_ok_def node_ok_iters)
  have "safeR (proc_ok E) (sync_start_loop E (length ?xs) ?w)"
    using sync_start_loop_all [OF okw, of ?xs 0] False iterator_begin_eq(2) [OF ok]
    by (auto simp: set_begin_nth elim: safeR_mono)
  then have "safeR (proc_ok E) (bindR (sync_start_loop E (length ?xs) ?w) (\<lambda>w.
      bindR (peer_list_cpy (store w) (peer_list (nd w)) (asked_to_synchronize (nd w))) (\<lambda>st.
        Inr (w\<lparr>store := st\<rparr>))))"
    by (rule safeR_bindI) (rule safe_copy_asked)
  then show ?thesis
    using False by (simp add: sync_start_peers_def iterator_begin_eq [OF ok] Let_def del: safeR_bind)
qed

lemma safe_note_sync_start: "proc_ok E w \<Longrightarrow> safeR (proc_ok E) (note_sync_start E w)"
  using proc_okD(2) [of E w]
  by (auto simp: note_sync_start_def Let_def proc_ok_def intro!: safe_natural_clock safe_set_event)

lemma safe_send_sync_starts:
  assumes ok: "proc_ok E w"
  shows "safeR (proc_ok E) (send_sync_starts E w)"
proof -
  have "safeR (proc_ok E) (bindR (sync_start_peers E v) (note_sync_start E))" if "proc_ok E v" for v
    using that by (intro safeR_bindI [OF safe_sync_start_peers safe_note_sync_start])
  then show ?thesis
    using ok by (auto simp: send_sync_starts_def simp del: safeR_bind
      intro!: safeR_bindI [OF safe_now_is_after [where P = "\<lambda>(b, v). proc_ok E v"]])
qed

lemma safe_check_sync_timeout:
  assumes ok: "proc_ok E w"
  shows "safeR (proc_ok E) (check_sync_timeout E w)"
  using ok by (auto simp: check_sync_timeout_def proc_ok_def node_ok_unsync intro!: safe_now_is_after)

lemma safe_timers: "proc_ok E w \<Longrightarrow> safeR (proc_ok E) (check_and_handle_timers E w)"
  unfolding check_and_handle_timers_def
  by (rule safeR_bindI [OF safe_check_sync_timeout safe_send_sync_starts])

end
