(* ===== verification/Node_Main.thy ===== *)
theory Node_Main
  imports Node_Invariants
begin

text \<open>
  Start-up and main loop of a node: \<open>src/peer-time-sync/main.c\<close> with the address and socket
  functions of \<open>networking.c\<close> and \<open>register_node_data\<close> of \<open>err.c\<close>. The system calls they make are
  the fields of \<open>sys\<close>; what \<open>recvfrom\<close> delivers is the input of an iteration.
\<close>

section \<open>Start-up\<close>

record Config =
  bind_address :: "string option"
  port :: "16 word"
  peer_address :: "string option"
  peer_port :: "16 word"

text \<open>
  \<open>getifaddrs\<close> lists the interfaces (\<open>None\<close> for one that is not IPv4) or fails; \<open>getsockname\<close>
  gives the port in network byte order.
\<close>

record sys =
  socket_call :: int
  inet_pton :: "string \<Rightarrow> 32 word option"
  bind_call :: "sockaddr_in \<Rightarrow> bool"
  getsockname :: "16 word option"
  setsockopt_call :: bool
  getaddrinfo :: "string \<Rightarrow> 32 word option"
  getifaddrs :: "sockaddr_in option list option"
  malloc_call :: bool

definition get_address :: "env \<Rightarrow> sys \<Rightarrow> string \<Rightarrow> 16 word \<Rightarrow> sockaddr_in res" where
  "get_address E S host p =
     (case getaddrinfo S host of
        None \<Rightarrow> Inl Exit
      | Some a \<Rightarrow> Inr (Sockaddr a (htons (byte_order E) p)))"

definition bind_socket :: "env \<Rightarrow> sys \<Rightarrow> string option \<Rightarrow> 16 word \<Rightarrow> (sockaddr_in \<times> 16 word) res" where
  "bind_socket E S bind_addr p =
     bindR (case bind_addr of
              None \<Rightarrow> Inr (htonl (byte_order E) 0)
            | Some s \<Rightarrow> (case inet_pton S s of None \<Rightarrow> Inl Exit | Some a \<Rightarrow> Inr a)) (\<lambda>a.
       let listen_address = Sockaddr a (htons (byte_order E) p) in
       if \<not> bind_call S listen_address then Inl Exit
       else if p = 0
       then (case getsockname S of
               None \<Rightarrow> Inl Exit
             | Some np \<Rightarrow> Inr (listen_address, ntohs (byte_order E) np))
       else Inr (listen_address, p))"

definition set_receive_timeout :: "sys \<Rightarrow> unit res" where
  "set_receive_timeout S = (if setsockopt_call S then Inr () else Inl Exit)"

definition register_node_data :: "NodeData \<Rightarrow> NodeData" where
  "register_node_data n = n\<lparr>sock_fd := -1, my_addresses := []\<rparr>"

text \<open>The IPv4 interfaces, each with the node's port.\<close>

definition own_addresses :: "env \<Rightarrow> 16 word \<Rightarrow> sockaddr_in option list \<Rightarrow> sockaddr_in list" where
  "own_addresses E p ifs =
     map (\<lambda>a. Sockaddr (sin_addr a) (htons (byte_order E) p)) (map the (filter (\<lambda>i. i \<noteq> None) ifs))"

definition initialize_node_data ::
  "env \<Rightarrow> sys \<Rightarrow> int \<Rightarrow> sockaddr_in \<Rightarrow> Config \<Rightarrow> proc \<Rightarrow> proc res" where
  "initialize_node_data E S fd listen_address cfg w =
     (case peer_list_create (store w) of (pl, st) \<Rightarrow>
      case peer_list_create st of (wa, st) \<Rightarrow>
      case peer_list_create st of (asked, st) \<Rightarrow>
        let w = upd_nd (\<lambda>n. n\<lparr>my_addresses := [], sock_fd := fd, peer_list := pl,
                  waiting_for_hello_reply := False, waiting_for_ack_connect := wa,
                  sync_level := CLOCK_UNSYNCHRONIZED, offset_ms := 0, last_sync_start := 0,
                  synchronizing := False, asked_to_synchronize := asked\<rparr>) (w\<lparr>store := st\<rparr>)
        in case bind_address cfg of
             None \<Rightarrow>
               (case getifaddrs S of
                  None \<Rightarrow> Inl Exit
                | Some ifs \<Rightarrow>
                    let mine = own_addresses E (port cfg) ifs in
                    if mine = [] then Inr w
                    else if \<not> malloc_call S then Inl Exit
                    else Inr (upd_nd (\<lambda>n. n\<lparr>my_addresses := mine\<rparr>) w))
           | Some _ \<Rightarrow>
               if \<not> malloc_call S then Inl Undefined
               else Inr (upd_nd (\<lambda>n. n\<lparr>my_addresses :=
                      [Sockaddr (sin_addr listen_address) (htons (byte_order E) (port cfg))]\<rparr>) w))"

text \<open>
  \<open>main\<close> up to its loop, after \<open>parse_args\<close>. \<open>n0\<close> is the uninitialized \<open>NodeData\<close> on the stack.
\<close>

definition main_init :: "env \<Rightarrow> sys \<Rightarrow> Config \<Rightarrow> NodeData \<Rightarrow> proc res" where
  "main_init E S cfg n0 =
     bindR (clock_init E \<lparr>nd = n0, store = empty_store, start_time = \<lparr>tv_sec = 0, tv_nsec = 0\<rparr>,
                          clock_reads = 0, sendto_calls = 0, outputs = []\<rparr>) (\<lambda>w.
     let w = upd_nd register_node_data w; fd = socket_call S in
     if fd < 0 then Inl Exit
     else bindR (bind_socket E S (bind_address cfg) (port cfg)) (\<lambda>(listen_address, p).
     bindR (set_receive_timeout S) (\<lambda>_.
     bindR (initialize_node_data E S fd listen_address (cfg\<lparr>port := p\<rparr>) w) (\<lambda>w.
       case peer_address cfg of
         None \<Rightarrow> Inr w
       | Some host \<Rightarrow>
           bindR (get_address E S host (peer_port cfg)) (\<lambda>a.
             Inr (send_hello_message E
                    (upd_nd (\<lambda>n. n\<lparr>waiting_for_hello_reply := True, known_peer := a\<rparr>) w)))))))"

section \<open>The main loop\<close>

text \<open>What \<open>recvfrom\<close> returns: a timeout, another error, or a datagram (perhaps empty).\<close>

datatype recv = Recv_timeout | Recv_error | Recv_datagram "byte list" sockaddr_in

definition main_iteration :: "env \<Rightarrow> recv \<Rightarrow> proc \<Rightarrow> proc res" where
  "main_iteration E r w =
     bindR (check_and_handle_timers E w) (\<lambda>w.
       case r of
         Recv_timeout \<Rightarrow> Inr w
       | Recv_error \<Rightarrow> Inr (report_error ''recvfrom failed'' w)
       | Recv_datagram buf sender \<Rightarrow>
           if buf = [] then Inr (error_msg_hex [] w) else handle_message E buf sender w)"

fun main_loop :: "env \<Rightarrow> recv list \<Rightarrow> proc \<Rightarrow> proc res" where
  "main_loop E [] w = Inr w"
| "main_loop E (r # rs) w = bindR (main_iteration E r w) (main_loop E rs)"

section \<open>Reachable states\<close>

fun tame_recv :: "env \<Rightarrow> recv \<Rightarrow> bool" where
  "tame_recv E (Recv_datagram buf sender) = tame E buf"
| "tame_recv E _ = True"

text \<open>A step of a node: one iteration of the main loop on some input.\<close>

inductive node_step :: "env \<Rightarrow> proc \<Rightarrow> proc \<Rightarrow> bool" for E where
  iteration: "tame_recv E r \<Longrightarrow> main_iteration E r w = Inr w' \<Longrightarrow> node_step E w w'"

inductive node_reachable :: "env \<Rightarrow> sys \<Rightarrow> Config \<Rightarrow> NodeData \<Rightarrow> proc \<Rightarrow> bool" for E S cfg n0 where
  start: "main_init E S cfg n0 = Inr w \<Longrightarrow> node_reachable E S cfg n0 w"
| step: "node_reachable E S cfg n0 w \<Longrightarrow> node_step E w w' \<Longrightarrow> node_reachable E S cfg n0 w'"

inductive_cases node_stepE: "node_step E w w'"

lemma wf_three_lists:
  assumes "peer_list_create empty_store = (a, s1)" and "peer_list_create s1 = (b, s2)"
    and "peer_list_create s2 = (c, s3)"
  shows "a = 0 \<and> b = 1 \<and> c = 2 \<and> wf_store s3 \<and> num_lists s3 = 3 \<and>
    peers_of s3 0 = {} \<and> peers_of s3 1 = {} \<and> peers_of s3 2 = {}"
  using assms
  by (auto simp: peer_list_create_def empty_store_def wf_store_def num_lists_def peers_of_def MAX_CAPACITY_def)

lemma node_ok_fresh:
  assumes "wf_store st" and "num_lists st = 3" and "peers_of st 0 = {}" and "peers_of st 1 = {}"
    and "peers_of st 2 = {}" and "peer_list n = 0" and "waiting_for_ack_connect n = 1"
    and "asked_to_synchronize n = 2" and "offset_ms n = 0" and "\<not> synchronizing n"
  shows "node_ok n st"
  using assms by (simp add: node_ok_def own_free_def)

lemma initialize_node_ok:
  assumes "initialize_node_data E S fd la cfg w = Inr w'" and "store w = empty_store"
  shows "node_ok (nd w') (store w') \<and> start_time w' = start_time w"
proof -
  obtain a s1 b s2 c s3 where c: "peer_list_create empty_store = (a, s1)" "peer_list_create s1 = (b, s2)"
      "peer_list_create s2 = (c, s3)"
    by (metis prod.exhaust)
  show ?thesis
    using assms wf_three_lists [OF c]
    by (auto simp: initialize_node_data_def c Let_def intro!: node_ok_fresh
        split: option.splits if_splits)
qed

lemma node_ok_hello_fields [simp]:
  "node_ok (n\<lparr>waiting_for_hello_reply := b, known_peer := a\<rparr>) st = node_ok n st"
  by (simp add: node_ok_def)

lemma main_init_ok:
  assumes "main_init E S cfg n0 = Inr w"
  shows "node_ok (nd w) (store w) \<and> clock_gettime E 0 = Some (start_time w)"
  using assms
  by (auto simp: main_init_def clock_init_def read_clock_def bindR_eq_Inr Let_def send_hello_message_def
      dest!: initialize_node_ok split: option.splits if_splits)

lemma safe_main_iteration:
  assumes "proc_ok E w" and "tame_recv E r"
  shows "safeR (proc_ok E) (main_iteration E r w)"
  unfolding main_iteration_def
proof (rule safeR_bindI [OF safe_timers [OF assms(1)]])
  fix v
  assume "proc_ok E v"
  then show "safeR (proc_ok E) (case r of
         Recv_timeout \<Rightarrow> Inr v
       | Recv_error \<Rightarrow> Inr (report_error ''recvfrom failed'' v)
       | Recv_datagram buf sender \<Rightarrow>
           if buf = [] then Inr (error_msg_hex [] v) else handle_message E buf sender v)"
    using assms(2) by (cases r) (auto simp: report_error_def intro: safe_handle_message)
qed

lemma node_reachable_ok:
  assumes "node_reachable E S cfg n0 w" and "\<And>s. clock_gettime E 0 = Some s \<Longrightarrow> sane_clock E s"
  shows "proc_ok E w"
  using assms(1)
proof (induction rule: node_reachable.induct)
  case (start w)
  then show ?case
    using assms(2) main_init_ok by (auto simp: proc_ok_def)
next
  case (step w w')
  then show ?case
    by (auto elim!: node_stepE dest: safe_main_iteration safeR_value)
qed

end
