(* ===== verification/Hello_Exchange.thy ===== *)
theory Hello_Exchange
  imports Node_Invariants
begin

text \<open>
  The exchange HELLO / HELLO_REPLY: what \<open>create_hello_reply_message\<close> puts on the wire, and what
  \<open>check_hello_reply\<close> and \<open>handle_hello_reply\<close> of the receiver make of it.
\<close>

section \<open>The message\<close>

definition kept_peers :: "peer_store \<Rightarrow> nat \<Rightarrow> sockaddr_in list \<Rightarrow> sockaddr_in \<Rightarrow> sockaddr_in list" where
  "kept_peers st i src dest = filter (keeps_peer src dest) (peer_lists st ! i)"

definition hello_reply_bytes :: "endian \<Rightarrow> sockaddr_in list \<Rightarrow> byte list" where
  "hello_reply_bytes e ps = [HELLO_REPLY] @ net_bytes 2 (length ps) @ concat (map (peer_record e) ps)"

lemma length_hello_reply_bytes [simp]: "length (hello_reply_bytes e ps) = 3 + 7 * length ps"
  by (simp add: hello_reply_bytes_def)

lemma create_hello_reply_eq:
  assumes "wf_store (store w)" and "pl < num_lists (store w)"
  shows "create_hello_reply_message E pl src dest w =
    Inr (if 65536 \<le> 3 + 7 * length (kept_peers (store w) pl src dest) then []
         else hello_reply_bytes (byte_order E) (kept_peers (store w) pl src dest), w)"
proof -
  obtain c where c: "peer_list_count_excl (store w) pl src dest = Inr c"
    and n: "unat c = length (kept_peers (store w) pl src dest)"
    using count_excl_unat [OF assms, of src dest] by (auto simp: kept_peers_def)
  have wr: "peer_list_write_to_buf_excl (byte_order E) (store w) pl (unat c * 7) src dest =
      Inr (concat (map (peer_record (byte_order E)) (kept_peers (store w) pl src dest)), True)"
    using assms(2) write_excl_loop_eq [of "byte_order E" "peer_lists (store w) ! pl" src dest] n
    by (simp add: peer_list_write_to_buf_excl_def num_lists_def kept_peers_def mult.commute)
  show ?thesis
    using n wr by (simp add: create_hello_reply_message_def c Let_def mem_htons hello_reply_bytes_def
        BUFFER_SIZE_def)
qed

section \<open>Reading it back\<close>

lemma read_count_hello_reply:
  assumes "length ps < 65536"
  shows "read_count e (hello_reply_bytes e' ps) 1 = Inr (word_of_nat (length ps))"
proof -
  have "unat (word_of_nat (length ps) :: 16 word) = length ps"
    using assms by (simp add: unat_of_nat)
  then show ?thesis
    using htons_swap [of e "word_of_nat (length ps)"]
    by (simp add: read_count_def read_bytes_def hello_reply_bytes_def)
qed

lemma word_of_mem32: "word_of_nat (mem_value e (mem_bytes e 4 (unat (a :: 32 word)))) = a"
  by (simp add: mem_value_word32)

lemma word_of_mem16: "word_of_nat (mem_value e (mem_bytes e 2 (unat (a :: 16 word)))) = a"
  by (simp add: mem_value_word16)

lemma read_record:
  assumes "buf = pre @ peer_record e p @ rest"
  shows "nth_chk buf (length pre) = Inr 4" and "read_peer e buf (Suc (length pre)) = Inr p"
  using assms by (simp_all add: nth_chk_def read_peer_def read_bytes_def peer_record_def nth_append
      word_of_mem32 word_of_mem16)

lemma check_peers_loop_eq:
  "buf = pre @ concat (map (peer_record e) ps) \<Longrightarrow>
   check_peers_loop e my sender buf (length pre) (length ps) =
     Inr (\<forall>p \<in> set ps. sin_port p \<noteq> 0 \<and> p \<noteq> sender \<and> p \<notin> set my)"
proof (induction ps arbitrary: pre)
  case (Cons p ps)
  then have buf: "buf = pre @ peer_record e p @ concat (map (peer_record e) ps)" by simp
  have "check_peers_loop e my sender buf (length (pre @ peer_record e p)) (length ps) =
      Inr (\<forall>p \<in> set ps. sin_port p \<noteq> 0 \<and> p \<noteq> sender \<and> p \<notin> set my)"
    using buf by (intro Cons.IH) simp
  then show ?case
    by (auto simp: read_record [OF buf])
qed auto

lemma check_hello_reply_eq:
  assumes "length ps < 65536"
  shows "check_hello_reply E (hello_reply_bytes (byte_order E) ps) sender w =
    Inr (waiting_for_hello_reply (nd w) \<and> sender = known_peer (nd w) \<and>
         sender \<notin> set (my_addresses (nd w)) \<and>
         (\<forall>p \<in> set ps. sin_port p \<noteq> 0 \<and> p \<noteq> sender \<and> p \<notin> set (my_addresses (nd w))))"
proof -
  have n: "unat (word_of_nat (length ps) :: 16 word) = length ps"
    using assms by (simp add: unat_of_nat)
  have "check_peers_loop (byte_order E) (my_addresses (nd w)) sender
      (hello_reply_bytes (byte_order E) ps) 3 (length ps) =
      Inr (\<forall>p \<in> set ps. sin_port p \<noteq> 0 \<and> p \<noteq> sender \<and> p \<notin> set (my_addresses (nd w)))"
    using check_peers_loop_eq [of "hello_reply_bytes (byte_order E) ps"
        "[HELLO_REPLY] @ net_bytes 2 (length ps)" "byte_order E" ps "my_addresses (nd w)" sender]
    by (simp add: hello_reply_bytes_def)
  then show ?thesis
    using assms by (auto simp: check_hello_reply_def read_count_hello_reply [simplified] n)
qed

section \<open>Connecting to the announced peers\<close>

text \<open>
  The loop sends CONNECT to every announced peer and, as long as the capacity suffices, expects
  ACK_CONNECT from each.
\<close>

lemma connect_peers_loop_eq:
  assumes "buf = pre @ concat (map (peer_record (byte_order E)) ps)"
    and "proc_ok E w" and "set ps \<inter> set (my_addresses (nd w)) = {}"
    and "card (peers_of (store w) (waiting_for_ack_connect (nd w)) \<union> set ps) \<le> MAX_CAPACITY"
  shows "\<exists>w'. connect_peers_loop E buf (length pre) (length ps) w = Inr w' \<and> proc_ok E w' \<and> nd w' = nd w \<and>
    datagrams (outputs w') = datagrams (outputs w) @ map (\<lambda>p. ([CONNECT], p)) ps \<and>
    peers_of (store w') = (peers_of (store w))(waiting_for_ack_connect (nd w) :=
      peers_of (store w) (waiting_for_ack_connect (nd w)) \<union> set ps)"
  using assms
proof (induction ps arbitrary: pre w)
  case (Cons p ps)
  let ?wa = "waiting_for_ack_connect (nd w)"
  have wa: "?wa < num_lists (store w)" and wf: "wf_store (store w)"
    using proc_okD [OF Cons.prems(2)] by blast+
  have buf: "buf = pre @ peer_record (byte_order E) p @ concat (map (peer_record (byte_order E)) ps)"
    using Cons.prems(1) by simp
  have fin: "finite (peers_of (store w) ?wa)"
    using peers.finite_elems [OF wf wa] by blast
  have room: "p \<in> peers_of (store w) ?wa \<or> card (peers_of (store w) ?wa) < MAX_CAPACITY"
    using psubset_card_mono [of "peers_of (store w) ?wa \<union> set (p # ps)" "peers_of (store w) ?wa"]
      fin Cons.prems(4) by fastforce
  obtain r st where st: "peer_list_add (store w) ?wa p = Inr (r, st)"
      "peers_of st = (peers_of (store w))(?wa := insert p (peers_of (store w) ?wa))"
    using peers.add_contains [OF wf wa room] by blast
  let ?w = "send_message E CONNECT create_connect_message p (w\<lparr>store := st\<rparr>)"
  have okw: "proc_ok E ?w"
    using node_ok_add [of "nd w" "store w" ?wa p] Cons.prems(2,3) wa st(1) by (simp add: proc_ok_def)
  let ?pre = "pre @ peer_record (byte_order E) p"
  have "\<exists>w'. connect_peers_loop E buf (length ?pre) (length ps) ?w = Inr w' \<and> proc_ok E w' \<and> nd w' = nd ?w \<and>
      datagrams (outputs w') = datagrams (outputs ?w) @ map (\<lambda>p. ([CONNECT], p)) ps \<and>
      peers_of (store w') = (peers_of (store ?w))(waiting_for_ack_connect (nd ?w) :=
        peers_of (store ?w) (waiting_for_ack_connect (nd ?w)) \<union> set ps)"
    using okw buf Cons.prems(3,4) st(2) by (intro Cons.IH) simp_all
  then obtain w' where w': "connect_peers_loop E buf (length ?pre) (length ps) ?w = Inr w'"
      "proc_ok E w'" "nd w' = nd w"
      "datagrams (outputs w') = datagrams (outputs ?w) @ map (\<lambda>p. ([CONNECT], p)) ps"
      "peers_of (store w') = (peers_of st)(?wa := peers_of st ?wa \<union> set ps)"
    by auto
  have "connect_peers_loop E buf (length pre) (length (p # ps)) w = Inr w'"
    using w'(1) st(1) by (simp add: read_record [OF buf])
  moreover have "datagrams (outputs w') = datagrams (outputs w) @ map (\<lambda>p. ([CONNECT], p)) (p # ps)"
    using w'(4) by (simp add: create_defs)
  moreover have "peers_of (store w') = (peers_of (store w))(?wa := peers_of (store w) ?wa \<union> set (p # ps))"
    by (simp add: w'(5) st(2))
  ultimately show ?case
    using w'(2,3) by blast
qed (auto intro: ext)

section \<open>Messages with a level and a timestamp\<close>

lemma sync_message_bytes:
  "create_sync_level_and_timestamp_message e ty l ts = [ty, l] @ net_bytes 8 (unat ts)"
  by (simp add: create_sync_level_and_timestamp_message_def mem_htonll)

lemma length_sync_message [simp, wire_simps]:
  "length (create_sync_level_and_timestamp_message e ty l ts) = 10"
  by (simp add: sync_message_bytes)

lemma sync_message_level [simp, wire_simps]:
  "create_sync_level_and_timestamp_message e ty l ts ! Suc 0 = l"
  by (simp add: sync_message_bytes)

lemma read_sync_timestamp:
  "read_timestamp e' (create_sync_level_and_timestamp_message e ty l ts) 2 = Inr ts"
  by (simp add: read_timestamp_def read_bytes_def sync_message_bytes htonll_swap)

end
