(* ===== verification/Node_Properties.thy ===== *)
theory Node_Properties
  imports Node_Main Hello_Exchange
begin

text \<open>
  The properties of a peer-time-sync node: safety and the invariant of its lists over all
  reachable states, the exchange of peer lists, the clock offset, the rounds of SYNC_START, and
  the behaviours of the handlers that differ from what the code means.
\<close>

section \<open>A concrete node for the witnesses\<close>

definition demo_env :: env where
  "demo_env = \<lparr>byte_order = Little, clock_gettime = (\<lambda>_. Some \<lparr>tv_sec = 100, tv_nsec = 0\<rparr>),
     sendto_result = (\<lambda>_. 1)\<rparr>"

definition demo_self :: sockaddr_in where "demo_self = Sockaddr 1 10"
definition demo_peer :: sockaddr_in where "demo_peer = Sockaddr 2 20"
definition demo_other :: sockaddr_in where "demo_other = Sockaddr 3 30"

definition demo_sys :: sys where
  "demo_sys = \<lparr>socket_call = 3, inet_pton = (\<lambda>_. Some 1), bind_call = (\<lambda>_. True), getsockname = None,
     setsockopt_call = True, getaddrinfo = (\<lambda>_. Some 2), getifaddrs = None, malloc_call = True\<rparr>"

definition demo_config :: Config where
  "demo_config = \<lparr>bind_address = Some ''0.0.0.1'', port = 0x0A00, peer_address = None, peer_port = 0\<rparr>"

definition demo_time :: timespec where
  "demo_time = \<lparr>tv_sec = 0, tv_nsec = 0\<rparr>"

definition demo_data :: NodeData where
  "demo_data = \<lparr>my_addresses = [], known_peer = demo_peer, sock_fd = 0, peer_list = 0,
     waiting_for_hello_reply = False, waiting_for_ack_connect = 0, sync_level = 0, offset_ms = 0,
     synchronized_peer = demo_other, next_sync_start = demo_time, next_sync_check = demo_time,
     last_sync_start = 0, asked_to_synchronize = 0, synchronizing = False, synchronizing_level = 0,
     peer_to_sync = demo_other, waiting_for_delay_response = demo_time, T1 = 0, T2 = 0, T3 = 0, T4 = 0\<rparr>"

text \<open>A running node that knows \<open>demo_peer\<close>, waits for nobody and has asked nobody.\<close>

definition demo_node :: NodeData where
  "demo_node = demo_data\<lparr>my_addresses := [demo_self], sock_fd := 3, waiting_for_ack_connect := 1,
     asked_to_synchronize := 2, sync_level := 255\<rparr>"

definition demo_store :: peer_store where
  "demo_store = \<lparr>peer_lists = [[demo_peer], [], []], peer_list_iterators = [It_end, It_end, It_end]\<rparr>"

definition demo_proc :: proc where
  "demo_proc = \<lparr>nd = demo_node, store = demo_store, start_time = \<lparr>tv_sec = 100, tv_nsec = 0\<rparr>,
     clock_reads = 1, sendto_calls = 0, outputs = []\<rparr>"

definition demo_start :: proc where
  "demo_start = demo_proc\<lparr>store := \<lparr>peer_lists = [[], [], []], peer_list_iterators = [It_end, It_end, It_end]\<rparr>\<rparr>"

lemmas demo_defs =
  demo_env_def demo_self_def demo_peer_def demo_other_def demo_sys_def demo_config_def demo_time_def
  demo_data_def demo_node_def demo_store_def demo_proc_def demo_start_def

lemma demo_sane: "sane_clock demo_env \<lparr>tv_sec = 100, tv_nsec = 0\<rparr>"
  by (simp add: sane_clock_def demo_env_def elapsed_ms_def)

lemma demo_proc_ok: "proc_ok demo_env demo_proc"
  using demo_sane
  by (auto simp: proc_ok_def node_ok_def own_free_def wf_store_def num_lists_def peers_of_def
      MAX_CAPACITY_def demo_self_def demo_peer_def demo_data_def demo_node_def demo_store_def demo_proc_def)

lemma demo_port: "htons Little 0x0A00 = 0x000A"
  by code_simp

lemma demo_main_init: "main_init demo_env demo_sys demo_config demo_data = Inr demo_start"
  by (simp add: main_init_def clock_init_def read_clock_def bind_socket_def set_receive_timeout_def
      initialize_node_data_def peer_list_create_def set_begin_def empty_store_def register_node_data_def
      demo_port Let_def upd_nd_def CLOCK_UNSYNCHRONIZED_def demo_defs)

lemma demo_reachable: "node_reachable demo_env demo_sys demo_config demo_data demo_start"
  using demo_main_init by (rule node_reachable.start)

section \<open>Safety and invariants over all reachable states\<close>

text \<open>
  C2: From every state a node can reach, an iteration of the main loop on any datagram, timeout or
  error has no undefined behaviour: every handler reads inside the received bytes only, addresses
  existing peer lists only, and no signed 64-bit operation overflows. What is assumed: the monotonic clock
  does not run backwards and the process runs for less than \<open>2^61\<close> ms (\<open>sane_clock\<close>), and the timestamp of a
  SYNC_START or DELAY_RESPONSE of ten bytes is below \<open>2^61\<close> ms (\<open>tame_recv\<close>); all other datagrams are arbitrary.
\<close>

theorem node_never_undefined:
  assumes "node_reachable E S cfg n0 w" and "\<And>s. clock_gettime E 0 = Some s \<Longrightarrow> sane_clock E s"
    and "tame_recv E r"
  shows "main_iteration E r w \<noteq> Inl Undefined"
  using node_reachable_ok [OF assms(1,2)] assms(3)
  by (intro safeR_not_undefined [OF safe_main_iteration]) auto

theorem node_never_undefined_witness:
  "main_iteration demo_env (Recv_datagram [HELLO] demo_other) demo_start \<noteq> Inl Undefined"
proof (rule node_never_undefined [OF demo_reachable])
  show "sane_clock demo_env s" if "clock_gettime demo_env 0 = Some s" for s
    using that demo_sane by (simp add: demo_env_def)
  show "tame_recv demo_env (Recv_datagram [HELLO] demo_other)"
    by (simp add: tame_def)
qed

text \<open>
  C15: In every state reached with such a clock and such timestamps, the three peer lists exist, hold at
  most 65535 addresses each, and none of them ever contains an address of the node itself, whatever the other
  messages contain.
\<close>

theorem node_lists_own_free:
  assumes "node_reachable E S cfg n0 w" and "\<And>s. clock_gettime E 0 = Some s \<Longrightarrow> sane_clock E s"
    and "i \<in> {peer_list (nd w), waiting_for_ack_connect (nd w), asked_to_synchronize (nd w)}"
  shows "i < num_lists (store w) \<and> card (peers_of (store w) i) \<le> 65535 \<and>
    peers_of (store w) i \<inter> set (my_addresses (nd w)) = {}"
proof -
  have ok: "proc_ok E w"
    using assms(1,2) by (rule node_reachable_ok)
  then have "i < num_lists (store w)" "own_free (my_addresses (nd w)) (store w) i"
    using assms(3) by (auto simp: proc_ok_def node_ok_def)
  then show ?thesis
    using peers.finite_elems [OF proc_okD(1) [OF ok], of i] by (auto simp: own_free_def MAX_CAPACITY_def)
qed

theorem node_lists_own_free_witness:
  "peer_list (nd demo_start) < num_lists (store demo_start) \<and>
   card (peers_of (store demo_start) (peer_list (nd demo_start))) \<le> 65535 \<and>
   peers_of (store demo_start) (peer_list (nd demo_start)) \<inter> set (my_addresses (nd demo_start)) = {}"
proof (rule node_lists_own_free [OF demo_reachable])
  show "sane_clock demo_env s" if "clock_gettime demo_env 0 = Some s" for s
    using that demo_sane by (simp add: demo_env_def)
qed simp

section \<open>Peer lists\<close>

text \<open>
  C28: \<open>peer_list_add\<close> keeps the promise of \<open>peers.h\<close> on every list that exists: it returns 1 and the
  list then holds the peer too, 0 if the list held it already, and -1 if the list is full; a list
  never exceeds 65535 peers, stays ordered, and no other list changes.
\<close>

theorem peer_list_add_contract:
  assumes "wf_store st" and "i < num_lists st"
  shows "\<exists>r st'. peer_list_add st i p = Inr (r, st') \<and> wf_store st' \<and> num_lists st' = num_lists st \<and>
    r = (if p \<in> peers_of st i then 0 else if card (peers_of st i) < 65535 then 1 else -1) \<and>
    peers_of st' = (peers_of st)(i := if r = -1 then peers_of st i else insert p (peers_of st i))"
proof -
  obtain r st' where st': "peer_list_add st i p = Inr (r, st')" "wf_store st'" "num_lists st' = num_lists st"
      "peers_of st' = (peers_of st)(i := if r < 0 then peers_of st i else insert p (peers_of st i))"
    using peers.add_law [OF assms, of p] by blast
  moreover have "r = (if p \<in> peers_of st i then 0 else if card (peers_of st i) < 65535 then 1 else -1)"
    using st'(1) add_eq [OF assms, of p] by (auto simp: MAX_CAPACITY_def split: if_splits)
  ultimately show ?thesis by auto
qed

theorem peer_list_add_contract_witness:
  "\<exists>st'. peer_list_add demo_store 1 demo_other = Inr (1, st') \<and> peers_of st' 1 = {demo_other} \<and> wf_store st'"
proof -
  have "wf_store demo_store" "1 < num_lists demo_store" "peers_of demo_store 1 = {}"
    using proc_okD [OF demo_proc_ok] by (simp_all add: demo_proc_def demo_node_def demo_store_def num_lists_def peers_of_def)
  then show ?thesis
    using peer_list_add_contract [of demo_store 1 demo_other] by auto
qed

section \<open>Exchanging peer lists\<close>

text \<open>
  \<open>create_hello_reply_message\<close> builds exactly one record per known peer other than the own
  addresses and the addressee, after the type and the number of records in network byte order; it
  gives no message exactly when that would not fit below 65536 bytes. Its error exit "Incorrect
  HELLO_REPLY message created" is never taken, since the counted and the written peers agree.
\<close>

theorem create_hello_reply_spec:
  assumes "wf_store (store w)" and "pl < num_lists (store w)"
  shows "create_hello_reply_message E pl src dest w =
    Inr (let ps = filter (\<lambda>p. p \<notin> set src \<and> p \<noteq> dest) (peer_lists (store w) ! pl) in
         if 9362 \<le> length ps then []
         else [HELLO_REPLY] @ net_bytes 2 (length ps) @ concat (map (peer_record (byte_order E)) ps), w)"
proof -
  have "kept_peers (store w) pl src dest = filter (\<lambda>p. p \<notin> set src \<and> p \<noteq> dest) (peer_lists (store w) ! pl)"
    by (auto simp: kept_peers_def keeps_peer_def intro: filter_cong)
  then show ?thesis
    by (simp add: create_hello_reply_eq [OF assms] hello_reply_bytes_def Let_def)
qed

theorem create_hello_reply_spec_witness:
  "create_hello_reply_message demo_env 0 [demo_self] demo_other demo_proc =
    Inr ([HELLO_REPLY] @ net_bytes 2 1 @ peer_record Little demo_peer, demo_proc)"
proof -
  have "wf_store (store demo_proc)" "0 < num_lists (store demo_proc)"
    using proc_okD [OF demo_proc_ok] by auto
  from create_hello_reply_spec [OF this, of demo_env "[demo_self]" demo_other] show ?thesis
    by (simp add: demo_defs)
qed

text \<open>
  C16: A node that greeted \<open>known_peer\<close> accepts the reply the other node builds: it stops waiting,
  sends CONNECT to exactly the peers announced, in their order, expects ACK_CONNECT from each of
  them, and adds the greeted node to its peers. (No announced peer has port 0 or is one of the two
  nodes, and the lists have room.)
\<close>

theorem hello_exchange:
  assumes ok: "proc_ok E w" "proc_ok E' a" and e: "byte_order E' = byte_order E"
    and msg: "create_hello_reply_message E' (peer_list (nd a)) (my_addresses (nd a)) dest a = Inr (msg, a')" "msg \<noteq> []"
    and wait: "waiting_for_hello_reply (nd w)" "sender = known_peer (nd w)" "sender \<notin> set (my_addresses (nd w))"
    and ps: "ps = kept_peers (store a) (peer_list (nd a)) (my_addresses (nd a)) dest"
      "\<forall>p \<in> set ps. sin_port p \<noteq> 0 \<and> p \<noteq> sender \<and> p \<notin> set (my_addresses (nd w))"
    and room: "card (peers_of (store w) (waiting_for_ack_connect (nd w)) \<union> set ps) \<le> 65535"
      "card (peers_of (store w) (peer_list (nd w))) < 65535"
  shows "\<exists>w'. handle_hello_reply E msg sender w = Inr w' \<and> nd w' = (nd w)\<lparr>waiting_for_hello_reply := False\<rparr> \<and>
    datagrams (outputs w') = datagrams (outputs w) @ map (\<lambda>p. ([CONNECT], p)) ps \<and>
    peers_of (store w') = (peers_of (store w))
      (waiting_for_ack_connect (nd w) := peers_of (store w) (waiting_for_ack_connect (nd w)) \<union> set ps,
       peer_list (nd w) := insert sender (peers_of (store w) (peer_list (nd w))))"
proof -
  have m: "msg = hello_reply_bytes (byte_order E) ps" and small: "length ps < 65536"
    using msg create_hello_reply_eq [OF proc_okD(1,3) [OF ok(2)]] by (auto simp: ps(1) e split: if_splits)
  have n: "unat (word_of_nat (length ps) :: 16 word) = length ps"
    using small by (simp add: unat_of_nat)
  let ?w = "upd_nd (\<lambda>n. n\<lparr>waiting_for_hello_reply := False\<rparr>) w"
  have okw: "proc_ok E ?w"
    using ok(1) by (simp add: proc_ok_def node_ok_def)
  have ne: "waiting_for_ack_connect (nd w) \<noteq> peer_list (nd w)"
    using ok(1) by (auto simp: proc_ok_def node_ok_def)
  obtain w1 where w1: "connect_peers_loop E msg 3 (length ps) ?w = Inr w1" "proc_ok E w1" "nd w1 = nd ?w"
      "datagrams (outputs w1) = datagrams (outputs w) @ map (\<lambda>p. ([CONNECT], p)) ps"
      "peers_of (store w1) = (peers_of (store w))(waiting_for_ack_connect (nd w) :=
        peers_of (store w) (waiting_for_ack_connect (nd w)) \<union> set ps)"
    using connect_peers_loop_eq [of msg "[HELLO_REPLY] @ net_bytes 2 (length ps)" E ps ?w] okw ps(2) room(1)
    by (auto simp: m hello_reply_bytes_def MAX_CAPACITY_def)
  obtain r st where st: "peer_list_add (store w1) (peer_list (nd w)) sender = Inr (r, st)"
      "peers_of st = (peers_of (store w1))(peer_list (nd w) := insert sender (peers_of (store w1) (peer_list (nd w))))"
    using peers.add_contains [OF proc_okD(1,3) [OF w1(2)], of sender] room(2) ne w1(3,5)
    by (auto simp: MAX_CAPACITY_def)
  have "handle_hello_reply E msg sender w = Inr (w1\<lparr>store := st\<rparr>)"
    using check_hello_reply_eq [OF small, of E sender w] wait ps(2) w1(1,3) st(1) small
    by (simp add: handle_hello_reply_def m [symmetric] Let_def n)
      (simp add: m read_count_hello_reply [simplified] n)
  then show ?thesis
    using w1 st(2) ne by auto
qed

definition demo_joiner :: proc where
  "demo_joiner = upd_nd (\<lambda>n. n\<lparr>waiting_for_hello_reply := True\<rparr>) demo_start"

definition demo_greeter :: proc where
  "demo_greeter = demo_proc\<lparr>nd := demo_node\<lparr>my_addresses := [demo_peer]\<rparr>,
     store := demo_store\<lparr>peer_lists := [[demo_other], [], []]\<rparr>\<rparr>"

lemma demo_joiner_ok: "proc_ok demo_env demo_joiner"
  using demo_sane
  by (auto simp: demo_joiner_def proc_ok_def node_ok_def own_free_def wf_store_def num_lists_def peers_of_def
      MAX_CAPACITY_def demo_start_def demo_data_def demo_node_def demo_proc_def)

lemma demo_greeter_ok: "proc_ok demo_env demo_greeter"
  using demo_sane
  by (auto simp: demo_greeter_def proc_ok_def node_ok_def own_free_def wf_store_def num_lists_def peers_of_def
      MAX_CAPACITY_def demo_other_def demo_peer_def demo_data_def demo_node_def demo_store_def demo_proc_def)

lemma demo_kept:
  "kept_peers (store demo_greeter) (peer_list (nd demo_greeter)) (my_addresses (nd demo_greeter)) demo_self
     = [demo_other]"
  by (simp add: kept_peers_def keeps_peer_def demo_greeter_def demo_defs)

lemma demo_reply:
  "create_hello_reply_message demo_env (peer_list (nd demo_greeter)) (my_addresses (nd demo_greeter)) demo_self
     demo_greeter = Inr ([2, 0, 1, 4, 3, 0, 0, 0, 30, 0], demo_greeter)"
  using create_hello_reply_eq [OF proc_okD(1,3) [OF demo_greeter_ok], of demo_env]
  by (simp add: demo_kept hello_reply_bytes_def net_bytes_def peer_record_def mem_bytes_def HELLO_REPLY_def)
    (simp add: demo_env_def demo_other_def to_le_numeral)

theorem hello_exchange_witness:
  "\<exists>w'. handle_hello_reply demo_env [2, 0, 1, 4, 3, 0, 0, 0, 30, 0] demo_peer demo_joiner = Inr w' \<and>
     datagrams (outputs w') = [([CONNECT], demo_other)]"
proof -
  have "known_peer (nd demo_joiner) = demo_peer" "waiting_for_hello_reply (nd demo_joiner)"
      "demo_peer \<notin> set (my_addresses (nd demo_joiner))" "datagrams (outputs demo_joiner) = []"
      "sin_port demo_other \<noteq> 0 \<and> demo_other \<noteq> demo_peer \<and> demo_other \<notin> set (my_addresses (nd demo_joiner))"
    by (simp_all add: demo_joiner_def demo_defs)
  moreover have "peers_of (store demo_joiner) (waiting_for_ack_connect (nd demo_joiner)) = {}"
      "peers_of (store demo_joiner) (peer_list (nd demo_joiner)) = {}"
    by (simp_all add: peers_of_def demo_joiner_def demo_start_def demo_proc_def demo_node_def demo_data_def)
  ultimately show ?thesis
    using hello_exchange [OF demo_joiner_ok demo_greeter_ok refl demo_reply, of demo_peer "[demo_other]"]
    by (auto simp: demo_kept)
qed

text \<open>
  CONNECT and ACK_CONNECT in terms of sets: a CONNECT of one byte from a foreign address is
  acknowledged and the sender becomes a known peer, unless 65535 other peers are known already, in
  which case (as for a wrong length or an own address) nothing but an error line happens.
\<close>

theorem connect_effect:
  assumes "proc_ok E w" and "sender \<notin> set (my_addresses (nd w))"
  shows "\<exists>w'. handle_connect E [CONNECT] sender w = Inr w' \<and> nd w' = nd w \<and>
    (if sender \<in> peers_of (store w) (peer_list (nd w)) \<or> card (peers_of (store w) (peer_list (nd w))) < 65535
     then datagrams (outputs w') = datagrams (outputs w) @ [([ACK_CONNECT], sender)] \<and>
          peers_of (store w') = (peers_of (store w))
            (peer_list (nd w) := insert sender (peers_of (store w) (peer_list (nd w))))
     else datagrams (outputs w') = datagrams (outputs w) \<and> store w' = store w)"
proof (cases "sender \<in> peers_of (store w) (peer_list (nd w)) \<or> card (peers_of (store w) (peer_list (nd w))) < 65535")
  case True
  obtain r st where st: "peer_list_add (store w) (peer_list (nd w)) sender = Inr (r, st)"
      "peers_of st = (peers_of (store w))(peer_list (nd w) := insert sender (peers_of (store w) (peer_list (nd w))))"
    using peers.add_contains [OF proc_okD(1,3) [OF assms(1)], of sender] True by (auto simp: MAX_CAPACITY_def)
  then have "handle_connect E [CONNECT] sender w =
      Inr ((send_message E ACK_CONNECT [ACK_CONNECT] sender w)\<lparr>store := st\<rparr>)"
    using True assms(2) proc_okD [OF assms(1)]
    by (auto simp: handle_connect_def full_eq contains_eq MAX_CAPACITY_def create_defs)
  with True st(2) show ?thesis by auto
next
  case False
  then have "handle_connect E [CONNECT] sender w = Inr (error_msg_hex [CONNECT] w)"
    using proc_okD [OF assms(1)] by (auto simp: handle_connect_def full_eq contains_eq MAX_CAPACITY_def)
  with False show ?thesis by (simp add: error_msg_hex_def)
qed

theorem connect_effect_witness:
  "\<exists>w'. handle_connect demo_env [CONNECT] demo_other demo_proc = Inr w' \<and>
    datagrams (outputs w') = [([ACK_CONNECT], demo_other)] \<and>
    peers_of (store w') 0 = {demo_other, demo_peer}"
proof -
  have "demo_other \<notin> set (my_addresses (nd demo_proc))" "peer_list (nd demo_proc) = 0"
      "datagrams (outputs demo_proc) = []" "peers_of (store demo_proc) 0 = {demo_peer}"
    by (simp_all add: demo_defs peers_of_def)
  with connect_effect [OF demo_proc_ok, of demo_other] show ?thesis by auto
qed

end
