(* ===== verification/Sync_Properties.thy ===== *)
theory Sync_Properties
  imports Node_Properties
begin

text \<open>
  The properties of clock synchronization: the offset, an exchange from SYNC_START to
  DELAY_RESPONSE, the rounds of SYNC_START, and four behaviours of the synchronization code that
  differ from what it means to do.
\<close>

section \<open>Clocks that never fail\<close>

definition ticks :: "env \<Rightarrow> (nat \<Rightarrow> timespec) \<Rightarrow> bool" where
  "ticks E t \<longleftrightarrow> (\<forall>k. clock_gettime E k = Some (t k))"

definition now_ms :: "(nat \<Rightarrow> timespec) \<Rightarrow> proc \<Rightarrow> nat \<Rightarrow> int" where
  "now_ms t w k = elapsed_ms (start_time w) (t (clock_reads w + k))"

lemma read_ticks:
  "ticks E t \<Longrightarrow> read_clock E w = Inr (t (clock_reads w), w\<lparr>clock_reads := Suc (clock_reads w)\<rparr>)"
  by (simp add: ticks_def read_clock_def)

lemma clock_ticks:
  assumes "ticks E t"
  shows "get_natural_clock E w = Inr (word_of_int (now_ms t w 0), w\<lparr>clock_reads := Suc (clock_reads w)\<rparr>)"
    and "set_event_in_x_seconds E x w =
      Inr ((t (clock_reads w))\<lparr>tv_sec := tv_sec (t (clock_reads w)) + x\<rparr>, w\<lparr>clock_reads := Suc (clock_reads w)\<rparr>)"
    and "now_is_after E d w = Inr (check_order d (t (clock_reads w)), w\<lparr>clock_reads := Suc (clock_reads w)\<rparr>)"
  using assms by (simp_all add: clock_defs read_ticks now_ms_def del: read_clock_def) 

lemma now_ms_range:
  assumes "ticks E t" and "proc_ok E w"
  shows "0 \<le> now_ms t w k" "now_ms t w k < 2 ^ 61"
  using assms by (auto simp: ticks_def proc_ok_def sane_clock_def now_ms_def)

lemma sint_word_small: "0 \<le> x \<Longrightarrow> x < 2 ^ 61 \<Longrightarrow> sint (word_of_int x :: 64 word) = x"
  by (simp add: signed_of_int signed_take_bit_int_eq_self_iff)

lemma sint_now:
  assumes "ticks E t" and "proc_ok E w"
  shows "sint (word_of_int (now_ms t w k) :: 64 word) = now_ms t w k"
  using now_ms_range [OF assms, of k] by (rule sint_word_small)

lemma sint_unat_small: "unat (x :: 64 word) < 2 ^ 61 \<Longrightarrow> sint x = int (unat x)"
  by (simp add: sint_small)

section \<open>The offset\<close>

text \<open>
  C26: The offset that \<open>update_offset\<close> computes from the four times of an exchange. Let the node's
  natural clock be ahead of the peer's clock by \<open>D\<close> ms, let SYNC_START travel for \<open>d1\<close> ms and
  DELAY_REQUEST for \<open>d2\<close> ms. Then the offset is \<open>D\<close> up to half the difference of the two delays
  and half a millisecond of rounding, and exactly \<open>D\<close> when the delays are equal.
\<close>

theorem update_offset_accuracy:
  assumes "\<forall>x \<in> {T1 n, T2 n, T3 n, T4 n}. \<bar>sint x\<bar> < 2 ^ 60"
    and "sint (T2 n) = sint (T1 n) + D + d1" and "sint (T4 n) = sint (T3 n) - D + d2"
  shows "\<exists>m. update_offset n = Inr m \<and> \<bar>2 * (offset_ms m - D)\<bar> \<le> \<bar>d1 - d2\<bar> + 1 \<and>
    (d1 = d2 \<longrightarrow> offset_ms m = D)"
proof -
  let ?x = "sint (T2 n) - sint (T1 n) + sint (T3 n) - sint (T4 n)"
  have x: "?x = 2 * D + (d1 - d2)"
    using assms(2,3) by simp
  have eq: "update_offset n = Inr (n\<lparr>offset_ms := ?x sdiv 2\<rparr>)"
    using assms(1) by (intro update_offset_eq) auto
  have "\<bar>2 * (?x sdiv 2) - ?x\<bar> \<le> 1"
    by (rule sdiv2_error)
  then have "\<bar>2 * (?x sdiv 2 - D)\<bar> \<le> \<bar>d1 - d2\<bar> + 1"
    unfolding x by arith
  moreover have "d1 = d2 \<longrightarrow> ?x sdiv 2 = D"
    unfolding x by simp
  ultimately show ?thesis
    using eq by auto
qed

theorem update_offset_accuracy_witness:
  "\<exists>m. update_offset (demo_data\<lparr>T1 := 1000, T2 := 5007, T3 := 5010, T4 := 1014\<rparr>) = Inr m \<and>
     \<bar>2 * (offset_ms m - 4000)\<bar> \<le> 4"
  using update_offset_accuracy [of "demo_data\<lparr>T1 := 1000, T2 := 5007, T3 := 5010, T4 := 1014\<rparr>" 4000 7 4]
  by auto

section \<open>An exchange\<close>

text \<open>
  The level and the timestamp of a SYNC_START, DELAY_RESPONSE or TIME message survive the wire
  between two machines of any byte orders: the receiver reads the level from byte 1 and exactly the
  sender's 64-bit time from the bytes after it.
\<close>

theorem sync_message_roundtrip:
  "nth_chk (create_sync_level_and_timestamp_message e ty level ts) 1 = Inr level \<and>
   read_timestamp e' (create_sync_level_and_timestamp_message e ty level ts) 2 = Inr ts"
  by (simp add: read_sync_timestamp)

lemma handle_sync_start_begins:
  assumes ok: "proc_ok E w" "ticks E t" and idle: "\<not> synchronizing (nd w)"
    and peer: "p \<in> peers_of (store w) (peer_list (nd w))" "p \<noteq> synchronized_peer (nd w)"
    and l: "unat l + 1 < unat (sync_level (nd w))"
  shows "\<exists>w1. handle_sync_start E (create_sync_start_message e l ts1) p w = Inr w1 \<and>
      nd w1 = (nd w)\<lparr>synchronizing := True, synchronizing_level := l, T1 := ts1,
        T2 := word_of_int (now_ms t w 0), T3 := word_of_int (now_ms t w 1), peer_to_sync := p,
        waiting_for_delay_response := waiting_for_delay_response (nd w1)\<rparr> \<and>
      datagrams (outputs w1) = datagrams (outputs w) @ [([DELAY_REQUEST], p)] \<and> store w1 = store w"
proof -
  have "unat (sync_level (nd w)) < 256"
    by (rule unat_byte_less)
  then have l254: "unat l < 254"
    using l by simp
  show ?thesis
    using ok(2) idle peer l l254 proc_okD(3) [OF ok(1)]
    by (auto simp: handle_sync_start_def clock_ticks check_sync_start_eq create_sync_start_message_def
        read_sync_timestamp start_synchronizing_def Let_def create_delay_request_message_def
        create_simple_message_def now_ms_def)
qed

lemma update_offset_small:
  assumes "\<forall>x \<in> {T1 n, T2 n, T3 n, T4 n}. 0 \<le> sint x \<and> sint x < 2 ^ 61"
  shows "update_offset n = Inr (n\<lparr>offset_ms := (sint (T2 n) - sint (T1 n) + sint (T3 n) - sint (T4 n)) sdiv 2\<rparr>)"
  using assms by (simp add: update_offset_def)

lemma handle_delay_response_ends:
  assumes t: "ticks E t" and busy: "synchronizing (nd w)" "peer_to_sync (nd w) = p" "synchronizing_level (nd w) = l"
    and ts: "T1 (nd w) \<le> ts2" "\<forall>x \<in> {T1 (nd w), T2 (nd w), T3 (nd w), ts2}. 0 \<le> sint x \<and> sint x < 2 ^ 61"
  shows "\<exists>w'. handle_delay_response E (create_delay_response_message e l ts2) p w = Inr w' \<and>
      sync_level (nd w') = l + 1 \<and> synchronized_peer (nd w') = p \<and> \<not> synchronizing (nd w') \<and>
      offset_ms (nd w') = (sint (T2 (nd w)) - sint (T1 (nd w)) + sint (T3 (nd w)) - sint ts2) sdiv 2 \<and>
      outputs w' = outputs w \<and> store w' = store w"
  using assms leD [OF ts(1)]
  by (simp add: handle_delay_response_def create_delay_response_message_def read_sync_timestamp
      finish_synchronizing_def Let_def update_offset_small clock_ticks)

text \<open>
  C12: A whole exchange. A node that is not synchronizing gets SYNC_START with level \<open>l\<close> and time
  \<open>ts1\<close> from a known peer it is not synchronized to, where \<open>l + 1\<close> is better than its own level,
  and then DELAY_RESPONSE with the same level and a time \<open>ts2 \<ge> ts1\<close>. It sends one DELAY_REQUEST to
  that peer and ends synchronized to it, at level \<open>l + 1\<close>, with the offset of the four times, and
  ready for the next exchange. The two machines may have different byte orders.
\<close>

theorem sync_exchange:
  assumes ok: "proc_ok E w" "ticks E t" and idle: "\<not> synchronizing (nd w)"
    and peer: "p \<in> peers_of (store w) (peer_list (nd w))" "p \<noteq> synchronized_peer (nd w)"
    and l: "unat l + 1 < unat (sync_level (nd w))"
    and ts: "ts1 \<le> ts2" "unat ts2 < 2 ^ 61"
  shows "\<exists>w'. bindR (handle_sync_start E (create_sync_start_message e l ts1) p w)
        (handle_delay_response E (create_delay_response_message e l ts2) p) = Inr w' \<and>
      sync_level (nd w') = l + 1 \<and> synchronized_peer (nd w') = p \<and> \<not> synchronizing (nd w') \<and>
      offset_ms (nd w') = (now_ms t w 0 - int (unat ts1) + now_ms t w 1 - int (unat ts2)) sdiv 2 \<and>
      datagrams (outputs w') = datagrams (outputs w) @ [([DELAY_REQUEST], p)] \<and> store w' = store w"
proof -
  have ts1: "unat ts1 < 2 ^ 61"
    using ts by (auto simp: word_le_nat_alt)
  obtain w1 where w1: "handle_sync_start E (create_sync_start_message e l ts1) p w = Inr w1"
      "nd w1 = (nd w)\<lparr>synchronizing := True, synchronizing_level := l, T1 := ts1,
        T2 := word_of_int (now_ms t w 0), T3 := word_of_int (now_ms t w 1), peer_to_sync := p,
        waiting_for_delay_response := waiting_for_delay_response (nd w1)\<rparr>"
      "datagrams (outputs w1) = datagrams (outputs w) @ [([DELAY_REQUEST], p)]" "store w1 = store w"
    using handle_sync_start_begins [OF ok idle peer l] by blast
  have f: "synchronizing (nd w1)" "synchronizing_level (nd w1) = l" "peer_to_sync (nd w1) = p"
      "T1 (nd w1) = ts1" "T2 (nd w1) = word_of_int (now_ms t w 0)" "T3 (nd w1) = word_of_int (now_ms t w 1)"
    by (subst w1(2); simp)+
  note s = sint_now [OF ok(2,1)] now_ms_range [OF ok(2,1)] sint_unat_small [OF ts1] sint_unat_small [OF ts(2)]
  have "\<forall>x \<in> {T1 (nd w1), T2 (nd w1), T3 (nd w1), ts2}. 0 \<le> sint x \<and> sint x < 2 ^ 61"
    using s uint_less_of_unat [OF ts(2)] uint_less_of_unat [OF ts1] by (simp add: f)
  from handle_delay_response_ends [OF ok(2) f(1,3,2) _ this, of e] show ?thesis
    using w1(1,3,4) ts(1) by (auto simp add: f s)
qed

definition demo_clock :: env where
  "demo_clock = demo_env\<lparr>clock_gettime := (\<lambda>k. Some \<lparr>tv_sec = 100 + int k mod 8, tv_nsec = 0\<rparr>)\<rparr>"

lemma demo_ticks: "ticks demo_clock (\<lambda>k. \<lparr>tv_sec = 100 + int k mod 8, tv_nsec = 0\<rparr>)"
  by (simp add: ticks_def demo_clock_def)

lemma demo_clock_ok: "proc_ok demo_clock demo_proc"
proof -
  have "(int k mod 8) * 1000 < 2305843009213693952" for k :: nat
    by (rule le_less_trans [of _ "7 * 1000"]) simp_all
  then have "sane_clock demo_clock (start_time demo_proc)"
    by (auto simp: sane_clock_def demo_clock_def demo_proc_def elapsed_ms_def)
  with demo_proc_ok show ?thesis by (simp add: proc_ok_def)
qed

theorem sync_exchange_witness:
  "\<exists>w'. bindR (handle_sync_start demo_clock (create_sync_start_message Big 4 700) demo_peer demo_proc)
        (handle_delay_response demo_clock (create_delay_response_message Big 4 900) demo_peer) = Inr w' \<and>
      sync_level (nd w') = 5 \<and> offset_ms (nd w') = 700"
  using sync_exchange [OF demo_clock_ok demo_ticks, of demo_peer 4 700 900 Big]
  by (auto simp: now_ms_def demo_defs peers_of_def elapsed_ms_def signed_divide_int_def)

section \<open>Rounds of SYNC_START\<close>

lemma get_clock_not_exit: "ticks E t \<Longrightarrow> get_clock E w \<noteq> Inl Exit"
  by (simp add: get_clock_def clock_ticks int64_def Let_def)

lemma nth_chk_not_exit: "nth_chk xs i \<noteq> Inl Exit"
  by (simp add: nth_chk_def)

lemma iterator_not_exit:
  "peer_list_iterator_get_peer st i \<noteq> Inl Exit" "peer_list_iterator_next st i \<noteq> Inl Exit"
  by (auto simp: peer_list_iterator_get_peer_def peer_list_iterator_next_def bindR_eq_Inl nth_chk_not_exit
      split: peer_iter.splits)

lemma sync_start_loop_not_exit: "ticks E t \<Longrightarrow> sync_start_loop E n w \<noteq> Inl Exit"
  by (induction n arbitrary: w)
    (auto simp: bindR_eq_Inl iterator_not_exit get_clock_not_exit Let_def split: if_splits)

lemma safeR_Inr: "safeR P r \<Longrightarrow> r \<noteq> Inl Exit \<Longrightarrow> \<exists>x. r = Inr x \<and> P x"
  by (cases r) auto

text \<open>One pass over the peers, in their order, and the copy of the list of the peers asked.\<close>

lemma sync_start_peers_all:
  assumes ok: "proc_ok E w" "ticks E t"
  defines "xs \<equiv> peer_lists (store w) ! peer_list (nd w)"
  shows "\<exists>w' ds. sync_start_peers E w = Inr w' \<and> nd w' = nd w \<and>
    datagrams (outputs w') = datagrams (outputs w) @ ds \<and>
    sync_starts (byte_order E) (sync_level (nd w)) xs ds \<and>
    (xs \<noteq> [] \<longrightarrow> peers_of (store w') (asked_to_synchronize (nd w)) = set xs) \<and>
    peers_of (store w') (peer_list (nd w)) = set xs"
proof (cases "xs = []")
  case True
  then show ?thesis
    using iterator_begin_eq [OF ok(1)] by (auto simp: sync_start_peers_def xs_def sync_starts_def peers_of_def)
next
  case False
  let ?w = "w\<lparr>store := (store w)\<lparr>peer_list_iterators :=
    (peer_list_iterators (store w))[peer_list (nd w) := set_begin xs]\<rparr>\<rparr>"
  have okw: "proc_ok E ?w"
    using ok(1) by (simp add: proc_ok_def node_ok_iters)
  have "safeR (\<lambda>w'. proc_ok E w' \<and> nd w' = nd ?w \<and> peer_lists (store w') = peer_lists (store ?w) \<and>
      (\<exists>ds. datagrams (outputs w') = datagrams (outputs ?w) @ ds \<and>
        sync_starts (byte_order E) (sync_level (nd ?w)) (drop 0 xs) ds))
    (sync_start_loop E (length xs - 0) ?w)"
    using False iterator_begin_eq(2) [OF ok(1)]
    by (intro sync_start_loop_all [OF okw]) (simp_all add: xs_def set_begin_nth)
  then obtain v ds where v: "sync_start_loop E (length xs) ?w = Inr v" "proc_ok E v" "nd v = nd w"
      "peer_lists (store v) = peer_lists (store w)" "datagrams (outputs v) = datagrams (outputs w) @ ds"
      "sync_starts (byte_order E) (sync_level (nd w)) xs ds"
    using safeR_Inr [OF _ sync_start_loop_not_exit [OF ok(2)]] by fastforce
  obtain st where st: "peer_list_cpy (store v) (peer_list (nd v)) (asked_to_synchronize (nd v)) = Inr st"
      "peers_of st = (peers_of (store v))(asked_to_synchronize (nd v) := peers_of (store v) (peer_list (nd v)))"
    using cpy_result [OF proc_okD(1,3,5) [OF v(2)]] by metis
  have "sync_start_peers E w = Inr (v\<lparr>store := st\<rparr>)"
    using iterator_begin_eq(1) [OF ok(1)] v(1) st(1) False
    by (simp add: sync_start_peers_def xs_def [symmetric])
  moreover have "peers_of (store v) (peer_list (nd w)) = set xs"
    by (simp add: peers_of_def v(4) xs_def)
  ultimately show ?thesis
    using v st(2) by (intro exI [of _ "v\<lparr>store := st\<rparr>"] exI [of _ ds]) simp
qed

text \<open>
  C25: A round of SYNC_START. When a node that others may synchronize to (level below 254) finds its
  deadline passed, it sends exactly one SYNC_START with its level to every known peer, in the order
  of the list, remembers exactly these peers as the ones that may answer, keeps its list of peers,
  notes the time of the round and sets the next round 5 seconds after it. Before the deadline, or at
  level 254 or 255, it sends nothing. The loop over the peers ends.
\<close>

theorem sync_start_round:
  assumes ok: "proc_ok E w" "ticks E t"
  defines "xs \<equiv> peer_lists (store w) ! peer_list (nd w)"
    and "due \<equiv> unat (sync_level (nd w)) < 254 \<and> check_order (next_sync_start (nd w)) (t (clock_reads w))"
  shows "\<exists>w' ds. send_sync_starts E w = Inr w' \<and> datagrams (outputs w') = datagrams (outputs w) @ ds \<and>
    (if due then
       sync_starts (byte_order E) (sync_level (nd w)) xs ds \<and>
       (xs \<noteq> [] \<longrightarrow> peers_of (store w') (asked_to_synchronize (nd w)) = set xs) \<and>
       peers_of (store w') (peer_list (nd w)) = set xs \<and>
       last_sync_start (nd w') = word_of_int (elapsed_ms (start_time w') (t (clock_reads w' - 2))) \<and>
       next_sync_start (nd w') = (t (clock_reads w' - 1))\<lparr>tv_sec := tv_sec (t (clock_reads w' - 1)) + 5\<rparr>
     else ds = [] \<and> nd w' = nd w \<and> store w' = store w)"
proof (cases due)
  case True
  let ?w = "w\<lparr>clock_reads := Suc (clock_reads w)\<rparr>"
  obtain v ds where v: "sync_start_peers E ?w = Inr v" "nd v = nd w"
      "datagrams (outputs v) = datagrams (outputs w) @ ds"
      "sync_starts (byte_order E) (sync_level (nd w)) xs ds"
      "xs \<noteq> [] \<longrightarrow> peers_of (store v) (asked_to_synchronize (nd w)) = set xs"
      "peers_of (store v) (peer_list (nd w)) = set xs"
    using sync_start_peers_all [of E ?w t] ok by (auto simp: xs_def)
  show ?thesis
    using True v ok(2)
    by (auto simp: due_def send_sync_starts_def note_sync_start_def clock_ticks Let_def SYNC_START_DELAY_def now_ms_def)
next
  case False
  then show ?thesis
    using ok(2) by (auto simp: due_def send_sync_starts_def clock_ticks)
qed

theorem sync_start_round_witness:
  "\<exists>w' ds. send_sync_starts demo_clock (upd_nd (\<lambda>n. n\<lparr>sync_level := 0\<rparr>) demo_proc) = Inr w' \<and>
    datagrams (outputs w') = ds \<and> sync_starts Little 0 [demo_peer] ds \<and>
    peers_of (store w') 2 = {demo_peer}"
proof -
  let ?w = "upd_nd (\<lambda>n. n\<lparr>sync_level := 0\<rparr>) demo_proc"
  have "proc_ok demo_clock ?w"
    using demo_clock_ok by (simp add: proc_ok_def)
  from sync_start_round [OF this demo_ticks] show ?thesis
    by (auto simp: demo_clock_def demo_defs check_order_def upd_nd_def)
qed

text \<open>
  A node that is synchronized to a peer (a level between 1 and 254) and whose check deadline has
  passed without a new SYNC_START becomes unsynchronized with offset 0 and sends no SYNC_START in
  that call of \<open>check_and_handle_timers\<close>; its lists stay as they are.
\<close>

theorem sync_timeout_unsynchronizes:
  assumes "ticks E t" and "sync_level (nd w) \<notin> {CLOCK_LEADER, CLOCK_UNSYNCHRONIZED}"
    and "check_order (next_sync_check (nd w)) (t (clock_reads w))"
  shows "\<exists>w'. check_and_handle_timers E w = Inr w' \<and>
    nd w' = (nd w)\<lparr>sync_level := 255, offset_ms := 0\<rparr> \<and> store w' = store w \<and> outputs w' = outputs w"
proof -
  have "(255 :: byte) = - 1" by simp
  then have "0 < sync_level (nd w)" "sync_level (nd w) < 255"
    using assms(2) word_order.not_eq_extremum [of "sync_level (nd w)"] word_gt_0 [of "sync_level (nd w)"]
    by (auto simp only: CLOCK_LEADER_def CLOCK_UNSYNCHRONIZED_def insert_iff empty_iff)
  then show ?thesis
    using assms(1,3)
    by (simp add: check_and_handle_timers_def check_sync_timeout_def send_sync_starts_def clock_ticks
        CLOCK_LEADER_def CLOCK_UNSYNCHRONIZED_def)
qed

theorem sync_timeout_unsynchronizes_witness:
  "\<exists>w'. check_and_handle_timers demo_clock (upd_nd (\<lambda>n. n\<lparr>sync_level := 7, offset_ms := 90\<rparr>) demo_proc) = Inr w' \<and>
    sync_level (nd w') = 255 \<and> offset_ms (nd w') = 0"
  using sync_timeout_unsynchronizes [OF demo_ticks, of "upd_nd (\<lambda>n. n\<lparr>sync_level := 7, offset_ms := 90\<rparr>) demo_proc"]
  by (auto simp: demo_defs check_order_def CLOCK_LEADER_def CLOCK_UNSYNCHRONIZED_def)

section \<open>Messages that are rejected\<close>

text \<open>
  The sizes the handlers require. The size of a HELLO_REPLY is given by the count that it contains, in
  network byte order.
\<close>

definition wrong_size :: "byte list \<Rightarrow> bool" where
  "wrong_size buf =
     (let ty = hd buf; n = length buf in
      if ty \<in> {HELLO, CONNECT, ACK_CONNECT, DELAY_REQUEST, GET_TIME} then n \<noteq> 1
      else if ty \<in> {SYNC_START, DELAY_RESPONSE} then n \<noteq> 10
      else if ty = LEADER then n \<noteq> 2
      else if ty = HELLO_REPLY then n < 3 \<or> n \<noteq> 3 + 7 * (256 * unat (buf ! 1) + unat (buf ! 2))
      else True)"

definition rejected :: "byte list \<Rightarrow> proc \<Rightarrow> proc \<Rightarrow> bool" where
  "rejected buf w w' \<longleftrightarrow> nd w' = nd w \<and> store w' = store w \<and>
     outputs w' = outputs w @ [Stderr (''ERROR MSG '' @ concat (map hex_byte (take 10 buf)))]"

lemma rejected_error_msg [simp]:
  "rejected buf w (error_msg_hex buf w)" "rejected buf w (error_msg_hex buf (w\<lparr>clock_reads := k\<rparr>))"
  by (simp_all add: rejected_def error_msg_hex_def)

lemma unat_ntohs: "unat (ntohs e (word_of_nat (mem_value e [a, b]))) = 256 * unat a + unat b"
proof -
  let ?w = "word_of_nat (256 * unat a + unat b) :: 16 word"
  have ab: "unat a < 256" "unat b < 256" using unsigned_less [where 'a = nat, of a] unsigned_less [where 'a = nat, of b] by simp_all
  then have w: "unat ?w = 256 * unat a + unat b" unfolding unat_of_nat using ab by simp
  then have "net_bytes 2 (unat ?w) = [a, b]"
    using ab by (simp add: net_bytes_def numeral_2_eq_2 div_mult_self3)
  then show ?thesis using htons_swap [of e ?w] w by simp
qed

lemma wrong_size_hello_reply:
  assumes "length buf < 3 \<or> length buf \<noteq> 3 + 7 * (256 * unat (buf ! 1) + unat (buf ! 2))"
  shows "check_hello_reply E buf sender w = Inr False"
proof (cases "length buf < 3")
  case False
  then have "take 2 (drop 1 buf) = [buf ! 1, buf ! 2]"
    by (simp add: take_Suc_conv_app_nth numeral_2_eq_2)
  then show ?thesis
    using assms False by (simp add: check_hello_reply_def read_count_def read_bytes_def unat_ntohs mult.commute)
qed (simp add: check_hello_reply_def)

text \<open>
  C27: Datagrams of an unknown type or of the wrong size are rejected, also a HELLO_REPLY whose size does not
  agree with its count: the node, its lists and its peers do not notice them, and the only trace is one line
  "ERROR MSG" with the first ten bytes in hexadecimal. (Should the clock fail while a time is taken,
  the process exits.)
\<close>

theorem malformed_rejected:
  assumes "proc_ok E w" and "buf \<noteq> []" and "wrong_size buf"
  shows "safeR (rejected buf w) (handle_message E buf sender w)"
proof (cases "hd buf \<in> {DELAY_REQUEST, SYNC_START}")
  case True
  have "safeR (rejected buf w) (handle_delay_request E buf sender w)" if "length buf \<noteq> 1"
    using that proc_okD(2) [OF assms(1)] assms(1)
    by (auto simp: handle_delay_request_def intro!: safe_get_clock safe_natural_clock)
  moreover have "safeR (rejected buf w) (handle_sync_start E buf sender w)" if "length buf \<noteq> 10"
    using that proc_okD(2,3) [OF assms(1)]
    by (auto simp: handle_sync_start_def check_sync_start_def intro!: safe_natural_clock)
  ultimately show ?thesis
    using True assms(2,3) by (auto simp: handle_message_def wrong_size_def hd_conv_nth msg_codes Let_def)
next
  case False
  then show ?thesis
    using assms(2,3) wrong_size_hello_reply [of buf E sender w]
    by (auto simp: handle_message_def wrong_size_def hd_conv_nth msg_codes Let_def handle_hello_def
        handle_hello_reply_def handle_connect_def handle_ack_connect_def handle_delay_response_def
        handle_leader_def handle_get_time_def split: if_splits)
qed

theorem malformed_rejected_witness:
  "safeR (rejected [HELLO_REPLY, 0, 1] demo_proc) (handle_message demo_env [HELLO_REPLY, 0, 1] demo_peer demo_proc)"
  by (rule malformed_rejected [OF demo_proc_ok]) (simp_all add: wrong_size_def msg_codes)

text \<open>
  Answers to questions that were not asked are rejected in the same way, whatever they contain: a
  HELLO_REPLY while none is awaited or from another address than the greeted one, an ACK_CONNECT
  from an address that was sent no CONNECT, a SYNC_START from an unknown peer, and a DELAY_RESPONSE
  outside an exchange or from another address than the peer of the exchange.
\<close>

theorem unsolicited_rejected:
  assumes "proc_ok E w" and "buf \<noteq> []"
    and "(hd buf = HELLO_REPLY \<and> \<not> (waiting_for_hello_reply (nd w) \<and> sender = known_peer (nd w))) \<or>
      (hd buf = ACK_CONNECT \<and> sender \<notin> peers_of (store w) (waiting_for_ack_connect (nd w))) \<or>
      (hd buf = SYNC_START \<and> sender \<notin> peers_of (store w) (peer_list (nd w))) \<or>
      (hd buf = DELAY_RESPONSE \<and> \<not> (synchronizing (nd w) \<and> sender = peer_to_sync (nd w)))"
  shows "safeR (rejected buf w) (handle_message E buf sender w)"
proof -
  have "safeR (rejected buf w) (handle_sync_start E buf sender w)"
    if "sender \<notin> peers_of (store w) (peer_list (nd w))"
    using that proc_okD(2,3) [OF assms(1)]
    by (auto simp: handle_sync_start_def check_sync_start_eq intro!: safe_natural_clock)
  then show ?thesis
    using assms(2,3) proc_okD [OF assms(1)]
    by (elim disjE) (auto simp: handle_message_def hd_conv_nth msg_codes handle_hello_reply_def
        check_hello_reply_def handle_ack_connect_def contains_eq handle_delay_response_def)
qed

theorem unsolicited_rejected_witness:
  "safeR (rejected [ACK_CONNECT] demo_proc) (handle_message demo_env [ACK_CONNECT] demo_other demo_proc)"
  by (rule unsolicited_rejected [OF demo_proc_ok]) (simp_all add: demo_defs peers_of_def)

text \<open>
  An expected ACK_CONNECT moves its sender from the pending connections to the known peers
  (unless 65535 others are known) and leaves every other list alone.
\<close>

theorem ack_connect_moves:
  assumes ok: "proc_ok E w" and "sender \<in> peers_of (store w) (waiting_for_ack_connect (nd w))"
    and room: "sender \<in> peers_of (store w) (peer_list (nd w)) \<or> card (peers_of (store w) (peer_list (nd w))) < 65535"
  shows "\<exists>w'. handle_message E [ACK_CONNECT] sender w = Inr w' \<and> nd w' = nd w \<and> outputs w' = outputs w \<and>
    peers_of (store w') = (peers_of (store w))
      (waiting_for_ack_connect (nd w) := peers_of (store w) (waiting_for_ack_connect (nd w)) - {sender},
       peer_list (nd w) := insert sender (peers_of (store w) (peer_list (nd w))))"
proof -
  have foreign: "sender \<notin> set (my_addresses (nd w))" and ne: "waiting_for_ack_connect (nd w) \<noteq> peer_list (nd w)"
    using ok assms(2) by (auto simp: proc_ok_def node_ok_def own_free_def)
  obtain s1 r s2 where "peer_list_remove (store w) (waiting_for_ack_connect (nd w)) sender = Inr s1"
      "peer_list_add s1 (peer_list (nd w)) sender = Inr (r, s2)"
      "peers_of s2 = (peers_of (store w))
        (waiting_for_ack_connect (nd w) := peers_of (store w) (waiting_for_ack_connect (nd w)) - {sender},
         peer_list (nd w) := insert sender (peers_of (store w) (peer_list (nd w))))"
    using peers.remove_add_moves [OF proc_okD(1,4,3) [OF ok] ne, of sender] room by (auto simp: MAX_CAPACITY_def)
  then show ?thesis
    using room assms(2) foreign proc_okD [OF ok]
    by (auto simp: handle_message_def msg_codes handle_ack_connect_def contains_eq full_eq MAX_CAPACITY_def)
qed

definition demo_pending :: proc where
  "demo_pending = demo_proc\<lparr>store := \<lparr>peer_lists = [[demo_peer], [demo_other], []],
     peer_list_iterators = [It_end, It_end, It_end]\<rparr>\<rparr>"

lemma demo_pending_ok: "proc_ok demo_env demo_pending"
  using demo_sane
  by (auto simp: demo_pending_def proc_ok_def node_ok_def own_free_def wf_store_def num_lists_def peers_of_def
      MAX_CAPACITY_def demo_self_def demo_peer_def demo_other_def demo_data_def demo_node_def demo_proc_def)

theorem ack_connect_moves_witness:
  "\<exists>w'. handle_message demo_env [ACK_CONNECT] demo_other demo_pending = Inr w' \<and>
    peers_of (store w') 0 = {demo_other, demo_peer} \<and> peers_of (store w') 1 = {}"
proof -
  have "peer_list (nd demo_pending) = 0" "waiting_for_ack_connect (nd demo_pending) = 1"
      "peers_of (store demo_pending) 0 = {demo_peer}" "peers_of (store demo_pending) 1 = {demo_other}"
    by (simp_all add: demo_pending_def demo_proc_def demo_node_def demo_data_def peers_of_def)
  with ack_connect_moves [OF demo_pending_ok, of demo_other] show ?thesis by auto
qed

section \<open>Behaviours that differ from what the code means\<close>

lemma get_clock_ticks:
  assumes "proc_ok E w" and "ticks E t"
  shows "\<exists>ts. get_clock E w = Inr (ts, w\<lparr>clock_reads := Suc (clock_reads w)\<rparr>)"
  using safeR_Inr [OF safe_get_clock [OF assms(1), of "\<lambda>(ts, w'). w' = w\<lparr>clock_reads := Suc (clock_reads w)\<rparr>"]
      get_clock_not_exit [OF assms(2)]] by auto

lemma word_of_int_less_small:
  "0 \<le> x \<Longrightarrow> x < 2 ^ 62 \<Longrightarrow> 0 \<le> y \<Longrightarrow> y < 2 ^ 62 \<Longrightarrow> (word_of_int x :: 64 word) < word_of_int y \<longleftrightarrow> x < y"
  by (simp add: word_less_def uint_word_of_int)

text \<open>
  C30: \<open>DELAY_RESPONSE_TIME\<close> is 5 and means seconds in \<open>set_event_in_x_seconds\<close>, but
  \<open>handle_delay_request\<close> adds it to a time in milliseconds: a DELAY_REQUEST from a peer that was
  asked is answered only if it comes at most 5 ms after the SYNC_START round, and is rejected as
  late after that.
\<close>

theorem delay_request_window_is_5_ms:
  assumes ok: "proc_ok E w" "ticks E t" and asked: "p \<in> peers_of (store w) (asked_to_synchronize (nd w))"
    and last: "last_sync_start (nd w) = word_of_int s" "0 \<le> s" "s < 2 ^ 61"
  shows "\<exists>w'. handle_delay_request E [DELAY_REQUEST] p w = Inr w' \<and>
    (if now_ms t w 1 \<le> s + 5
     then \<exists>ts. datagrams (outputs w') = datagrams (outputs w) @
       [(create_delay_response_message (byte_order E) (sync_level (nd w)) ts, p)]
     else rejected [DELAY_REQUEST] w w')"
proof -
  obtain ts where ts: "get_clock E w = Inr (ts, w\<lparr>clock_reads := Suc (clock_reads w)\<rparr>)"
    using get_clock_ticks [OF ok] by blast
  have "last_sync_start (nd w) + word_of_int DELAY_RESPONSE_TIME < word_of_int (now_ms t w 1) \<longleftrightarrow> s + 5 < now_ms t w 1"
    using word_of_int_less_small [of "s + 5" "now_ms t w 1"] now_ms_range [OF ok(2,1), of 1] last
    by (simp add: DELAY_RESPONSE_TIME_def)
  then show ?thesis
    using asked proc_okD(5) [OF ok(1)]
    by (auto simp: handle_delay_request_def ts clock_ticks [OF ok(2)] contains_eq now_ms_def)
qed

theorem delay_request_window_is_5_ms_witness:
  "\<exists>w'. handle_delay_request demo_clock [DELAY_REQUEST] demo_peer
      (demo_proc\<lparr>store := demo_store\<lparr>peer_lists := [[demo_peer], [], [demo_peer]]\<rparr>\<rparr>) = Inr w' \<and>
    datagrams (outputs w') = []"
proof -
  let ?w = "demo_proc\<lparr>store := demo_store\<lparr>peer_lists := [[demo_peer], [], [demo_peer]]\<rparr>\<rparr>"
  have "proc_ok demo_clock ?w"
    using demo_clock_ok
    by (auto simp: proc_ok_def node_ok_def own_free_def wf_store_def num_lists_def peers_of_def
      MAX_CAPACITY_def demo_self_def demo_peer_def demo_data_def demo_node_def demo_store_def demo_proc_def)
  moreover have "now_ms (\<lambda>k. \<lparr>tv_sec = 100 + int k mod 8, tv_nsec = 0\<rparr>) ?w 1 = 2000"
    by (simp add: now_ms_def elapsed_ms_def demo_proc_def)
  moreover have "demo_peer \<in> peers_of (store ?w) (asked_to_synchronize (nd ?w))" "last_sync_start (nd ?w) = word_of_int 0"
      "outputs ?w = []"
    by (simp_all add: demo_defs peers_of_def)
  ultimately show ?thesis
    using delay_request_window_is_5_ms [of demo_clock ?w "\<lambda>k. \<lparr>tv_sec = 100 + int k mod 8, tv_nsec = 0\<rparr>" demo_peer 0]
      demo_ticks by (auto simp: rejected_def)
qed

text \<open>
  C31: A node leads (LEADER 0) but was synchronized to \<open>p\<close> before: \<open>handle_leader\<close> keeps
  \<open>synchronized_peer\<close>, so the next SYNC_START of \<open>p\<close>, at whatever level below 254, makes the
  leader unsynchronized.
\<close>

theorem leader_demoted_by_former_peer:
  assumes ok: "proc_ok E w" "ticks E t" and idle: "\<not> synchronizing (nd w)"
    and peer: "p \<in> peers_of (store w) (peer_list (nd w))" "p = synchronized_peer (nd w)" and l: "unat l < 254"
  shows "\<exists>w1 w2. handle_leader E [LEADER, 0] q w = Inr w1 \<and> sync_level (nd w1) = CLOCK_LEADER \<and>
    handle_sync_start E (create_sync_start_message e l ts) p w1 = Inr w2 \<and>
    sync_level (nd w2) = CLOCK_UNSYNCHRONIZED"
  using ok(2) idle peer l proc_okD(3) [OF ok(1)]
  by (simp add: handle_leader_def CLOCK_LEADER_def CLOCK_UNSYNCHRONIZED_def clock_ticks Let_def
      handle_sync_start_def check_sync_start_eq create_sync_start_message_def read_sync_timestamp)

theorem leader_demoted_by_former_peer_witness:
  "\<exists>w1 w2. handle_leader demo_clock [LEADER, 0] demo_other (upd_nd (\<lambda>n. n\<lparr>synchronized_peer := demo_peer\<rparr>) demo_proc)
      = Inr w1 \<and> sync_level (nd w1) = CLOCK_LEADER \<and>
    handle_sync_start demo_clock (create_sync_start_message Little 9 0) demo_peer w1 = Inr w2 \<and>
    sync_level (nd w2) = CLOCK_UNSYNCHRONIZED"
proof (rule leader_demoted_by_former_peer [OF _ demo_ticks])
  show "proc_ok demo_clock (upd_nd (\<lambda>n. n\<lparr>synchronized_peer := demo_peer\<rparr>) demo_proc)"
    using demo_clock_ok by (simp add: proc_ok_def)
qed (simp_all add: demo_defs peers_of_def)

text \<open>
  C32: The timestamps of a peer enter \<open>update_offset\<close> unchecked: a peer that answers with the
  timestamp \<open>2^63\<close> in both of its messages drives the signed difference \<open>T2 - T1\<close> out of
  \<open>int64_t\<close>, which is undefined behaviour.
\<close>

theorem offset_overflow:
  assumes ok: "proc_ok E w" "ticks E t" and idle: "\<not> synchronizing (nd w)"
    and peer: "p \<in> peers_of (store w) (peer_list (nd w))" "p \<noteq> synchronized_peer (nd w)"
    and l: "unat l + 1 < unat (sync_level (nd w))"
  shows "bindR (handle_sync_start E (create_sync_start_message e l (2 ^ 63)) p w)
        (handle_delay_response E (create_delay_response_message e l (2 ^ 63)) p) = Inl Undefined"
proof -
  obtain w1 where w1: "handle_sync_start E (create_sync_start_message e l (2 ^ 63)) p w = Inr w1"
      "nd w1 = (nd w)\<lparr>synchronizing := True, synchronizing_level := l, T1 := 2 ^ 63,
        T2 := word_of_int (now_ms t w 0), T3 := word_of_int (now_ms t w 1), peer_to_sync := p,
        waiting_for_delay_response := waiting_for_delay_response (nd w1)\<rparr>"
    using handle_sync_start_begins [OF ok idle peer l] by blast
  have f: "synchronizing (nd w1)" "synchronizing_level (nd w1) = l" "peer_to_sync (nd w1) = p"
      "T1 (nd w1) = 2 ^ 63" "T2 (nd w1) = word_of_int (now_ms t w 0)"
    by (subst w1(2); simp)+
  have "sint (2 ^ 63 :: 64 word) = - (2 ^ 63)" by simp
  then have "update_offset n = Inl Undefined"
    if "T1 n = 2 ^ 63" "T2 n = word_of_int (now_ms t w 0)" for n
    using that now_ms_range [OF ok(2,1), of 0] sint_now [OF ok(2,1), of 0]
    by (simp add: update_offset_def int64_def)
  then show ?thesis
    using w1(1) f ok(2)
    by (simp add: handle_delay_response_def create_delay_response_message_def read_sync_timestamp
      finish_synchronizing_def Let_def clock_ticks)
qed

theorem offset_overflow_witness:
  "bindR (handle_sync_start demo_clock (create_sync_start_message Little 4 (2 ^ 63)) demo_peer demo_proc)
     (handle_delay_response demo_clock (create_delay_response_message Little 4 (2 ^ 63)) demo_peer) = Inl Undefined"
  by (rule offset_overflow [OF demo_clock_ok demo_ticks]) (simp_all add: demo_defs peers_of_def)

text \<open>Operations that leave an exchange in progress alone.\<close>

definition in_exchange :: "sockaddr_in \<Rightarrow> proc \<Rightarrow> bool" where
  "in_exchange p w \<longleftrightarrow> synchronizing (nd w) \<and> peer_to_sync (nd w) = p"

lemma ok_read_clock: "(\<And>t w'. nd w' = nd w \<Longrightarrow> P (t, w')) \<Longrightarrow> okR P (read_clock E w)"
  by (simp add: read_clock_def split: option.split)

lemma ok_natural_clock: "(\<And>t w'. nd w' = nd w \<Longrightarrow> P (t, w')) \<Longrightarrow> okR P (get_natural_clock E w)"
  by (simp add: get_natural_clock_def ok_read_clock)

lemma ok_get_clock: "(\<And>t w'. nd w' = nd w \<Longrightarrow> P (t, w')) \<Longrightarrow> okR P (get_clock E w)"
  by (auto simp: get_clock_def Let_def intro!: ok_natural_clock okR_all [of _ "int64 _"])

lemma ok_set_event: "(\<And>t w'. nd w' = nd w \<Longrightarrow> P (t, w')) \<Longrightarrow> okR P (set_event_in_x_seconds E x w)"
  by (simp add: set_event_in_x_seconds_def ok_read_clock)

lemma ok_now_is_after: "(\<And>t w'. nd w' = nd w \<Longrightarrow> P (t, w')) \<Longrightarrow> okR P (now_is_after E d w)"
  by (simp add: now_is_after_def ok_read_clock)

lemmas ok_clocks = ok_natural_clock ok_get_clock ok_set_event ok_now_is_after

lemmas ok_reads =
  okR_all [of _ "peer_list_add _ _ _"] okR_all [of _ "peer_list_remove _ _ _"]
  okR_all [of _ "peer_list_contains _ _ _"] okR_all [of _ "peer_list_full _ _"]
  okR_all [of _ "peer_list_cpy _ _ _"] okR_all [of _ "peer_list_iterator_begin _ _"]
  okR_all [of _ "peer_list_iterator_next _ _"] okR_all [of _ "peer_list_iterator_get_peer _ _"]
  okR_all [of _ "peer_list_count_excl _ _ _ _"] okR_all [of _ "peer_list_write_to_buf_excl _ _ _ _ _ _"]
  okR_all [of _ "nth_chk _ _"] okR_all [of _ "read_timestamp _ _ _"] okR_all [of _ "read_count _ _ _"]
  okR_all [of _ "read_peer _ _ _"] okR_all [of _ "check_hello_reply _ _ _ _"]
  okR_all [of _ "check_sync_start _ _ _"]

lemma in_exchange_simps [simp]:
  "in_exchange p (error_msg_hex buf w) = in_exchange p w"
  "in_exchange p (report_error msg w) = in_exchange p w"
  "in_exchange p (send_message E ty m q w) = in_exchange p w"
  "in_exchange p (w\<lparr>store := st\<rparr>) = in_exchange p w"
  by (simp_all add: in_exchange_def report_error_def)

lemma in_exchange_nd: "nd w' = nd w \<Longrightarrow> in_exchange p w \<Longrightarrow> in_exchange p w'"
  by (simp add: in_exchange_def)

lemma connect_peers_loop_keeps_nd: "okR (\<lambda>w'. nd w' = nd w) (connect_peers_loop E buf pos n w)"
proof (induction n arbitrary: pos w)
  case (Suc n)
  have "okR (\<lambda>w'. nd w' = nd w)
      (connect_peers_loop E buf pos n (send_message E ty m q (w\<lparr>store := st\<rparr>)))" for st pos q ty m
    using Suc.IH [of "send_message E ty m q (w\<lparr>store := st\<rparr>)" pos] by simp
  then show ?case by (auto intro!: ok_reads)
qed simp

lemma hello_keeps_exchange: "in_exchange p w \<Longrightarrow> okR (in_exchange p) (handle_hello E buf q w)"
  by (auto simp: handle_hello_def create_hello_reply_message_def Let_def report_error_def in_exchange_def
      intro!: ok_reads)

lemma hello_reply_keeps_exchange: "in_exchange p w \<Longrightarrow> okR (in_exchange p) (handle_hello_reply E buf q w)"
  by (auto simp: handle_hello_reply_def Let_def in_exchange_def
      intro!: ok_reads okR_mono [OF connect_peers_loop_keeps_nd])

lemma connect_keeps_exchange:
  "in_exchange p w \<Longrightarrow> okR (in_exchange p) (handle_connect E buf q w)"
  "in_exchange p w \<Longrightarrow> okR (in_exchange p) (handle_ack_connect E buf q w)"
  by (auto simp: handle_connect_def handle_ack_connect_def Let_def in_exchange_def intro!: ok_reads)

lemma sync_start_keeps_exchange: "in_exchange p w \<Longrightarrow> okR (in_exchange p) (handle_sync_start E buf q w)"
  by (auto simp: handle_sync_start_def in_exchange_def intro!: ok_clocks ok_reads)

lemma sync_keeps_exchange:
  "in_exchange p w \<Longrightarrow> okR (in_exchange p) (handle_delay_request E buf q w)"
  "in_exchange p w \<Longrightarrow> q \<noteq> p \<Longrightarrow> okR (in_exchange p) (handle_delay_response E buf q w)"
  "in_exchange p w \<Longrightarrow> okR (in_exchange p) (handle_leader E buf q w)"
  "in_exchange p w \<Longrightarrow> okR (in_exchange p) (handle_get_time E buf q w)"
  by (auto simp: handle_delay_request_def handle_delay_response_def handle_leader_def handle_get_time_def
      Let_def in_exchange_def intro!: ok_clocks ok_reads)

lemma sync_start_loop_keeps_exchange:
  "in_exchange p w \<Longrightarrow> okR (in_exchange p) (sync_start_loop E n w)"
  by (induction n arbitrary: w) (auto simp: Let_def in_exchange_def intro!: ok_clocks ok_reads)

lemma round_keeps_exchange:
  "in_exchange p w \<Longrightarrow> okR (in_exchange p) (sync_start_peers E w)"
  "in_exchange p w \<Longrightarrow> okR (in_exchange p) (note_sync_start E w)"
  "in_exchange p w \<Longrightarrow> okR (in_exchange p) (check_sync_timeout E w)"
proof -
  assume w: "in_exchange p w"
  show "okR (in_exchange p) (sync_start_peers E w)"
    using w unfolding sync_start_peers_def
    by (auto simp: Let_def intro!: ok_reads okR_mono [OF sync_start_loop_keeps_exchange])
qed (auto simp: note_sync_start_def check_sync_timeout_def in_exchange_def Let_def intro!: ok_clocks)

lemma timers_keep_exchange:
  assumes "in_exchange p w"
  shows "okR (in_exchange p) (check_and_handle_timers E w)"
proof -
  have "okR (in_exchange p) (send_sync_starts E v)" if "in_exchange p v" for v
    using that unfolding send_sync_starts_def
    by (auto intro!: ok_now_is_after okR_mono [OF round_keeps_exchange(1) round_keeps_exchange(2)]
        elim: in_exchange_nd)
  then show ?thesis
    using okR_mono [OF round_keeps_exchange(3) [OF assms]] by (simp add: check_and_handle_timers_def)
qed

definition ends_exchange :: "sockaddr_in \<Rightarrow> recv \<Rightarrow> bool" where
  "ends_exchange p r = (case r of Recv_datagram (b # bs) q \<Rightarrow> b = DELAY_RESPONSE \<and> q = p | _ \<Rightarrow> False)"

lemma message_keeps_exchange:
  assumes "in_exchange p w" and "\<not> ends_exchange p (Recv_datagram buf q)" and "buf \<noteq> []"
  shows "okR (in_exchange p) (handle_message E buf q w)"
proof -
  have err: "in_exchange p (error_msg_hex buf w)"
    using assms(1) by (simp add: in_exchange_def)
  have "q \<noteq> p" if "buf ! 0 = DELAY_RESPONSE"
    using assms(2,3) that by (cases buf) (auto simp: ends_exchange_def)
  then show ?thesis
    using assms(1,3) err
    by (simp add: handle_message_def hello_keeps_exchange hello_reply_keeps_exchange connect_keeps_exchange
        sync_start_keeps_exchange sync_keeps_exchange)
qed

lemma iteration_keeps_exchange:
  assumes "in_exchange p w" and "\<not> ends_exchange p r"
  shows "okR (in_exchange p) (main_iteration E r w)"
  unfolding main_iteration_def okR_bind
proof (rule okR_mono [OF timers_keep_exchange [OF assms(1)]])
  fix v
  assume "in_exchange p v"
  then show "okR (in_exchange p) (case r of
         Recv_timeout \<Rightarrow> Inr v
       | Recv_error \<Rightarrow> Inr (report_error ''recvfrom failed'' v)
       | Recv_datagram buf sender \<Rightarrow>
           if buf = [] then Inr (error_msg_hex [] v) else handle_message E buf sender v)"
    using assms(2) message_keeps_exchange
    by (cases r) auto
qed

text \<open>
  C29: The deadline \<open>waiting_for_delay_response\<close> is set and never read: a node whose DELAY_REQUEST or
  its answer is lost stays in that exchange through every run of the main loop in which no
  DELAY_RESPONSE comes from that very peer, however long it is and whatever other messages, timers
  and timeouts it contains; and while it lasts every SYNC_START is dropped without an effect.
\<close>

theorem exchange_never_times_out:
  assumes "synchronizing (nd w)" and "\<forall>r \<in> set rs. \<not> ends_exchange (peer_to_sync (nd w)) r"
    and "main_loop E rs w = Inr w'"
  shows "synchronizing (nd w') \<and> peer_to_sync (nd w') = peer_to_sync (nd w) \<and>
    (ticks E t \<longrightarrow> proc_ok E w' \<longrightarrow> q \<in> peers_of (store w') (peer_list (nd w')) \<longrightarrow> unat l < 254 \<longrightarrow>
      handle_sync_start E (create_sync_start_message e l ts) q w' = Inr (w'\<lparr>clock_reads := Suc (clock_reads w')\<rparr>))"
proof -
  have "in_exchange p v'"
    if "in_exchange p v" "\<forall>r \<in> set rs. \<not> ends_exchange p r" "main_loop E rs v = Inr v'" for p v v'
    using that
    by (induction rs arbitrary: v) (auto simp: bindR_eq_Inr dest: okR_value [OF iteration_keeps_exchange])
  then have "synchronizing (nd w')" "peer_to_sync (nd w') = peer_to_sync (nd w)"
    using assms unfolding in_exchange_def by blast+
  then show ?thesis
    by (auto simp: handle_sync_start_def clock_ticks check_sync_start_eq create_sync_start_message_def proc_okD(3))
qed

theorem exchange_never_times_out_witness:
  "\<exists>w'. main_loop demo_clock [Recv_timeout, Recv_error, Recv_timeout] (upd_nd (\<lambda>n. n\<lparr>synchronizing := True\<rparr>) demo_proc)
      = Inr w' \<and> synchronizing (nd w')"
proof -
  let ?w = "upd_nd (\<lambda>n. n\<lparr>synchronizing := True\<rparr>) demo_proc"
  have run: "main_loop demo_clock [Recv_timeout, Recv_error, Recv_timeout] ?w = Inr (report_error ''recvfrom failed'' ?w)"
    by (simp add: main_iteration_def check_and_handle_timers_def check_sync_timeout_def send_sync_starts_def
        CLOCK_LEADER_def CLOCK_UNSYNCHRONIZED_def demo_defs report_error_def emit_def)
  from exchange_never_times_out [OF _ _ this] show ?thesis
    using run by (auto simp: ends_exchange_def)
qed

end
