(* ===== verification/Binary64.thy ===== *)
theory Binary64
  imports Complex_Main Prelude
begin

text \<open>
  The type \<open>double\<close> of the approximator: IEEE 754 binary64 with rounding to nearest, ties to even,
  executable on integers. A finite number is a sign, a mantissa and an exponent; the lemmas relate
  it to the real number it stands for and bound the rounding error.
\<close>

section \<open>Numbers\<close>

datatype double = Finite (sign: bool) (mantissa: nat) (exponent: int) | Infinity bool | NaN

text \<open>The mantissa has 53 bits, all of them used unless the exponent is the least one.\<close>

fun canonical :: "double \<Rightarrow> bool" where
  "canonical (Finite s m e) \<longleftrightarrow>
     m < 2 ^ 53 \<and> - 1074 \<le> e \<and> e \<le> 971 \<and> (- 1074 < e \<longrightarrow> 2 ^ 52 \<le> m)"
| "canonical _ \<longleftrightarrow> True"

fun dval :: "double \<Rightarrow> real" where
  "dval (Finite s m e) = (if s then - 1 else 1) * real m * 2 powi e"
| "dval _ = 0"

fun is_finite :: "double \<Rightarrow> bool" where
  "is_finite (Finite s m e) = True"
| "is_finite _ = False"

section \<open>Rounding\<close>

fun bitlen :: "nat \<Rightarrow> nat" where
  "bitlen n = (if n = 0 then 0 else Suc (bitlen (n div 2)))"

declare bitlen.simps [simp del]

text \<open>The fraction \<open>n / d\<close> divided by \<open>2^e\<close>, as a fraction.\<close>

definition scale :: "nat \<Rightarrow> nat \<Rightarrow> int \<Rightarrow> nat \<times> nat" where
  "scale n d e = (if 0 \<le> e then (n, d * 2 ^ nat e) else (n * 2 ^ nat (- e), d))"

definition round_even :: "nat \<Rightarrow> nat \<Rightarrow> nat" where
  "round_even n d =
     (let q = n div d; r = n mod d in if d < 2 * r \<or> (2 * r = d \<and> odd q) then Suc q else q)"

definition ratio_floor :: "nat \<times> nat \<Rightarrow> nat" where
  "ratio_floor f = fst f div snd f"

text \<open>The exponent at which \<open>n / d\<close> has 53 bits before the point (or the least exponent).\<close>

definition round_exponent :: "nat \<Rightarrow> nat \<Rightarrow> int" where
  "round_exponent n d =
     (let e = max (- 1074) (int (bitlen n) - int (bitlen d) - 53)
      in if ratio_floor (scale n d e) < 2 ^ 53 then e else e + 1)"

definition round_pos :: "nat \<Rightarrow> nat \<Rightarrow> nat \<times> int" where
  "round_pos n d =
     (let e = round_exponent n d; f = scale n d e; m = round_even (fst f) (snd f)
      in if m = 2 ^ 53 then (2 ^ 52, e + 1) else (m, e))"

text \<open>The nearest \<open>double\<close> to \<open>n / d\<close>, with the given sign.\<close>

definition round_ratio :: "bool \<Rightarrow> nat \<Rightarrow> nat \<Rightarrow> double" where
  "round_ratio s n d =
     (if n = 0 then Finite s 0 (- 1074)
      else let (m, e) = round_pos n d in if 971 < e then Infinity s else Finite s m e)"

lemma bitlen_bounds: "0 < n \<Longrightarrow> 2 ^ (bitlen n - 1) \<le> n \<and> n < 2 ^ bitlen n \<and> 0 < bitlen n"
proof (induction n rule: bitlen.induct)
  case (1 n)
  show ?case
  proof (cases "n div 2 = 0")
    case True
    then have "n = 1" using 1(2) by simp
    then show ?thesis by (simp add: bitlen.simps)
  next
    case False
    define k where "k = bitlen (n div 2)"
    have ih: "2 ^ (k - 1) \<le> n div 2" "n div 2 < 2 ^ k" "0 < k"
      using 1(1) 1(2) False by (simp_all add: k_def)
    obtain j where j: "k = Suc j" using ih(3) by (cases k) auto
    have "bitlen n = Suc k"
      using 1(2) by (subst bitlen.simps) (simp add: k_def)
    moreover have "2 ^ k \<le> n" using ih(1) by (simp add: j)
    moreover have "n < 2 ^ Suc k" using ih(2) by simp
    ultimately show ?thesis by simp
  qed
qed

lemma scale_pos: "0 < n \<Longrightarrow> 0 < d \<Longrightarrow> 0 < fst (scale n d e) \<and> 0 < snd (scale n d e)"
  by (simp add: scale_def)

lemma scale_ratio:
  "0 < d \<Longrightarrow> real (fst (scale n d e)) / real (snd (scale n d e)) = real n / real d / 2 powi e"
  by (auto simp: scale_def power_int_def field_simps)

lemma round_even_error:
  assumes "0 < d"
  shows "\<bar>real (round_even n d) - real n / real d\<bar> \<le> 1 / 2"
proof -
  let ?q = "n div d" and ?r = "n mod d"
  define t where "t = real ?r / real d"
  have "real n = real ?q * real d + real ?r"
    by (metis div_mult_mod_eq of_nat_add of_nat_mult)
  then have x: "real n / real d = real ?q + t"
    using assms by (simp add: field_simps t_def)
  have t: "0 \<le> t" "t < 1" using assms by (simp_all add: t_def)
  show ?thesis
  proof (cases "d < 2 * ?r \<or> (2 * ?r = d \<and> odd ?q)")
    case True
    then have "round_even n d = Suc ?q" and "d \<le> 2 * ?r" by (auto simp: round_even_def Let_def)
    moreover have "1 / 2 \<le> t"
      using \<open>d \<le> 2 * ?r\<close> assms by (simp add: field_simps t_def)
    ultimately show ?thesis using t unfolding x by simp
  next
    case False
    then have "round_even n d = ?q" and "2 * ?r \<le> d" by (auto simp: round_even_def Let_def)
    moreover have "t \<le> 1 / 2"
      using \<open>2 * ?r \<le> d\<close> assms by (simp add: field_simps t_def)
    ultimately show ?thesis using t unfolding x by simp
  qed
qed

lemma round_even_range: "n div d \<le> round_even n d \<and> round_even n d \<le> Suc (n div d)"
  by (simp add: round_even_def Let_def)

lemma round_even_exact: "0 < d \<Longrightarrow> round_even (k * d) d = k"
  by (simp add: round_even_def)

lemma div_less_iff_real: "0 < d \<Longrightarrow> n div d < k \<longleftrightarrow> real n / real d < real k"
  by (simp add: div_less_iff_less_mult divide_less_eq flip: of_nat_mult)

lemma le_div_iff_real: "0 < d \<Longrightarrow> k \<le> n div d \<longleftrightarrow> real k \<le> real n / real d"
  by (simp add: le_divide_eq less_eq_div_iff_mult_less_eq flip: of_nat_mult)

lemma ratio_bitlen:
  assumes "0 < n" and "0 < d"
  shows "2 powi (int (bitlen n) - int (bitlen d) - 1) < real n / real d"
    and "real n / real d < 2 powi (int (bitlen n) - int (bitlen d) + 1)"
proof -
  obtain a b where ab: "bitlen n = Suc a" "bitlen d = Suc b"
    using bitlen_bounds [OF assms(1)] bitlen_bounds [OF assms(2)] by (metis Suc_pred)
  have "real (2 ^ a) \<le> real n" "real n < real (2 ^ Suc a)" "real (2 ^ b) \<le> real d" "real d < real (2 ^ Suc b)"
    using bitlen_bounds [OF assms(1)] bitlen_bounds [OF assms(2)] unfolding ab of_nat_le_iff of_nat_less_iff by auto
  then have n: "2 ^ a \<le> real n" "real n < 2 ^ Suc a" and d: "2 ^ b \<le> real d" "real d < 2 ^ Suc b"
    by simp_all
  have "real n / real d < 2 ^ Suc a / 2 ^ b"
    using n d by (intro frac_less) auto
  moreover have "2 ^ a / 2 ^ Suc b < real n / real d"
    using n d assms by (intro frac_less2) auto
  ultimately show "2 powi (int (bitlen n) - int (bitlen d) - 1) < real n / real d"
    "real n / real d < 2 powi (int (bitlen n) - int (bitlen d) + 1)"
    by (simp_all add: ab power_int_diff power_int_add field_simps)
qed

lemma powi_pos [simp]: "0 < (2 :: real) powi e"
  by (rule zero_less_power_int) simp

lemma round_exponent_spec:
  assumes "0 < n" and "0 < d"
  defines "e \<equiv> round_exponent n d" and "x \<equiv> real n / real d"
  shows "x / 2 powi e < 2 ^ 53" and "- 1074 \<le> e" and "e = - 1074 \<or> 2 ^ 52 \<le> x / 2 powi e"
proof -
  define a where "a = int (bitlen n) - int (bitlen d)"
  define e0 where "e0 = max (- 1074) (a - 53)"
  have x: "2 powi (a - 1) < x" "x < 2 powi (a + 1)"
    using ratio_bitlen [OF assms(1,2)] by (simp_all add: a_def x_def)
  have q: "ratio_floor (scale n d e0) < 2 ^ 53 \<longleftrightarrow> x / 2 powi e0 < 2 ^ 53"
    unfolding ratio_floor_def x_def scale_ratio [OF assms(2), symmetric]
    using scale_pos [OF assms(1,2), of e0] by (subst div_less_iff_real) auto
  have e: "e = (if x / 2 powi e0 < 2 ^ 53 then e0 else e0 + 1)"
    unfolding e_def round_exponent_def Let_def a_def [symmetric] e0_def [symmetric] q by (rule refl)
  have "2 powi (a + 1) = (2 :: real) powi (a - 53) * 2 ^ 54"
    by (simp add: power_int_add power_int_diff)
  moreover have "(2 :: real) powi (a - 53) \<le> 2 powi e0"
    by (rule power_int_increasing) (auto simp: e0_def)
  ultimately have hi: "x / 2 powi e0 < 2 ^ 54"
    using x(2) by (simp add: divide_less_eq)
  have lo: "2 ^ 52 \<le> x / 2 powi e0" if "e0 \<noteq> - 1074"
  proof -
    have "e0 = a - 53" using that by (auto simp: e0_def max_def split: if_splits)
    then have "2 powi (a - 1) = (2 :: real) powi e0 * 2 ^ 52"
      by (simp add: power_int_diff)
    with x(1) show ?thesis by (simp add: le_divide_eq mult.commute)
  qed
  have up: "x / 2 powi (e0 + 1) = x / 2 powi e0 / 2"
    by (simp add: power_int_add)
  show "x / 2 powi e < 2 ^ 53" "- 1074 \<le> e" "e = - 1074 \<or> 2 ^ 52 \<le> x / 2 powi e"
    using hi lo unfolding e by (auto simp: up e0_def [symmetric]) (auto simp: e0_def)
qed

text \<open>The error of rounding is half a unit of the last place before a carry.\<close>

lemma round_pos_spec:
  assumes "0 < n" and "0 < d" and "round_pos n d = (m, e)"
  defines "x \<equiv> real n / real d"
  shows "m < 2 ^ 53 \<and> - 1074 \<le> e \<and> (- 1074 < e \<longrightarrow> 2 ^ 52 \<le> m)"
    and "\<exists>e'. \<bar>real m * 2 powi e - x\<bar> \<le> 2 powi e' / 2 \<and> (e' = - 1074 \<or> 2 ^ 52 * 2 powi e' \<le> x)"
proof -
  define e' where "e' = round_exponent n d"
  define N where "N = fst (scale n d e')"
  define D where "D = snd (scale n d e')"
  define k where "k = round_even N D"
  have D: "0 < D" using scale_pos [OF assms(1,2)] by (simp add: D_def)
  have ND: "real N / real D = x / 2 powi e'"
    unfolding N_def D_def x_def by (rule scale_ratio [OF assms(2)])
  have sp: "x / 2 powi e' < 2 ^ 53" "- 1074 \<le> e'" "e' = - 1074 \<or> 2 ^ 52 \<le> x / 2 powi e'"
    using round_exponent_spec [OF assms(1,2)] by (simp_all add: e'_def x_def)
  have "N div D < 2 ^ 53"
    using sp(1) unfolding div_less_iff_real [OF D] ND by simp
  then have k1: "k \<le> 2 ^ 53"
    using round_even_range [of N D] by (simp add: k_def)
  have "2 ^ 52 \<le> N div D" if "e' \<noteq> - 1074"
    using sp(3) that unfolding le_div_iff_real [OF D] ND by simp
  then have k2: "2 ^ 52 \<le> k" if "e' \<noteq> - 1074"
    using that round_even_range [of N D] le_trans by (auto simp: k_def)
  have err: "\<bar>real k * 2 powi e' - x\<bar> \<le> 2 powi e' / 2"
  proof -
    have "\<bar>real k - x / 2 powi e'\<bar> * 2 powi e' \<le> 1 / 2 * 2 powi e'"
      using round_even_error [OF D, of N] unfolding k_def ND by (intro mult_right_mono) auto
    moreover have "\<bar>real k - x / 2 powi e'\<bar> * 2 powi e' = \<bar>(real k - x / 2 powi e') * 2 powi e'\<bar>"
      by (simp add: abs_mult)
    ultimately show ?thesis by (simp add: left_diff_distrib)
  qed
  have me: "(m, e) = (if k = 2 ^ 53 then (2 ^ 52, e' + 1) else (k, e'))"
    unfolding assms(3) [symmetric] round_pos_def Let_def k_def N_def D_def e'_def by (rule refl)
  have val: "real m * 2 powi e = real k * 2 powi e'"
    using me by (auto simp: power_int_add split: if_splits)
  show "m < 2 ^ 53 \<and> - 1074 \<le> e \<and> (- 1074 < e \<longrightarrow> 2 ^ 52 \<le> m)"
    using me k1 k2 sp(2) by (auto split: if_splits)
  show "\<exists>e'. \<bar>real m * 2 powi e - x\<bar> \<le> 2 powi e' / 2 \<and> (e' = - 1074 \<or> 2 ^ 52 * 2 powi e' \<le> x)"
    using err sp(3) unfolding val
    by (intro exI [of _ e']) (auto simp: le_divide_eq)
qed

lemma round_pos_error:
  assumes "0 < n" and "0 < d" and "round_pos n d = (m, e)"
  shows "\<bar>real m * 2 powi e - real n / real d\<bar> \<le> max (real n / real d / 2 ^ 53) (2 powi - 1075)"
proof -
  obtain e' where e': "\<bar>real m * 2 powi e - real n / real d\<bar> \<le> 2 powi e' / 2"
      "e' = - 1074 \<or> 2 ^ 52 * 2 powi e' \<le> real n / real d"
    using round_pos_spec(2) [OF assms] by blast
  have "(2 :: real) powi - 1075 = 2 powi (- 1074) / 2"
    by (simp add: power_int_diff flip: power_int_diff [of 2 "- 1074" 1, simplified])
  with e' show ?thesis by (auto simp: max_def)
qed

lemma exponent_unique:
  assumes "0 < m" and "m < 2 ^ 53" and "- 1074 \<le> e" and "- 1074 < e \<longrightarrow> 2 ^ 52 \<le> m"
    and "real m * 2 powi e / 2 powi e' < 2 ^ 53" and "- 1074 \<le> e'"
    and "e' = - 1074 \<or> 2 ^ 52 \<le> real m * 2 powi e / 2 powi e'"
  shows "e' = e"
proof -
  have r: "real m * 2 powi e / 2 powi e' = real m * 2 powi (e - e')"
    by (simp add: power_int_diff)
  have m: "real m < 2 ^ 53" "- 1074 < e \<longrightarrow> 2 ^ 52 \<le> real m"
    using assms(2,4) by (metis of_nat_less_iff of_nat_numeral of_nat_power, metis of_nat_le_iff of_nat_numeral of_nat_power)
  show ?thesis
  proof (cases e' e rule: linorder_cases)
    case less
    then have "2 powi 1 \<le> (2 :: real) powi (e - e')"
      by (intro power_int_increasing) auto
    moreover have "2 ^ 52 \<le> real m" using m(2) less assms(6) by simp
    ultimately have "2 ^ 52 * 2 powi 1 \<le> real m * 2 powi (e - e')"
      by (intro mult_mono) auto
    then show ?thesis using assms(5) unfolding r by simp
  next
    case greater
    then have "(2 :: real) powi (e - e') \<le> 2 powi - 1"
      by (intro power_int_increasing) auto
    then have "real m * 2 powi (e - e') \<le> real m * 2 powi - 1"
      by (intro mult_left_mono) auto
    then have "real m * 2 powi (e - e') < 2 ^ 52"
      using m(1) by (simp add: power_int_minus)
    then show ?thesis using assms(3,7) greater unfolding r by auto
  qed simp
qed

text \<open>A representable number is rounded to itself.\<close>

lemma round_pos_exact:
  assumes "0 < n" and "0 < d" and "0 < m" and "m < 2 ^ 53" and "- 1074 \<le> e" and "- 1074 < e \<longrightarrow> 2 ^ 52 \<le> m"
    and x: "real n / real d = real m * 2 powi e"
  shows "round_pos n d = (m, e)"
proof -
  have e: "round_exponent n d = e"
    using round_exponent_spec [OF assms(1,2)] exponent_unique [OF assms(3-6)] unfolding x by blast
  let ?f = "scale n d e"
  have pos: "0 < snd ?f" using scale_pos [OF assms(1,2)] by blast
  have "real (fst ?f) / real (snd ?f) = real m"
    unfolding scale_ratio [OF assms(2)] x by simp
  then have "real (fst ?f) = real (m * snd ?f)"
    using pos by (simp add: field_simps)
  then have "fst ?f = m * snd ?f" unfolding of_nat_eq_iff .
  then have "round_even (fst ?f) (snd ?f) = m"
    using pos by (simp add: round_even_exact)
  then show ?thesis
    using assms(4) by (simp add: round_pos_def Let_def e)
qed

lemma round_ratio_exact:
  assumes "canonical (Finite s m e)" and "0 < d" and "0 < m" and "real n / real d = real m * 2 powi e"
  shows "round_ratio s n d = Finite s m e"
proof -
  have "0 < n" using assms(2,3,4) by (cases n) auto
  then show ?thesis
    using round_pos_exact [of n d m e] assms by (simp add: round_ratio_def)
qed

section \<open>Arithmetic\<close>

definition signed_int :: "bool \<Rightarrow> nat \<Rightarrow> int" where
  "signed_int s m = (if s then - int m else int m)"

text \<open>The nearest \<open>double\<close> to \<open>z * 2^e\<close>; \<open>s\<close> is the sign of a zero result.\<close>

definition round_dyadic :: "bool \<Rightarrow> int \<Rightarrow> int \<Rightarrow> double" where
  "round_dyadic s z e =
     (let f = scale (nat \<bar>z\<bar>) 1 (- e) in round_ratio (if z = 0 then s else z < 0) (fst f) (snd f))"

definition dzero :: double where "dzero = Finite False 0 (- 1074)"

fun dneg :: "double \<Rightarrow> double" where
  "dneg (Finite s m e) = Finite (\<not> s) m e"
| "dneg (Infinity s) = Infinity (\<not> s)"
| "dneg NaN = NaN"

fun dadd :: "double \<Rightarrow> double \<Rightarrow> double" where
  "dadd (Finite s1 m1 e1) (Finite s2 m2 e2) =
     (let e = min e1 e2;
          z = signed_int s1 m1 * 2 ^ nat (e1 - e) + signed_int s2 m2 * 2 ^ nat (e2 - e)
      in round_dyadic (s1 \<and> s2) z e)"
| "dadd (Infinity s) (Finite _ _ _) = Infinity s"
| "dadd (Finite _ _ _) (Infinity s) = Infinity s"
| "dadd (Infinity s) (Infinity s') = (if s = s' then Infinity s else NaN)"
| "dadd _ _ = NaN"

definition dsub :: "double \<Rightarrow> double \<Rightarrow> double" where
  "dsub x y = dadd x (dneg y)"

fun dmul :: "double \<Rightarrow> double \<Rightarrow> double" where
  "dmul (Finite s1 m1 e1) (Finite s2 m2 e2) =
     round_dyadic (s1 \<noteq> s2) (signed_int (s1 \<noteq> s2) (m1 * m2)) (e1 + e2)"
| "dmul (Infinity s) (Finite s' m e) = (if m = 0 then NaN else Infinity (s \<noteq> s'))"
| "dmul (Finite s m e) (Infinity s') = (if m = 0 then NaN else Infinity (s \<noteq> s'))"
| "dmul (Infinity s) (Infinity s') = Infinity (s \<noteq> s')"
| "dmul _ _ = NaN"

fun dless :: "double \<Rightarrow> double \<Rightarrow> bool" where
  "dless (Finite s1 m1 e1) (Finite s2 m2 e2) =
     (let e = min e1 e2
      in signed_int s1 m1 * 2 ^ nat (e1 - e) < signed_int s2 m2 * 2 ^ nat (e2 - e))"
| "dless (Finite _ _ _) (Infinity s) = (\<not> s)"
| "dless (Infinity s) (Finite _ _ _) = s"
| "dless (Infinity s) (Infinity s') = (s \<and> \<not> s')"
| "dless _ _ = False"

definition double_of_int :: "int \<Rightarrow> double" where
  "double_of_int z = round_dyadic False z 0"

section \<open>Values of results\<close>

lemma signed_int_value: "real_of_int (signed_int s m) = (if s then - 1 else 1) * real m"
  by (simp add: signed_int_def)

lemma aligned_value:
  assumes "e \<le> e1"
  shows "real_of_int (signed_int s m * 2 ^ nat (e1 - e)) * 2 powi e = dval (Finite s m e1)"
proof -
  have "(2 :: real) ^ nat (e1 - e) = 2 powi (e1 - e)"
    using assms by (simp add: power_int_def)
  also have "\<dots> * 2 powi e = (2 :: real) powi e1"
    by (simp flip: power_int_add)
  finally show ?thesis by (simp add: signed_int_value)
qed

lemma dless_value: "dless (Finite s1 m1 e1) (Finite s2 m2 e2) \<longleftrightarrow> dval (Finite s1 m1 e1) < dval (Finite s2 m2 e2)"
proof -
  let ?e = "min e1 e2"
  have "dval (Finite s1 m1 e1) < dval (Finite s2 m2 e2) \<longleftrightarrow>
      real_of_int (signed_int s1 m1 * 2 ^ nat (e1 - ?e)) * 2 powi ?e
      < real_of_int (signed_int s2 m2 * 2 ^ nat (e2 - ?e)) * 2 powi ?e"
    by (simp only: aligned_value min.cobounded1 min.cobounded2)
  also have "\<dots> \<longleftrightarrow> signed_int s1 m1 * 2 ^ nat (e1 - ?e) < signed_int s2 m2 * 2 ^ nat (e2 - ?e)"
    by (simp only: mult_less_cancel_right_pos [OF powi_pos] of_int_less_iff)
  finally show ?thesis by (simp only: dless.simps Let_def)
qed

text \<open>A rounded value is finite and close to the exact one unless it overflows.\<close>

definition rounds_to :: "double \<Rightarrow> real \<Rightarrow> bool" where
  "rounds_to y x \<longleftrightarrow> is_finite y \<and> canonical y \<and> \<bar>dval y - x\<bar> \<le> max (\<bar>x\<bar> / 2 ^ 53) (2 powi - 1075)"

definition half_max :: real where
  "half_max = 2 powi 1023"

lemma half_max_ge_1: "1 \<le> half_max"
  using power_int_increasing [of 0 1023 "2 :: real"] by (simp only: half_max_def power_int_0_right)

lemma big_exponent:
  assumes "971 < e" and "2 ^ 52 \<le> m"
  shows "half_max + half_max \<le> real m * 2 powi e"
proof -
  have "half_max + half_max = 2 powi 52 * 2 powi 972"
    unfolding half_max_def by (simp only: mult_2 [symmetric] power_int_add [symmetric] power_int_add_1' [symmetric]) simp
  also have "\<dots> \<le> real m * 2 powi e"
  proof (rule mult_mono)
    have "real (2 ^ 52) \<le> real m" using assms(2) by (simp only: of_nat_le_iff)
    then show "2 powi 52 \<le> real m" by simp
    show "2 powi 972 \<le> (2 :: real) powi e"
      using assms(1) by (intro power_int_increasing) auto
  qed (simp_all only: of_nat_0_le_iff less_imp_le [OF powi_pos])
  finally show ?thesis .
qed

lemma powi_1075_less: "(2 :: real) powi - 1075 \<le> 1"
  using power_int_increasing [of "- 1075" 0 "2 :: real"] by (simp only: power_int_0_right)

lemma round_ratio_value:
  assumes "0 < d" and "real n / real d < half_max"
  shows "rounds_to (round_ratio s n d) ((if s then - 1 else 1) * (real n / real d))"
proof (cases "n = 0")
  case True
  then show ?thesis by (simp add: round_ratio_def rounds_to_def)
next
  case False
  then have n: "0 < n" by simp
  obtain m e where me: "round_pos n d = (m, e)" by (cases "round_pos n d")
  define x where "x = real n / real d"
  define v where "v = real m * 2 powi e"
  define t where "t = (2 :: real) powi - 1075"
  have can: "m < 2 ^ 53 \<and> - 1074 \<le> e \<and> (- 1074 < e \<longrightarrow> 2 ^ 52 \<le> m)"
    using round_pos_spec(1) [OF n assms(1) me] .
  have err: "\<bar>v - x\<bar> \<le> max (x / 2 ^ 53) t"
    using round_pos_error [OF n assms(1) me] by (simp only: x_def v_def t_def)
  have x0: "0 \<le> x" and t: "t \<le> half_max"
    using half_max_ge_1 powi_1075_less by (simp_all only: x_def t_def) simp_all
  have "x / 2 ^ 53 \<le> x / 1"
    using x0 by (intro divide_left_mono) auto
  then have "max (x / 2 ^ 53) t \<le> half_max"
    using t assms(2) by (simp add: x_def)
  then have "v < half_max + half_max"
    using err assms(2) unfolding x_def [symmetric] by linarith
  then have "\<not> 971 < e"
    using big_exponent [of e m] can by (auto simp: v_def)
  then have "round_ratio s n d = Finite s m e" "canonical (Finite s m e)"
    using n can by (simp_all add: round_ratio_def me)
  moreover have "dval (Finite s m e) - (if s then - 1 else 1) * x = (if s then - 1 else 1) * (v - x)"
    "\<bar>(if s then - 1 else 1) * x\<bar> = x"
    using x0 by (simp_all add: v_def)
  ultimately show ?thesis
    using err by (simp only: rounds_to_def x_def [symmetric] t_def [symmetric] abs_mult) simp
qed

lemma round_dyadic_value:
  assumes "\<bar>real_of_int z * 2 powi e\<bar> < half_max"
  shows "rounds_to (round_dyadic s z e) (real_of_int z * 2 powi e)"
proof -
  let ?f = "scale (nat \<bar>z\<bar>) 1 (- e)"
  have f: "real (fst ?f) / real (snd ?f) = \<bar>real_of_int z\<bar> * 2 powi e"
    by (simp only: scale_ratio [OF zero_less_one]) (simp add: power_int_minus divide_inverse)
  have pos: "0 < snd ?f" by (simp add: scale_def)
  have "rounds_to (round_dyadic s z e)
      ((if (if z = 0 then s else z < 0) then - 1 else 1) * (real (fst ?f) / real (snd ?f)))"
    unfolding round_dyadic_def Let_def
  proof (rule round_ratio_value [OF pos])
    show "real (fst ?f) / real (snd ?f) < half_max"
      using assms unfolding f by (simp add: abs_mult)
  qed
  then show ?thesis unfolding f by (simp split: if_splits)
qed

lemma rounds_toD:
  assumes "rounds_to y x"
  shows "is_finite y" "canonical y" "\<bar>dval y - x\<bar> \<le> max (\<bar>x\<bar> / 2 ^ 53) (2 powi - 1075)"
  using assms by (auto simp: rounds_to_def)

lemma dadd_value:
  assumes "is_finite x" and "is_finite y" and "\<bar>dval x + dval y\<bar> < half_max"
  shows "rounds_to (dadd x y) (dval x + dval y)"
proof -
  obtain s1 m1 e1 s2 m2 e2 where xy: "x = Finite s1 m1 e1" "y = Finite s2 m2 e2"
    using assms(1,2) by (cases x; cases y) auto
  let ?e = "min e1 e2"
  let ?z = "signed_int s1 m1 * 2 ^ nat (e1 - ?e) + signed_int s2 m2 * 2 ^ nat (e2 - ?e)"
  have v: "real_of_int ?z * 2 powi ?e = dval x + dval y"
    unfolding xy of_int_add distrib_right by (simp only: aligned_value min.cobounded1 min.cobounded2)
  then show ?thesis
    using round_dyadic_value [of ?z ?e "s1 \<and> s2"] assms(3) unfolding v by (simp only: xy dadd.simps Let_def)
qed

lemma dmul_value:
  assumes "is_finite x" and "is_finite y" and "\<bar>dval x * dval y\<bar> < half_max"
  shows "rounds_to (dmul x y) (dval x * dval y)"
proof -
  obtain s1 m1 e1 s2 m2 e2 where xy: "x = Finite s1 m1 e1" "y = Finite s2 m2 e2"
    using assms(1,2) by (cases x; cases y) auto
  have "real_of_int (signed_int (s1 \<noteq> s2) (m1 * m2)) * 2 powi (e1 + e2) = dval x * dval y"
    by (simp add: xy signed_int_value power_int_add)
  then show ?thesis
    using round_dyadic_value [of "signed_int (s1 \<noteq> s2) (m1 * m2)" "e1 + e2" "s1 \<noteq> s2"] assms(3) by (simp add: xy)
qed

lemma dneg_value [simp]: "dval (dneg x) = - dval x" "is_finite (dneg x) = is_finite x" "canonical (dneg x) = canonical x"
  by (cases x; simp)+

lemma dsub_value:
  assumes "is_finite x" and "is_finite y" and "\<bar>dval x - dval y\<bar> < half_max"
  shows "rounds_to (dsub x y) (dval x - dval y)"
  using dadd_value [of x "dneg y"] assms by (simp add: dsub_def)

text \<open>The same for all values: a result is close to the exact one or an overflow of the same sign.\<close>

definition near :: "double \<Rightarrow> real \<Rightarrow> bool" where
  "near y x \<longleftrightarrow> rounds_to y x \<or> (half_max \<le> \<bar>x\<bar> \<and> y = Infinity (x < 0))"

lemma round_ratio_near:
  assumes "0 < d"
  shows "near (round_ratio s n d) ((if s then - 1 else 1) * (real n / real d))"
proof (cases "real n / real d < half_max")
  case True
  then show ?thesis using round_ratio_value [OF assms] by (simp add: near_def)
next
  case False
  define x where "x = real n / real d"
  have x: "half_max \<le> x" "0 < x" using False half_max_ge_1 by (simp_all add: x_def)
  then have n: "0 < n" by (cases n) (simp_all add: x_def)
  obtain m e where me: "round_pos n d = (m, e)" by (cases "round_pos n d")
  define v where "v = real m * 2 powi e"
  have err: "\<bar>v - x\<bar> \<le> max (x / 2 ^ 53) (2 powi - 1075)"
    using round_pos_error [OF n assms me] by (simp only: x_def v_def)
  show ?thesis
  proof (cases "971 < e")
    case True
    then have "round_ratio s n d = Infinity s" using n by (simp add: round_ratio_def me)
    then show ?thesis using x by (auto simp: near_def x_def [symmetric])
  next
    case False
    then have y: "round_ratio s n d = Finite s m e" "canonical (Finite s m e)"
      using n round_pos_spec(1) [OF n assms me] by (simp_all add: round_ratio_def me)
    have "dval (Finite s m e) - (if s then - 1 else 1) * x = (if s then - 1 else 1) * (v - x)"
      "\<bar>(if s then - 1 else 1) * x\<bar> = x" "\<bar>(if s then - 1 else 1) * (v - x)\<bar> = \<bar>v - x\<bar>"
      using x(2) by (simp_all add: v_def abs_minus_commute)
    then have "rounds_to (Finite s m e) ((if s then - 1 else 1) * x)"
      using err y(2) unfolding rounds_to_def by (simp only: is_finite.simps)
    then show ?thesis unfolding near_def y(1) x_def [symmetric] by blast
  qed
qed

lemma round_dyadic_near: "near (round_dyadic s z e) (real_of_int z * 2 powi e)"
proof -
  let ?f = "scale (nat \<bar>z\<bar>) 1 (- e)"
  have f: "real (fst ?f) / real (snd ?f) = \<bar>real_of_int z\<bar> * 2 powi e"
    by (simp only: scale_ratio [OF zero_less_one]) (simp add: power_int_minus divide_inverse)
  have "0 < snd ?f" by (simp add: scale_def)
  then have "near (round_dyadic s z e)
      ((if (if z = 0 then s else z < 0) then - 1 else 1) * (real (fst ?f) / real (snd ?f)))"
    unfolding round_dyadic_def Let_def by (rule round_ratio_near)
  then show ?thesis unfolding f by (simp split: if_splits)
qed

lemma dadd_near:
  assumes "is_finite x" and "is_finite y"
  shows "near (dadd x y) (dval x + dval y)"
proof -
  obtain s1 m1 e1 s2 m2 e2 where xy: "x = Finite s1 m1 e1" "y = Finite s2 m2 e2"
    using assms(1,2) by (cases x; cases y) auto
  let ?e = "min e1 e2"
  let ?z = "signed_int s1 m1 * 2 ^ nat (e1 - ?e) + signed_int s2 m2 * 2 ^ nat (e2 - ?e)"
  have v: "real_of_int ?z * 2 powi ?e = dval x + dval y"
    unfolding xy of_int_add distrib_right by (simp only: aligned_value min.cobounded1 min.cobounded2)
  show ?thesis
    using round_dyadic_near [of "s1 \<and> s2" ?z ?e] unfolding v by (simp only: xy dadd.simps Let_def)
qed

lemma dsub_near: "is_finite x \<Longrightarrow> is_finite y \<Longrightarrow> near (dsub x y) (dval x - dval y)"
  using dadd_near [of x "dneg y"] by (simp add: dsub_def)

section \<open>Seven fractional digits\<close>

text \<open>The seven low decimal digits of \<open>z\<close>, with leading zeros.\<close>

fun pad_digits :: "nat \<Rightarrow> nat \<Rightarrow> string" where
  "pad_digits 0 z = []"
| "pad_digits (Suc k) z = pad_digits k (z div 10) @ [digit_char (z mod 10)]"

lemma pad_digits_numeral:
  "pad_digits (numeral k) z = pad_digits (pred_numeral k) (z div 10) @ [digit_char (z mod 10)]"
  unfolding numeral_eq_Suc [of k] by (rule pad_digits.simps)

definition fixed_string :: "bool \<Rightarrow> nat \<Rightarrow> string" where
  "fixed_string s z =
     (if s then ''-'' else []) @ show_nat (z div 10 ^ 7) @ ''.'' @ pad_digits 7 (z mod 10 ^ 7)"

text \<open>
  \<open>std::fixed << std::setprecision(7)\<close>: the exact value in units of the seventh digit, rounded to
  an integer, ties to even. (The sign bit of a NaN is not modelled; no computation of the program
  on numbers it accepts gives one.)
\<close>

fun double_to_fixed :: "double \<Rightarrow> string" where
  "double_to_fixed (Finite s m e) =
     (let f = scale (m * 10 ^ 7) 1 (- e) in fixed_string s (round_even (fst f) (snd f)))"
| "double_to_fixed (Infinity s) = (if s then ''-inf'' else ''inf'')"
| "double_to_fixed NaN = ''nan''"

lemma round_even_nearest:
  assumes "0 < d" and "\<bar>real n / real d - real k\<bar> < 1 / 2"
  shows "round_even n d = k"
proof -
  have "\<bar>real (round_even n d) - real k\<bar> < 1"
    using round_even_error [OF assms(1), of n] assms(2) by linarith
  then show ?thesis by linarith
qed

text \<open>
  A decimal of seven fractional digits whose digits form a number below \<open>2^52\<close> is printed again as
  it was read: the error of the conversion stays below half a unit of the last digit.
\<close>

lemma powi_1075_tiny: "10 ^ 7 * (2 :: real) powi - 1075 < 1 / 2"
proof -
  have "(2 :: real) powi - 1075 \<le> 2 powi - 30"
    by (rule power_int_increasing) simp_all
  also have "(2 :: real) powi - 30 = 1 / 2 ^ 30"
    by (simp add: power_int_minus)
  finally show ?thesis by simp
qed

lemma small_less_half_max: "x < 2 ^ 60 \<Longrightarrow> x < half_max"
  using power_int_increasing [of 60 1023 "2 :: real"] unfolding half_max_def by simp

lemma fixed_roundtrip:
  assumes "z < 2 ^ 52"
  shows "double_to_fixed (round_ratio s z (10 ^ 7)) = fixed_string s z"
proof (cases "z = 0")
  case True
  then show ?thesis by (simp add: round_ratio_def scale_def round_even_def)
next
  case False
  define sg :: real where "sg = (if s then - 1 else 1)"
  define x where "x = real z / real (10 ^ 7 :: nat)"
  define t where "t = (2 :: real) powi - 1075"
  have "real z < real (2 ^ 52)"
    using assms by (simp only: of_nat_less_iff)
  then have z: "real z < 2 ^ 52" by simp
  have x: "x * 10 ^ 7 = real z" "0 \<le> x" "x < 2 ^ 60"
    using z by (simp_all add: x_def)
  have r: "rounds_to (round_ratio s z (10 ^ 7)) (sg * x)"
    unfolding x_def sg_def
    using small_less_half_max [OF x(3)] by (intro round_ratio_value) (simp_all add: x_def)
  then obtain s' m e where y: "round_ratio s z (10 ^ 7) = Finite s' m e"
    using rounds_toD(1) [OF r] by (cases "round_ratio s z (10 ^ 7)") auto
  have s': "s' = s"
    using y False by (auto simp: round_ratio_def split: prod.splits if_splits)
  define v where "v = real m * 2 powi e"
  have "dval (Finite s m e) - sg * x = sg * (v - x)" "\<bar>sg * x\<bar> = x" "\<bar>sg * (v - x)\<bar> = \<bar>v - x\<bar>"
    using x(2) by (simp_all add: sg_def v_def abs_minus_commute)
  then have "\<bar>v - x\<bar> \<le> max (x / 2 ^ 53) t"
    using rounds_toD(3) [OF r] unfolding y s' t_def [symmetric] by simp
  then have "\<bar>v - x\<bar> * 10 ^ 7 \<le> max (x / 2 ^ 53) t * 10 ^ 7"
    by (rule mult_right_mono) simp
  also have "\<dots> < 1 / 2"
    using z x powi_1075_tiny unfolding t_def [symmetric] by (simp add: max_def)
  finally have "\<bar>v * 10 ^ 7 - real z\<bar> < 1 / 2"
    unfolding x(1) [symmetric] left_diff_distrib [symmetric] abs_mult by simp
  moreover have "real (fst (scale (m * 10 ^ 7) 1 (- e))) / real (snd (scale (m * 10 ^ 7) 1 (- e))) = v * 10 ^ 7"
    unfolding scale_ratio [OF zero_less_one] by (simp add: v_def power_int_minus divide_inverse)
  moreover have "0 < snd (scale (m * 10 ^ 7) 1 (- e))"
    by (simp add: scale_def)
  ultimately have "round_even (fst (scale (m * 10 ^ 7) 1 (- e))) (snd (scale (m * 10 ^ 7) 1 (- e))) = z"
    by (intro round_even_nearest) simp_all
  then show ?thesis unfolding y s' by (simp only: double_to_fixed.simps Let_def)
qed

end
