(* ===== verification/Text_Numbers.thy ===== *)
theory Text_Numbers
  imports Binary64
begin

text \<open>
  Characters and numbers in text, as \<open>src/the-great-approximator/msg_parser.cpp\<close> reads and writes
  them: the format checks, \<open>std::stoll\<close> and \<open>std::stod\<close>, and \<open>doubleToString\<close>. The classification of
  characters is that of the "C" locale, which the programs never leave.
\<close>

section \<open>Characters\<close>

definition code :: "char \<Rightarrow> nat" where
  "code c = of_char c"

definition isdigit :: "char \<Rightarrow> bool" where
  "isdigit c \<longleftrightarrow> 48 \<le> code c \<and> code c \<le> 57"

definition isalpha :: "char \<Rightarrow> bool" where
  "isalpha c \<longleftrightarrow> (65 \<le> code c \<and> code c \<le> 90) \<or> (97 \<le> code c \<and> code c \<le> 122)"

definition isalnum :: "char \<Rightarrow> bool" where
  "isalnum c \<longleftrightarrow> isdigit c \<or> isalpha c"

definition islower :: "char \<Rightarrow> bool" where
  "islower c \<longleftrightarrow> 97 \<le> code c \<and> code c \<le> 122"

definition isspace :: "char \<Rightarrow> bool" where
  "isspace c \<longleftrightarrow> code c = 32 \<or> (9 \<le> code c \<and> code c \<le> 13)"

definition digit_value :: "char \<Rightarrow> nat" where
  "digit_value c = code c - 48"

definition isAlphanumeric :: "string \<Rightarrow> bool" where
  "isAlphanumeric str = list_all isalnum str"

section \<open>Formats\<close>

definition isValidIntegerStringFormat :: "string \<Rightarrow> bool" where
  "isValidIntegerStringFormat str =
     (if str = [] then False
      else if hd str = CHR ''-''
      then (if length str = 1 then False else list_all isdigit (drop 1 str))
      else list_all isdigit str)"

definition max_fractional_digits :: nat where "max_fractional_digits = 7"

text \<open>
  The checks of \<open>isValidDoubleStringFormat\<close> on what is left of the string: the loop over the leading
  digits, the point, the loop over the fractional digits with its counter, and the two final checks.
\<close>

fun fractional_loop :: "string \<Rightarrow> bool \<Rightarrow> nat \<Rightarrow> bool \<Rightarrow> bool" where
  "fractional_loop (c # cs) has_leading n has_fractional =
     (if isdigit c
      then (if max_fractional_digits < Suc n then False else fractional_loop cs has_leading (Suc n) True)
      else False)"
| "fractional_loop [] has_leading n has_fractional = (has_leading \<or> has_fractional)"

definition after_leading :: "string \<Rightarrow> bool \<Rightarrow> bool" where
  "after_leading str has_leading =
     (case str of
        c # cs \<Rightarrow> fractional_loop (if c = CHR ''.'' then cs else str) has_leading 0 False
      | [] \<Rightarrow> fractional_loop [] has_leading 0 False)"

fun leading_loop :: "string \<Rightarrow> bool \<Rightarrow> bool" where
  "leading_loop (c # cs) has_leading =
     (if isdigit c then leading_loop cs True else after_leading (c # cs) has_leading)"
| "leading_loop [] has_leading = after_leading [] has_leading"

definition isValidDoubleStringFormat :: "string \<Rightarrow> bool" where
  "isValidDoubleStringFormat str =
     (if str = [] then False
      else if hd str = CHR ''-''
      then (if length str = 1 then False else leading_loop (drop 1 str) False)
      else leading_loop str False)"

section \<open>Numbers\<close>

definition digits_value :: "string \<Rightarrow> nat" where
  "digits_value ds = foldl (\<lambda>n c. 10 * n + digit_value c) 0 ds"

text \<open>
  \<open>std::stoll\<close>: the value and the number of characters processed; \<open>None\<close> for an exception (no
  digits, or a value outside \<open>long long\<close>).
\<close>

definition read_sign :: "string \<Rightarrow> bool \<times> string" where
  "read_sign str =
     (case str of
        c # cs \<Rightarrow> if c = CHR ''-'' then (True, cs) else if c = CHR ''+'' then (False, cs) else (False, str)
      | [] \<Rightarrow> (False, []))"

definition stoll :: "string \<Rightarrow> (int \<times> nat) option" where
  "stoll str =
     (case read_sign (dropWhile isspace str) of (neg, rest) \<Rightarrow>
      let ds = takeWhile isdigit rest;
          v = (if neg then - int (digits_value ds) else int (digits_value ds))
      in if ds = [] then None
         else if v < - (2 ^ 63) \<or> 2 ^ 63 \<le> v then None
         else Some (v, length str - length rest + length ds))"

definition parseInteger :: "string \<Rightarrow> int option" where
  "parseInteger str =
     (if \<not> isValidIntegerStringFormat str then None
      else case stoll str of
             None \<Rightarrow> None
           | Some (temp_val, processed_chars) \<Rightarrow>
               if processed_chars \<noteq> length str then None
               else if temp_val < - (2 ^ 31) \<or> 2 ^ 31 - 1 < temp_val then None
               else Some temp_val)"

text \<open>
  \<open>std::stod\<close> on decimal numbers without an exponent: white space, a sign, digits with at most one
  point. (Exponents, hexadecimal numbers, \<open>inf\<close> and \<open>nan\<close> do not pass the format check that
  precedes every call.) The result is the nearest \<open>double\<close>; \<open>None\<close> is an exception (no digits,
  or out of range).
\<close>

definition stod :: "string \<Rightarrow> (double \<times> nat) option" where
  "stod str =
     (case read_sign (dropWhile isspace str) of (neg, rest) \<Rightarrow>
      let ds = takeWhile isdigit rest;
          rest1 = dropWhile isdigit rest;
          fs = (case rest1 of c # cs \<Rightarrow> if c = CHR ''.'' then takeWhile isdigit cs else [] | [] \<Rightarrow> []);
          point = (case rest1 of c # cs \<Rightarrow> if c = CHR ''.'' then 1 else 0 | [] \<Rightarrow> 0)
      in if ds = [] \<and> fs = [] then None
         else case round_ratio neg (digits_value (ds @ fs)) (10 ^ length fs) of
                Infinity _ \<Rightarrow> None
              | x \<Rightarrow> Some (x, length str - length rest + length ds + point + length fs))"

definition parseDouble :: "string \<Rightarrow> double option" where
  "parseDouble str =
     (if \<not> isValidDoubleStringFormat str then None
      else case stod str of
             None \<Rightarrow> None
           | Some (v, processed_chars) \<Rightarrow> if processed_chars = length str then Some v else None)"

definition doubleToString :: "double \<Rightarrow> string" where
  "doubleToString val = double_to_fixed val"

section \<open>Facts about characters\<close>

lemma not_digit [simp]: "\<not> isdigit CHR ''-''" "\<not> isdigit CHR ''+''" "\<not> isdigit CHR ''.''" "\<not> isdigit CHR '' ''"
  by (simp_all add: isdigit_def code_def)

lemma digit_not_space [simp]: "isdigit c \<Longrightarrow> \<not> isspace c"
  by (auto simp: isdigit_def isspace_def)

lemma digit_not_sign: "isdigit c \<Longrightarrow> c \<noteq> CHR ''-'' \<and> c \<noteq> CHR ''+'' \<and> c \<noteq> CHR ''.'' \<and> c \<noteq> CHR '' ''"
  by (auto simp: isdigit_def code_def)

lemma digit_char_props [simp]:
  assumes "d < 10"
  shows "isdigit (digit_char d)" and "digit_value (digit_char d) = d"
proof -
  have "code (digit_char d) = 48 + d"
    using assms unfolding code_def digit_char_def of_char_of by (intro mod_less) simp
  then show "isdigit (digit_char d)" "digit_value (digit_char d) = d"
    using assms by (simp_all add: isdigit_def digit_value_def)
qed

lemma digits_value_append: "digits_value (xs @ ys) = digits_value xs * 10 ^ length ys + digits_value ys"
proof -
  have "foldl (\<lambda>n c. 10 * n + digit_value c) a ys = a * 10 ^ length ys + digits_value ys" for a
    unfolding digits_value_def by (induction ys rule: rev_induct) (simp_all add: algebra_simps)
  from this [of "digits_value xs"] show ?thesis by (simp only: digits_value_def foldl_append)
qed

lemma digits_value_simps [simp]: "digits_value [] = 0" "digits_value [c] = digit_value c"
  by (simp_all add: digits_value_def)

lemma show_nat_digits: "list_all isdigit (show_nat n) \<and> show_nat n \<noteq> [] \<and> digits_value (show_nat n) = n"
proof (induction n rule: show_nat.induct)
  case (1 n)
  then show ?case
    by (subst show_nat.simps, subst (2) show_nat.simps, subst (3) show_nat.simps)
      (auto simp: digits_value_append)
qed

lemma pad_digits_props:
  "length (pad_digits k z) = k" "list_all isdigit (pad_digits k z)" "digits_value (pad_digits k z) = z mod 10 ^ k"
proof -
  have "digits_value (pad_digits k z) = z mod 10 ^ k"
  proof (induction k arbitrary: z)
    case (Suc k)
    have "z mod 10 ^ Suc k = 10 * (z div 10 mod 10 ^ k) + z mod 10"
      using mod_mult2_eq [of z 10 "10 ^ k"] by simp
    then show ?case by (simp add: Suc digits_value_append)
  qed simp
  then show "digits_value (pad_digits k z) = z mod 10 ^ k" .
  show "length (pad_digits k z) = k" "list_all isdigit (pad_digits k z)"
    by (induction k arbitrary: z) auto
qed

lemma digits_takeWhile: "list_all isdigit ds \<Longrightarrow> takeWhile isdigit (ds @ r) = ds @ takeWhile isdigit r"
  and digits_dropWhile: "list_all isdigit ds \<Longrightarrow> dropWhile isdigit (ds @ r) = dropWhile isdigit r"
  by (induction ds) auto

section \<open>What the formats accept\<close>

definition decimal_string :: "bool \<Rightarrow> string \<Rightarrow> bool \<Rightarrow> string \<Rightarrow> string" where
  "decimal_string neg ds point fs = (if neg then ''-'' else []) @ ds @ (if point then ''.'' else []) @ fs"

definition decimal_parts :: "string \<Rightarrow> bool \<Rightarrow> string \<Rightarrow> bool" where
  "decimal_parts ds point fs \<longleftrightarrow> list_all isdigit ds \<and> list_all isdigit fs \<and> length fs \<le> 7 \<and>
     (ds \<noteq> [] \<or> fs \<noteq> []) \<and> (point \<or> fs = [])"

lemma fractional_loop_iff:
  "fractional_loop fs l n h \<longleftrightarrow> list_all isdigit fs \<and> (fs \<noteq> [] \<longrightarrow> n + length fs \<le> 7) \<and> (l \<or> h \<or> fs \<noteq> [])"
  by (induction fs l n h rule: fractional_loop.induct) (auto simp: max_fractional_digits_def)

lemma leading_loop_digits: "list_all isdigit ds \<Longrightarrow> leading_loop (ds @ r) l = leading_loop r (l \<or> ds \<noteq> [])"
  by (induction ds arbitrary: l) auto

lemma leading_loop_parts:
  assumes "\<not> (\<exists>c cs. r = c # cs \<and> isdigit c)"
  shows "leading_loop r l \<longleftrightarrow> (r = [] \<and> l) \<or>
    (\<exists>fs. r = CHR ''.'' # fs \<and> list_all isdigit fs \<and> length fs \<le> 7 \<and> (l \<or> fs \<noteq> []))"
  using assms by (cases r) (auto simp: after_leading_def fractional_loop_iff)

lemma digits_prefix: "\<exists>ds r. str = ds @ r \<and> list_all isdigit ds \<and> \<not> (\<exists>c cs. r = c # cs \<and> isdigit c)"
proof (induction str)
  case (Cons c cs)
  then obtain ds r where "cs = ds @ r" "list_all isdigit ds" "\<not> (\<exists>c cs. r = c # cs \<and> isdigit c)"
    by blast
  then show ?case
    by (cases "isdigit c") (auto intro: exI [of _ "c # ds"] exI [of _ "[]"])
qed simp

lemma leading_loop_iff:
  "leading_loop str False \<longleftrightarrow> (\<exists>ds point fs. str = decimal_string False ds point fs \<and> decimal_parts ds point fs)"
proof
  assume loop: "leading_loop str False"
  obtain ds r where str: "str = ds @ r" and ds: "list_all isdigit ds" and r: "\<not> (\<exists>c cs. r = c # cs \<and> isdigit c)"
    using digits_prefix by blast
  have "leading_loop r (ds \<noteq> [])"
    using loop leading_loop_digits [OF ds, of r False] str by simp
  then consider "r = []" "ds \<noteq> []"
    | fs where "r = CHR ''.'' # fs" "list_all isdigit fs" "length fs \<le> 7" "ds \<noteq> [] \<or> fs \<noteq> []"
    unfolding leading_loop_parts [OF r] by metis
  then show "\<exists>ds point fs. str = decimal_string False ds point fs \<and> decimal_parts ds point fs"
  proof cases
    case 1
    then have "str = decimal_string False ds False [] \<and> decimal_parts ds False []"
      using ds str by (simp add: decimal_string_def decimal_parts_def)
    then show ?thesis by blast
  next
    case 2
    then have "str = decimal_string False ds True fs \<and> decimal_parts ds True fs"
      using ds str by (simp add: decimal_string_def decimal_parts_def)
    then show ?thesis by blast
  qed
next
  assume "\<exists>ds point fs. str = decimal_string False ds point fs \<and> decimal_parts ds point fs"
  then obtain ds point fs where "str = decimal_string False ds point fs" "decimal_parts ds point fs" by blast
  then show "leading_loop str False"
    by (cases point)
      (auto simp: decimal_string_def decimal_parts_def leading_loop_digits after_leading_def fractional_loop_iff
        leading_loop_digits [where r = "[]", simplified])
qed

lemma first_of_decimal: "decimal_parts ds point fs \<Longrightarrow> decimal_string False ds point fs \<noteq> [] \<and>
    hd (decimal_string False ds point fs) \<noteq> CHR ''-''"
  by (cases ds) (auto simp: decimal_string_def decimal_parts_def dest: digit_not_sign)

lemma decimal_string_neg: "decimal_string True ds point fs = CHR ''-'' # decimal_string False ds point fs"
  by (simp add: decimal_string_def)

lemma valid_double_iff:
  "isValidDoubleStringFormat str \<longleftrightarrow>
     (\<exists>neg ds point fs. str = decimal_string neg ds point fs \<and> decimal_parts ds point fs)"
proof (cases str)
  case Nil
  then show ?thesis
    using first_of_decimal by (auto simp: isValidDoubleStringFormat_def decimal_string_neg dest: sym)
      (metis (full_types) decimal_string_neg list.distinct(1))
next
  case (Cons c cs)
  show ?thesis
  proof (cases "c = CHR ''-''")
    case True
    have "\<not> (cs = [] \<and> leading_loop cs False)"
      unfolding leading_loop_iff using first_of_decimal by metis
    then have "isValidDoubleStringFormat str \<longleftrightarrow> leading_loop cs False"
      using True Cons by (auto simp: isValidDoubleStringFormat_def)
    also have "\<dots> \<longleftrightarrow> (\<exists>neg ds point fs. str = decimal_string neg ds point fs \<and> decimal_parts ds point fs)"
      using True Cons first_of_decimal unfolding leading_loop_iff
      by (metis (full_types) decimal_string_neg list.sel(1) list.sel(3))
    finally show ?thesis .
  next
    case False
    then have "isValidDoubleStringFormat str \<longleftrightarrow> leading_loop str False"
      using Cons by (simp add: isValidDoubleStringFormat_def)
    also have "\<dots> \<longleftrightarrow> (\<exists>neg ds point fs. str = decimal_string neg ds point fs \<and> decimal_parts ds point fs)"
      using False Cons unfolding leading_loop_iff by (metis (full_types) decimal_string_neg list.inject)
    finally show ?thesis .
  qed
qed

text \<open>The number that a valid string denotes, before and after rounding.\<close>

definition decimal_double :: "bool \<Rightarrow> string \<Rightarrow> string \<Rightarrow> double" where
  "decimal_double neg ds fs = round_ratio neg (digits_value (ds @ fs)) (10 ^ length fs)"

lemma skip_space_decimal:
  assumes "decimal_parts ds point fs"
  shows "dropWhile isspace (decimal_string neg ds point fs) = decimal_string neg ds point fs"
proof -
  have "\<not> isspace CHR ''-''" "\<not> isspace CHR ''.''" by (simp_all add: isspace_def code_def)
  then show ?thesis
    using assms by (cases ds) (auto simp: decimal_string_def decimal_parts_def)
qed

lemma read_sign_decimal:
  assumes "decimal_parts ds point fs"
  shows "read_sign (decimal_string neg ds point fs) = (neg, decimal_string False ds point fs)"
  using assms by (cases ds) (auto simp: decimal_string_def decimal_parts_def read_sign_def dest: digit_not_sign)

lemma parseDouble_decimal:
  assumes "decimal_parts ds point fs"
  shows "parseDouble (decimal_string neg ds point fs) =
    (case decimal_double neg ds fs of Infinity _ \<Rightarrow> None | x \<Rightarrow> Some x)"
proof -
  have v: "isValidDoubleStringFormat (decimal_string neg ds point fs)"
    unfolding valid_double_iff using assms by blast
  have d: "list_all isdigit ds" "list_all isdigit fs" "ds = [] \<longrightarrow> fs \<noteq> []" "point \<or> fs = []"
    using assms by (auto simp: decimal_parts_def)
  let ?S = "decimal_string neg ds point fs" and ?R = "decimal_string False ds point fs"
  have fs: "takeWhile isdigit fs = fs"
    using digits_takeWhile [OF d(2), of "[]"] by simp
  have R: "takeWhile isdigit ?R = ds" "dropWhile isdigit ?R = (if point then CHR ''.'' # fs else [])"
    using d by (auto simp: decimal_string_def digits_takeWhile digits_dropWhile)
  have len: "length ?S - length ?R + length ds + (if point then 1 else 0) + length fs = length ?S"
    by (simp add: decimal_string_def)
  have "stod ?S = (case decimal_double neg ds fs of Infinity _ \<Rightarrow> None | x \<Rightarrow> Some (x, length ?S))"
  proof (cases point)
    case True
    show ?thesis
      unfolding stod_def skip_space_decimal [OF assms] read_sign_decimal [OF assms] prod.case R Let_def
        decimal_double_def
      using len d(3) by (simp add: True fs split: double.split)
  next
    case False
    then have "fs = []" using d(4) by simp
    then show ?thesis
      unfolding stod_def skip_space_decimal [OF assms] read_sign_decimal [OF assms] prod.case R Let_def
        decimal_double_def
      using len d(3) by (simp add: False split: double.split)
  qed
  then show ?thesis
    unfolding parseDouble_def using v by (simp split: double.splits)
qed

lemma parseDouble_invalid: "\<not> isValidDoubleStringFormat str \<Longrightarrow> parseDouble str = None"
  by (simp add: parseDouble_def)

lemma round_ratio_not_NaN: "round_ratio s n d \<noteq> NaN"
  by (simp add: round_ratio_def split: prod.splits)

lemma parseDouble_Some:
  "parseDouble str = Some v \<longleftrightarrow> (\<exists>neg ds point fs. str = decimal_string neg ds point fs \<and> decimal_parts ds point fs \<and>
     v = decimal_double neg ds fs \<and> is_finite v)"
proof -
  have dec: "parseDouble (decimal_string neg ds point fs) = Some v \<longleftrightarrow> v = decimal_double neg ds fs \<and> is_finite v"
    if "decimal_parts ds point fs" for neg ds point fs
    using round_ratio_not_NaN [of neg "digits_value (ds @ fs)" "10 ^ length fs"]
    by (auto simp: parseDouble_decimal [OF that] decimal_double_def split: double.splits)
  show ?thesis
  proof (cases "isValidDoubleStringFormat str")
    case True
    then obtain neg ds point fs where "str = decimal_string neg ds point fs" "decimal_parts ds point fs"
      unfolding valid_double_iff by blast
    then show ?thesis using dec by blast
  next
    case False
    then show ?thesis unfolding valid_double_iff [of str] using parseDouble_invalid [OF False] by auto
  qed
qed

lemma parseInteger_digits:
  fixes neg :: bool
  assumes "list_all isdigit ds" and "ds \<noteq> []"
  defines "v \<equiv> (if neg then - int (digits_value ds) else int (digits_value ds))"
  shows "parseInteger ((if neg then ''-'' else []) @ ds) = (if - (2 ^ 31) \<le> v \<and> v < 2 ^ 31 then Some v else None)"
proof -
  let ?s = "(if neg then ''-'' else []) @ ds"
  have hd: "isdigit (hd ds)" and first: "hd ds \<noteq> CHR ''-''" "hd ds \<noteq> CHR ''+''"
    using assms(1,2) digit_not_sign by (cases ds; auto)+
  have not_space: "\<not> isspace CHR ''-''" by (simp add: isspace_def code_def)
  have valid: "isValidIntegerStringFormat ?s"
    using assms(1,2) first by (auto simp: isValidIntegerStringFormat_def)
  have space: "dropWhile isspace ?s = ?s"
    using hd assms(2) not_space by (cases ds) auto
  have sign: "read_sign ?s = (neg, ds)"
    using first assms(2) by (cases ds) (auto simp: read_sign_def)
  have digits: "takeWhile isdigit ds = ds"
    using digits_takeWhile [OF assms(1), of "[]"] by simp
  have "stoll ?s = (if v < - (2 ^ 63) \<or> 2 ^ 63 \<le> v then None else Some (v, length ?s))"
    unfolding stoll_def space sign prod.case digits Let_def v_def using assms(2) by simp
  then show ?thesis
    using valid by (simp add: parseInteger_def)
qed

section \<open>Reading what was printed\<close>

lemma fixed_string_decimal:
  "fixed_string s z = decimal_string s (show_nat (z div 10 ^ 7)) True (pad_digits 7 (z mod 10 ^ 7))"
  "decimal_parts (show_nat (z div 10 ^ 7)) True (pad_digits 7 (z mod 10 ^ 7))"
  using show_nat_digits pad_digits_props
  by (simp_all add: fixed_string_def decimal_string_def decimal_parts_def)

lemma decimal_double_fixed:
  "decimal_double s (show_nat (z div 10 ^ 7)) (pad_digits 7 (z mod 10 ^ 7)) = round_ratio s z (10 ^ 7)"
  unfolding decimal_double_def digits_value_append pad_digits_props
  using show_nat_digits by simp

lemma parseDouble_fixed:
  assumes "is_finite (round_ratio s z (10 ^ 7))"
  shows "parseDouble (fixed_string s z) = Some (round_ratio s z (10 ^ 7))"
  unfolding parseDouble_Some
  using fixed_string_decimal decimal_double_fixed assms by metis

lemma parseInteger_show:
  assumes "- (2 ^ 31) \<le> i" and "i < 2 ^ 31"
  shows "parseInteger (show_int i) = Some i"
  using parseInteger_digits [of "show_nat (nat \<bar>i\<bar>)" "i < 0"] show_nat_digits assms
  by (simp add: show_int_def split: if_splits)

end
