(* ===== verification/Text_Messages.thy ===== *)
theory Text_Messages
  imports Text_Numbers "HOL-Library.Multiset"
begin

text \<open>
  The text protocol of the approximator: \<open>src/the-great-approximator/msg_parser.{h,cpp}\<close>. A message
  is created from a line that ends with CRLF, or not at all (\<open>None\<close> stands for \<open>nullptr\<close>). The
  subclasses of \<open>Message\<close> are the constructors of \<open>payload\<close>; each has its \<open>parseMessage\<close>.
\<close>

section \<open>Regular expressions\<close>

text \<open>The part of \<open>std::regex\<close> the parser uses, matched by derivatives.\<close>

datatype rx = Never | Eps | Cls "char \<Rightarrow> bool" | Seq rx rx | Alt rx rx | Star rx

fun accepts_empty :: "rx \<Rightarrow> bool" where
  "accepts_empty Never = False"
| "accepts_empty Eps = True"
| "accepts_empty (Cls P) = False"
| "accepts_empty (Seq r s) = (accepts_empty r \<and> accepts_empty s)"
| "accepts_empty (Alt r s) = (accepts_empty r \<or> accepts_empty s)"
| "accepts_empty (Star r) = True"

fun after_char :: "char \<Rightarrow> rx \<Rightarrow> rx" where
  "after_char c Never = Never"
| "after_char c Eps = Never"
| "after_char c (Cls P) = (if P c then Eps else Never)"
| "after_char c (Seq r s) =
     (if accepts_empty r then Alt (Seq (after_char c r) s) (after_char c s) else Seq (after_char c r) s)"
| "after_char c (Alt r s) = Alt (after_char c r) (after_char c s)"
| "after_char c (Star r) = Seq (after_char c r) (Star r)"

fun regex_match :: "string \<Rightarrow> rx \<Rightarrow> bool" where
  "regex_match [] r = accepts_empty r"
| "regex_match (c # cs) r = regex_match cs (after_char c r)"

definition one_or_more :: "rx \<Rightarrow> rx" where
  "one_or_more r = Seq r (Star r)"

text \<open>What an expression means.\<close>

inductive in_rx :: "rx \<Rightarrow> string \<Rightarrow> bool" where
  eps: "in_rx Eps []"
| cls: "P c \<Longrightarrow> in_rx (Cls P) [c]"
| seq: "in_rx r u \<Longrightarrow> in_rx s v \<Longrightarrow> in_rx (Seq r s) (u @ v)"
| alt1: "in_rx r u \<Longrightarrow> in_rx (Alt r s) u"
| alt2: "in_rx s u \<Longrightarrow> in_rx (Alt r s) u"
| star0: "in_rx (Star r) []"
| star1: "in_rx r u \<Longrightarrow> in_rx (Star r) v \<Longrightarrow> in_rx (Star r) (u @ v)"

inductive_simps in_rx_simps: "in_rx Never u" "in_rx Eps u" "in_rx (Cls P) u" "in_rx (Alt r s) u"
inductive_cases in_SeqE: "in_rx (Seq r s) u"
inductive_cases in_StarE: "in_rx (Star r) u"

lemma accepts_empty_iff: "accepts_empty r \<longleftrightarrow> in_rx r []"
proof (induction r)
  case (Seq r s)
  then show ?case by (auto elim!: in_SeqE intro: in_rx.seq [of r "[]" s "[]", simplified])
qed (auto simp: in_rx_simps intro: in_rx.intros)

lemma star_cons: "in_rx (Star r) (c # w) \<Longrightarrow> \<exists>u v. w = u @ v \<and> in_rx r (c # u) \<and> in_rx (Star r) v"
proof (induction "Star r" "c # w" arbitrary: c w rule: in_rx.induct)
  case (star1 u v)
  then show ?case by (cases u) auto
qed

lemma after_char_iff: "in_rx (after_char c r) w \<longleftrightarrow> in_rx r (c # w)"
proof (induction r arbitrary: w)
  case (Seq r s)
  show ?case
  proof
    assume "in_rx (after_char c (Seq r s)) w"
    then consider u v where "w = u @ v" "in_rx (after_char c r) u" "in_rx s v"
      | "accepts_empty r" "in_rx (after_char c s) w"
      by (auto simp: in_rx_simps elim!: in_SeqE split: if_splits)
    then show "in_rx (Seq r s) (c # w)"
    proof cases
      case 1
      then show ?thesis using Seq.IH(1) in_rx.seq [of r "c # u" s v] by simp
    next
      case 2
      then show ?thesis using Seq.IH(2) in_rx.seq [of r "[]" s "c # w"] by (simp add: accepts_empty_iff)
    qed
  next
    assume "in_rx (Seq r s) (c # w)"
    then obtain u v where uv: "c # w = u @ v" "in_rx r u" "in_rx s v" by (auto elim: in_SeqE)
    show "in_rx (after_char c (Seq r s)) w"
    proof (cases u)
      case Nil
      then show ?thesis using uv Seq.IH(2) by (auto simp: in_rx_simps accepts_empty_iff)
    next
      case (Cons d u')
      then have "in_rx (after_char c r) u'" "w = u' @ v"
        using uv Seq.IH(1) by auto
      then show ?thesis using uv(3) by (auto simp: in_rx_simps intro: in_rx.seq)
    qed
  qed
next
  case (Star r)
  show ?case
  proof
    assume "in_rx (after_char c (Star r)) w"
    then obtain u v where "w = u @ v" "in_rx (after_char c r) u" "in_rx (Star r) v" by (auto elim: in_SeqE)
    then show "in_rx (Star r) (c # w)"
      using Star.IH in_rx.star1 [of r "c # u" v] by simp
  next
    assume "in_rx (Star r) (c # w)"
    then show "in_rx (after_char c (Star r)) w"
      using star_cons Star.IH by (fastforce intro: in_rx.seq)
  qed
qed (auto simp: in_rx_simps)

lemma regex_match_iff: "regex_match w r \<longleftrightarrow> in_rx r w"
  by (induction w arbitrary: r) (simp_all add: accepts_empty_iff after_char_iff)

section \<open>Lines and parameters\<close>

definition crlf :: string where "crlf = [CHR 0x0D, CHR 0x0A]"

definition extractCommandAndParams :: "string \<Rightarrow> (string \<times> string) option" where
  "extractCommandAndParams line =
     (if line = [] then None
      else let cmd = takeWhile (\<lambda>c. c \<noteq> CHR '' '') line; space_pos = length cmd in
        if space_pos = length line then Some (line, [])
        else if space_pos = 0 then None
        else if space_pos + 1 = length line then None
        else Some (take space_pos line, drop (space_pos + 1) line))"

text \<open>The character class \<open>[a-zA-Z0-9\-\.]\<close>, and the expression of \<open>splitParams\<close>.\<close>

definition param_char :: "char \<Rightarrow> bool" where
  "param_char c \<longleftrightarrow> isalnum c \<or> c = CHR ''-'' \<or> c = CHR ''.''"

definition params_regex :: rx where
  "params_regex =
     Seq (Star (Seq (one_or_more (Cls param_char)) (Cls (\<lambda>c. c = CHR '' '')))) (one_or_more (Cls param_char))"

text \<open>The loop \<open>while (iss >> param)\<close>.\<close>

function read_words :: "string \<Rightarrow> string list" where
  "read_words str =
     (let rest = dropWhile isspace str in
      if rest = [] then []
      else takeWhile (\<lambda>c. \<not> isspace c) rest # read_words (dropWhile (\<lambda>c. \<not> isspace c) rest))"
  by pat_completeness auto
termination
proof (relation "measure length")
  fix str :: string and rest
  assume r: "rest = dropWhile isspace str" "rest \<noteq> []"
  then have "\<not> isspace (hd rest)" using hd_dropWhile by metis
  then have "length (dropWhile (\<lambda>c. \<not> isspace c) rest) < length rest"
    using r(2) length_dropWhile_le [of "\<lambda>c. \<not> isspace c" "tl rest"] by (cases rest) auto
  also have "length rest \<le> length str" using r(1) by (simp add: length_dropWhile_le)
  finally show "(dropWhile (\<lambda>c. \<not> isspace c) rest, str) \<in> measure length" by simp
qed simp

declare read_words.simps [simp del]

definition splitParams :: "string \<Rightarrow> string list option" where
  "splitParams params =
     (if params = [] then Some []
      else if \<not> regex_match params params_regex then None
      else Some (read_words params))"

section \<open>Messages\<close>

datatype MessageType = MT_HELLO | MT_COEFF | MT_PUT | MT_BAD_PUT | MT_STATE | MT_PENALTY | MT_SCORING

datatype payload =
    HelloMessage (getPlayerId: string)
  | CoeffMessage (getCoeffs: "double list")
  | PutMessage (getPoint: int) (getValue: double)
  | BadPutMessage (getPoint: int) (getValue: double)
  | StateMessage (getApproxValues: "double list")
  | PenaltyMessage (getPoint: int) (getValue: double)
  | ScoringMessage (getPlayerIds: "string list") (getScores: "double list")

record Message =
  raw_message :: string
  msg_params :: "string list"
  body :: payload

fun payload_type :: "payload \<Rightarrow> MessageType" where
  "payload_type (HelloMessage _) = MT_HELLO"
| "payload_type (CoeffMessage _) = MT_COEFF"
| "payload_type (PutMessage _ _) = MT_PUT"
| "payload_type (BadPutMessage _ _) = MT_BAD_PUT"
| "payload_type (StateMessage _) = MT_STATE"
| "payload_type (PenaltyMessage _ _) = MT_PENALTY"
| "payload_type (ScoringMessage _ _) = MT_SCORING"

definition getType :: "Message \<Rightarrow> MessageType" where
  "getType msg = payload_type (body msg)"

definition toRawString :: "Message \<Rightarrow> string" where
  "toRawString msg = take (length (raw_message msg) - length crlf) (raw_message msg)"

definition validateIntDoublePair :: "string list \<Rightarrow> (int \<times> double) option" where
  "validateIntDoublePair vec =
     (case vec of
        [a, b] \<Rightarrow> (case (parseInteger a, parseDouble b) of (Some i, Some v) \<Rightarrow> Some (i, v) | _ \<Rightarrow> None)
      | _ \<Rightarrow> None)"

definition max_n :: nat where "max_n = 8"
definition max_k :: nat where "max_k = 10000"
definition eps :: double where "eps = round_ratio False 3 (10 ^ 8)"
definition min_coeff :: double where "min_coeff = double_of_int (- 100)"
definition max_coeff :: double where "max_coeff = double_of_int 100"

subsection \<open>\<open>parseMessage\<close> of the subclasses\<close>

definition parse_hello :: "string list \<Rightarrow> payload option" where
  "parse_hello params =
     (case params of [p] \<Rightarrow> if isAlphanumeric p then Some (HelloMessage p) else None | _ \<Rightarrow> None)"

fun coeff_loop :: "string list \<Rightarrow> double list option" where
  "coeff_loop [] = Some []"
| "coeff_loop (p # ps) =
     (case parseDouble p of
        None \<Rightarrow> None
      | Some c \<Rightarrow>
          if dless (dadd c eps) min_coeff \<or> dless max_coeff (dsub c eps) then None
          else map_option (Cons c) (coeff_loop ps))"

definition parse_coeff :: "string list \<Rightarrow> payload option" where
  "parse_coeff params =
     (if length params < 1 \<or> max_n + 1 < length params then None
      else map_option CoeffMessage (coeff_loop params))"

definition parse_put :: "(int \<Rightarrow> double \<Rightarrow> payload) \<Rightarrow> string list \<Rightarrow> payload option" where
  "parse_put K params = map_option (\<lambda>(i, v). K i v) (validateIntDoublePair params)"

fun state_loop :: "string list \<Rightarrow> double list option" where
  "state_loop [] = Some []"
| "state_loop (p # ps) =
     (case parseDouble p of None \<Rightarrow> None | Some v \<Rightarrow> map_option (Cons v) (state_loop ps))"

definition parse_state :: "string list \<Rightarrow> payload option" where
  "parse_state params =
     (if length params < 1 \<or> max_k + 1 < length params then None
      else map_option StateMessage (state_loop params))"

fun scoring_loop :: "string list \<Rightarrow> (string list \<times> double list) option" where
  "scoring_loop (p # q # ps) =
     (if \<not> isAlphanumeric p then None
      else case parseDouble q of
             None \<Rightarrow> None
           | Some v \<Rightarrow> map_option (\<lambda>(ids, vs). (p # ids, v # vs)) (scoring_loop ps))"
| "scoring_loop _ = Some ([], [])"

definition parse_scoring :: "string list \<Rightarrow> payload option" where
  "parse_scoring params =
     (if length params div 2 * 2 \<noteq> length params then None
      else map_option (\<lambda>(ids, vs). ScoringMessage ids vs) (scoring_loop params))"

definition parseMessage :: "string \<Rightarrow> string list \<Rightarrow> payload option" where
  "parseMessage command params =
     (if command = ''HELLO'' then parse_hello params
      else if command = ''COEFF'' then parse_coeff params
      else if command = ''PUT'' then parse_put PutMessage params
      else if command = ''BAD_PUT'' then parse_put BadPutMessage params
      else if command = ''STATE'' then parse_state params
      else if command = ''PENALTY'' then parse_put PenaltyMessage params
      else if command = ''SCORING'' then parse_scoring params
      else None)"

definition createMessage :: "string \<Rightarrow> Message option" where
  "createMessage line =
     (if length line < 2 \<or> drop (length line - 2) line \<noteq> crlf then None
      else case extractCommandAndParams (take (length line - 2) line) of
             None \<Rightarrow> None
           | Some (command_str, params_str) \<Rightarrow>
               (case splitParams params_str of
                  None \<Rightarrow> None
                | Some params \<Rightarrow>
                    map_option (\<lambda>b. \<lparr>raw_message = line, msg_params = params, body = b\<rparr>)
                      (parseMessage command_str params)))"

definition createMessageWithCRLF :: "string \<Rightarrow> Message option" where
  "createMessageWithCRLF line = createMessage (line @ crlf)"

subsection \<open>Factories of the subclasses\<close>

definition create_hello :: "string \<Rightarrow> Message option" where
  "create_hello pid = createMessageWithCRLF (''HELLO '' @ pid)"

text \<open>The loops that append each value and a space, followed by \<open>pop_back\<close>.\<close>

definition values_string :: "double list \<Rightarrow> string" where
  "values_string vs = butlast (concat (map (\<lambda>v. doubleToString v @ '' '') vs))"

definition create_coeff :: "double list \<Rightarrow> Message option" where
  "create_coeff cs = (if cs = [] then None else createMessageWithCRLF (''COEFF '' @ values_string cs))"

definition create_put :: "int \<Rightarrow> double \<Rightarrow> Message option" where
  "create_put i v = createMessageWithCRLF (''PUT '' @ show_int i @ '' '' @ doubleToString v)"

definition create_bad_put :: "int \<Rightarrow> double \<Rightarrow> Message option" where
  "create_bad_put i v = createMessageWithCRLF (''BAD_PUT '' @ show_int i @ '' '' @ doubleToString v)"

definition create_state :: "double list \<Rightarrow> Message option" where
  "create_state vs = (if vs = [] then None else createMessageWithCRLF (''STATE '' @ values_string vs))"

definition create_penalty :: "int \<Rightarrow> double \<Rightarrow> Message option" where
  "create_penalty i v = createMessageWithCRLF (''PENALTY '' @ show_int i @ '' '' @ doubleToString v)"

text \<open>\<open>operator<\<close> of strings and of pairs, and \<open>std::sort\<close>.\<close>

fun string_less :: "string \<Rightarrow> string \<Rightarrow> bool" where
  "string_less _ [] = False"
| "string_less [] (_ # _) = True"
| "string_less (a # as) (b # bs) = (code a < code b \<or> (code a = code b \<and> string_less as bs))"

definition pair_less :: "string \<times> double \<Rightarrow> string \<times> double \<Rightarrow> bool" where
  "pair_less x y \<longleftrightarrow>
     string_less (fst x) (fst y) \<or> (\<not> string_less (fst y) (fst x) \<and> dless (snd x) (snd y))"

fun insert_score :: "string \<times> double \<Rightarrow> (string \<times> double) list \<Rightarrow> (string \<times> double) list" where
  "insert_score x [] = [x]"
| "insert_score x (y # ys) = (if pair_less y x then y # insert_score x ys else x # y # ys)"

fun sort_scores :: "(string \<times> double) list \<Rightarrow> (string \<times> double) list" where
  "sort_scores [] = []"
| "sort_scores (x # xs) = insert_score x (sort_scores xs)"

definition create_scoring :: "string list \<Rightarrow> double list \<Rightarrow> Message option" where
  "create_scoring ids vs =
     (if length ids \<noteq> length vs then None
      else createMessageWithCRLF (butlast (''SCORING '' @
             concat (map (\<lambda>(p, v). p @ '' '' @ doubleToString v @ '' '') (sort_scores (zip ids vs))))))"

end
