(* ===== verification/Range_Checks.thy ===== *)
theory Range_Checks
  imports Text_Messages
begin

text \<open>
  The range checks of the approximator compare \<open>double\<close>s with a tolerance \<open>eps\<close>. The lemmas show that
  on decimals of at most seven fractional digits, the only numbers that are parsed, they decide the
  exact comparison of the decimal with the bound.
\<close>

definition decimal_value :: "bool \<Rightarrow> string \<Rightarrow> string \<Rightarrow> real" where
  "decimal_value neg ds fs = (if neg then - 1 else 1) * (real (digits_value (ds @ fs)) / 10 ^ length fs)"

lemma decimal_double_near: "near (decimal_double neg ds fs) (decimal_value neg ds fs)"
  using round_ratio_near [of "10 ^ length fs" neg "digits_value (ds @ fs)"]
  by (simp add: decimal_double_def decimal_value_def)

text \<open>A decimal below an integer is below it by a unit of the seventh digit.\<close>

lemma decimal_units:
  assumes "length fs \<le> 7"
  shows "\<exists>k :: int. decimal_value neg ds fs * 10 ^ 7 = real_of_int k"
proof -
  have p: "(10 :: real) ^ 7 = 10 ^ length fs * 10 ^ (7 - length fs)"
    using assms by (simp flip: power_add)
  have "decimal_value neg ds fs * 10 ^ 7 =
      real_of_int ((if neg then - 1 else 1) * int (digits_value (ds @ fs)) * 10 ^ (7 - length fs))"
    unfolding decimal_value_def p by simp
  then show ?thesis by blast
qed

lemma decimal_gap:
  fixes b :: int
  assumes "length fs \<le> 7" and "decimal_value neg ds fs < of_int b"
  shows "decimal_value neg ds fs \<le> of_int b - 1 / 10 ^ 7"
proof -
  obtain k where k: "decimal_value neg ds fs * 10 ^ 7 = real_of_int k"
    using decimal_units [OF assms(1)] by blast
  have "real_of_int k < real_of_int (b * 10 ^ 7)"
    using assms(2) unfolding k [symmetric] by simp
  then have "k \<le> b * 10 ^ 7 - 1" unfolding of_int_less_iff by simp
  then have "real_of_int k \<le> real_of_int (b * 10 ^ 7 - 1)" unfolding of_int_le_iff .
  then show ?thesis unfolding k [symmetric] by simp
qed

section \<open>The tolerance\<close>

lemma eps_rounds: "rounds_to eps (3 / 10 ^ 8)"
proof -
  have "rounds_to eps ((if False then - 1 else 1) * (real 3 / real (10 ^ 8 :: nat)))"
    unfolding eps_def by (intro round_ratio_value small_less_half_max) simp_all
  then show ?thesis by simp
qed

lemma tiny_bound: "max (a / 2 ^ 53) (2 powi - 1075) \<le> a / 2 ^ 53 + 1 / 10 ^ 10" if "0 \<le> a" for a :: real
proof -
  have "(2 :: real) powi - 1075 \<le> 2 powi - 40"
    by (rule power_int_increasing) simp_all
  also have "(2 :: real) powi - 40 \<le> 1 / 10 ^ 10"
    by (simp add: power_int_minus)
  finally show ?thesis using that by simp
qed

lemma rounds_to_bound: "rounds_to y x \<Longrightarrow> \<bar>dval y - x\<bar> \<le> \<bar>x\<bar> / 2 ^ 53 + 1 / 10 ^ 10"
  using rounds_toD(3) tiny_bound [of "\<bar>x\<bar>"] by fastforce

lemma eps_value: "\<bar>dval eps - 3 / 10 ^ 8\<bar> \<le> 2 / 10 ^ 10" "is_finite eps"
  using rounds_to_bound [OF eps_rounds] rounds_toD(1) [OF eps_rounds] by (simp_all add: abs_le_iff)

text \<open>The real arithmetic of the check of a lower bound \<open>- b\<close>.\<close>

lemma check_arith:
  fixes x v e r b :: real
  assumes "5 \<le> b" "b \<le> 100" and "\<bar>v - x\<bar> \<le> \<bar>x\<bar> / 2 ^ 53 + 1 / 10 ^ 10" and "\<bar>e - 3 / 10 ^ 8\<bar> \<le> 2 / 10 ^ 10"
    and "\<bar>r - (v + e)\<bar> \<le> \<bar>v + e\<bar> / 2 ^ 53 + 1 / 10 ^ 10"
  shows "x \<le> - b - 1 / 10 ^ 7 \<Longrightarrow> r < - b" and "- b \<le> x \<Longrightarrow> \<not> r < - b"
proof -
  define y where "y = v + e"
  have v: "v \<le> x + \<bar>x\<bar> / 2 ^ 53 + 1 / 10 ^ 10" "x - \<bar>x\<bar> / 2 ^ 53 - 1 / 10 ^ 10 \<le> v"
    and e: "e \<le> 302 / 10 ^ 10" "298 / 10 ^ 10 \<le> e"
    and r: "r \<le> y + \<bar>y\<bar> / 2 ^ 53 + 1 / 10 ^ 10" "y - \<bar>y\<bar> / 2 ^ 53 - 1 / 10 ^ 10 \<le> r"
    using abs_le_D1 [OF assms(3)] abs_le_D2 [OF assms(3)] abs_le_D1 [OF assms(4)] abs_le_D2 [OF assms(4)]
      abs_le_D1 [OF assms(5)] abs_le_D2 [OF assms(5)] by (simp_all add: y_def)
  show "r < - b" if "x \<le> - b - 1 / 10 ^ 7"
  proof -
    have "\<bar>x\<bar> = - x" using that assms(1) by simp
    then have "y \<le> x - x / 2 ^ 53 + 303 / 10 ^ 10" using v(1) e(1) by (simp add: y_def)
    moreover have "x - x / 2 ^ 53 \<le> - b - 999 / 10 ^ 10" using that assms(2) by (simp add: field_simps)
    ultimately have y: "y \<le> - b - 696 / 10 ^ 10" by simp
    then have "\<bar>y\<bar> = - y" using assms(1) by simp
    then have "r \<le> y - y / 2 ^ 53 + 1 / 10 ^ 10" using r(1) by simp
    also have "y - y / 2 ^ 53 \<le> - b - 690 / 10 ^ 10" using y assms(2) by (simp add: field_simps)
    finally show ?thesis by simp
  qed
  show "\<not> r < - b" if "- b \<le> x"
  proof -
    have "- b - 2 / 10 ^ 10 \<le> v"
      using v(2) that assms(1,2) by (cases "0 \<le> x") (simp_all add: field_simps)
    then have y: "- b + 296 / 10 ^ 10 \<le> y" using e(2) by (simp add: y_def)
    show ?thesis
    proof (cases "0 \<le> y")
      case True
      then have "y - y / 2 ^ 53 - 1 / 10 ^ 10 \<le> r" using r(2) by simp
      moreover have "0 \<le> y - y / 2 ^ 53" using True by (simp add: field_simps)
      ultimately have "- 1 / 10 ^ 10 \<le> r" by simp
      then show ?thesis using assms(1) by simp
    next
      case False
      then have "y + y / 2 ^ 53 - 1 / 10 ^ 10 \<le> r" using r(2) by simp
      moreover have "- b + 294 / 10 ^ 10 \<le> y + y / 2 ^ 53"
        using y assms(1,2) False by (simp add: field_simps)
      ultimately show ?thesis by simp
    qed
  qed
qed

lemma overflow_arith:
  fixes x v e b :: real
  assumes "\<bar>v - x\<bar> \<le> \<bar>x\<bar> / 2 ^ 53 + 1 / 10 ^ 10" and "\<bar>e - 3 / 10 ^ 8\<bar> \<le> 2 / 10 ^ 10" and "1000 \<le> \<bar>v + e\<bar>" and "\<bar>b\<bar> \<le> 100"
  shows "v + e < 0 \<longleftrightarrow> x < - b"
proof -
  have v: "v \<le> x + \<bar>x\<bar> / 2 ^ 53 + 1 / 10 ^ 10" "x - \<bar>x\<bar> / 2 ^ 53 - 1 / 10 ^ 10 \<le> v"
    and e: "e \<le> 1" "0 \<le> e"
    using abs_le_D1 [OF assms(1)] abs_le_D2 [OF assms(1)] abs_le_D1 [OF assms(2)] abs_le_D2 [OF assms(2)] by simp_all
  show ?thesis
  proof (cases "v + e < 0")
    case True
    then have "v \<le> - 1000" using assms(3) e by simp
    then have "x < - 900" using v(2) by (cases "0 \<le> x") (simp_all add: field_simps)
    then show ?thesis using True assms(4) by simp
  next
    case False
    then have "999 \<le> v" using assms(3) e by simp
    then have "900 < x" using v(1) by (cases "0 \<le> x") (simp_all add: field_simps)
    then show ?thesis using False assms(4) by simp
  qed
qed

text \<open>The bounds are represented exactly.\<close>

lemma double_of_int_exact:
  assumes "z \<noteq> 0" and "canonical (Finite (z < 0) m e)" and "0 < m" and "real m * 2 powi e = real_of_int \<bar>z\<bar>"
  shows "double_of_int z = Finite (z < 0) m e"
proof -
  have "round_ratio (z < 0) (nat \<bar>z\<bar>) 1 = Finite (z < 0) m e"
    using assms by (intro round_ratio_exact) simp_all
  then show ?thesis
    using assms(1) by (simp add: double_of_int_def round_dyadic_def scale_def Let_def)
qed

definition exact_bound :: "int \<Rightarrow> bool" where
  "exact_bound b \<longleftrightarrow> is_finite (double_of_int b) \<and> dval (double_of_int b) = of_int b"

lemma exact_bounds: "exact_bound (- 100)" "exact_bound 100" "exact_bound (- 5)" "exact_bound 5"
proof -
  have "double_of_int (- 100) = Finite True 7036874417766400 (- 46)" "double_of_int 100 = Finite False 7036874417766400 (- 46)"
    using double_of_int_exact [of "- 100" 7036874417766400 "- 46"] double_of_int_exact [of 100 7036874417766400 "- 46"]
    by (simp_all add: power_int_minus)
  moreover have "double_of_int (- 5) = Finite True 5629499534213120 (- 50)" "double_of_int 5 = Finite False 5629499534213120 (- 50)"
    using double_of_int_exact [of "- 5" 5629499534213120 "- 50"] double_of_int_exact [of 5 5629499534213120 "- 50"]
    by (simp_all add: power_int_minus)
  ultimately show "exact_bound (- 100)" "exact_bound 100" "exact_bound (- 5)" "exact_bound 5"
    by (simp_all add: exact_bound_def power_int_minus)
qed

lemma dless_finite: "is_finite x \<Longrightarrow> is_finite y \<Longrightarrow> dless x y \<longleftrightarrow> dval x < dval y"
  by (cases x; cases y) (simp_all only: is_finite.simps dless_value)

text \<open>The check of a lower bound and, by symmetry, of an upper bound.\<close>

lemma lower_check:
  assumes v: "rounds_to v x" and gap: "x < - of_int b \<Longrightarrow> x \<le> - of_int b - 1 / 10 ^ 7"
    and b: "5 \<le> b" "b \<le> 100" "exact_bound (- b)"
  shows "dless (dadd v eps) (double_of_int (- b)) \<longleftrightarrow> x < - of_int b"
proof -
  have bd: "is_finite (double_of_int (- b))" "dval (double_of_int (- b)) = - of_int b"
    using b(3) by (simp_all add: exact_bound_def)
  have n: "near (dadd v eps) (dval v + dval eps)"
    using dadd_near rounds_toD(1) [OF v] eps_value(2) by blast
  show ?thesis
  proof (cases "rounds_to (dadd v eps) (dval v + dval eps)")
    case True
    have b': "5 \<le> real_of_int b" "real_of_int b \<le> 100" using b(1,2) by simp_all
    note ar = check_arith [OF b' rounds_to_bound [OF v] eps_value(1) rounds_to_bound [OF True]]
    have "dless (dadd v eps) (double_of_int (- b)) \<longleftrightarrow> dval (dadd v eps) < - of_int b"
      using dless_finite [OF rounds_toD(1) [OF True] bd(1)] bd(2) by simp
    also have "\<dots> \<longleftrightarrow> x < - of_int b"
      using ar gap by (cases "x < - of_int b") auto
    finally show ?thesis .
  next
    case False
    then have inf: "dadd v eps = Infinity (dval v + dval eps < 0)" "half_max \<le> \<bar>dval v + dval eps\<bar>"
      using n by (auto simp: near_def)
    have big: "1000 \<le> \<bar>dval v + dval eps\<bar>"
      using small_less_half_max [of 1000] inf(2) by simp
    have "dless (dadd v eps) (double_of_int (- b)) \<longleftrightarrow> dval v + dval eps < 0"
      using bd(1) unfolding inf(1) by (cases "double_of_int (- b)") simp_all
    also have "\<dots> \<longleftrightarrow> x < - of_int b"
    proof -
      have "\<bar>real_of_int b\<bar> \<le> 100" using b(1,2) by simp
      then show ?thesis by (rule overflow_arith [OF rounds_to_bound [OF v] eps_value(1) big])
    qed
    finally show ?thesis .
  qed
qed

lemma decimal_neg: "decimal_double (\<not> neg) ds fs = dneg (decimal_double neg ds fs)"
  "decimal_value (\<not> neg) ds fs = - decimal_value neg ds fs"
  by (simp_all add: decimal_double_def decimal_value_def round_ratio_def split: prod.splits)

lemma decimal_rounds: "is_finite (decimal_double neg ds fs) \<Longrightarrow> rounds_to (decimal_double neg ds fs) (decimal_value neg ds fs)"
  using decimal_double_near [of neg ds fs] by (auto simp: near_def)

lemma decimal_lower_check:
  assumes "is_finite (decimal_double neg ds fs)" and "length fs \<le> 7" and "5 \<le> b" "b \<le> 100" "exact_bound (- b)"
  shows "dless (dadd (decimal_double neg ds fs) eps) (double_of_int (- b)) \<longleftrightarrow> decimal_value neg ds fs < - of_int b"
  using lower_check [OF decimal_rounds [OF assms(1)] _ assms(3-5)] decimal_gap [OF assms(2), of neg ds "- b"] by simp

text \<open>Rounding is symmetric, so an upper check is a lower check of the negated number.\<close>

lemma round_ratio_neg: "round_ratio (\<not> s) n d = dneg (round_ratio s n d)"
  by (simp add: round_ratio_def split: prod.splits)

lemma signed_int_neg: "signed_int (\<not> s) m = - signed_int s m"
  by (simp add: signed_int_def)

lemma dless_dneg: "dless (dneg a) (dneg b) \<longleftrightarrow> dless b a"
  by (cases a; cases b) (auto simp: signed_int_neg Let_def min.commute)

lemma round_dyadic_neg:
  assumes "z \<noteq> 0"
  shows "round_dyadic s' (- z) e = dneg (round_dyadic s z e)"
proof -
  have "(- z < 0) = (\<not> z < 0)" using assms by auto
  then show ?thesis
    using assms by (simp add: round_dyadic_def Let_def flip: round_ratio_neg)
qed

lemma dsub_dneg:
  assumes "is_finite x" and "is_finite y"
  shows "dless c (dsub x y) \<longleftrightarrow> dless (dadd (dneg x) y) (dneg c)"
proof -
  obtain s1 m1 e1 s2 m2 e2 where xy: "x = Finite s1 m1 e1" "y = Finite s2 m2 e2"
    using assms(1,2) by (cases x; cases y) auto
  let ?e = "min e1 e2"
  let ?z = "signed_int s1 m1 * 2 ^ nat (e1 - ?e) + signed_int (\<not> s2) m2 * 2 ^ nat (e2 - ?e)"
  have sub: "dsub x y = round_dyadic (s1 \<and> \<not> s2) ?z ?e"
    by (simp add: xy dsub_def Let_def)
  have "- ?z = signed_int (\<not> s1) m1 * 2 ^ nat (e1 - ?e) + signed_int s2 m2 * 2 ^ nat (e2 - ?e)"
    by (simp add: signed_int_neg)
  then have add: "dadd (dneg x) y = round_dyadic (\<not> s1 \<and> s2) (- ?z) ?e"
    by (simp only: xy dneg.simps dadd.simps Let_def)
  show ?thesis
  proof (cases "?z = 0")
    case True
    have zero: "round_dyadic s 0 e = Finite s 0 (- 1074)" for s e
      by (simp add: round_dyadic_def scale_def round_ratio_def)
    show ?thesis
      unfolding sub add True minus_zero zero by (cases c) (simp_all add: signed_int_def Let_def min.commute)
  next
    case False
    show ?thesis unfolding sub add round_dyadic_neg [OF False, of _ _ "s1 \<and> \<not> s2"] dless_dneg by (rule refl)
  qed
qed

lemma dneg_of_int:
  assumes "b \<noteq> 0"
  shows "dneg (double_of_int b) = double_of_int (- b)"
  using round_dyadic_neg [OF assms, of False 0 False] by (simp add: double_of_int_def)

lemma decimal_upper_check:
  assumes "is_finite (decimal_double neg ds fs)" and "length fs \<le> 7" and "5 \<le> b" "b \<le> 100" "exact_bound (- b)"
  shows "dless (double_of_int b) (dsub (decimal_double neg ds fs) eps) \<longleftrightarrow> of_int b < decimal_value neg ds fs"
proof -
  have "dless (double_of_int b) (dsub (decimal_double neg ds fs) eps) \<longleftrightarrow>
      dless (dadd (decimal_double (\<not> neg) ds fs) eps) (double_of_int (- b))"
    using dsub_dneg [OF assms(1) eps_value(2)] assms(3) by (simp add: decimal_neg dneg_of_int)
  also have "\<dots> \<longleftrightarrow> decimal_value (\<not> neg) ds fs < - of_int b"
    using assms by (intro decimal_lower_check) (simp_all add: decimal_neg)
  finally show ?thesis by (simp add: decimal_neg)
qed

text \<open>The check of a coefficient or of a put value: accepted exactly when the decimal is in range.\<close>

lemma range_check:
  assumes "is_finite (decimal_double neg ds fs)" and "length fs \<le> 7" and "b = 5 \<or> b = 100"
  shows "dless (dadd (decimal_double neg ds fs) eps) (double_of_int (- b)) \<or>
      dless (double_of_int b) (dsub (decimal_double neg ds fs) eps) \<longleftrightarrow> real_of_int b < \<bar>decimal_value neg ds fs\<bar>"
proof -
  have b: "5 \<le> b" "b \<le> 100" "exact_bound (- b)"
    using assms(3) exact_bounds by auto
  show ?thesis
    unfolding decimal_lower_check [OF assms(1,2) b] decimal_upper_check [OF assms(1,2) b] by (auto simp: abs_if)
qed

end
