(* ===== verification/Message_Lemmas.thy ===== *)
theory Message_Lemmas
  imports Range_Checks
begin

text \<open>
  Lemmas about the text protocol: what the regular expression of \<open>splitParams\<close> accepts, the shape of
  the lines that give a message, and reading back the messages that the factories create.
\<close>

section \<open>Splitting parameters\<close>

definition param_ok :: "string \<Rightarrow> bool" where
  "param_ok t \<longleftrightarrow> t \<noteq> [] \<and> list_all param_char t"

fun join_params :: "string list \<Rightarrow> string" where
  "join_params [] = []"
| "join_params [t] = t"
| "join_params (t # ts) = t @ '' '' @ join_params ts"

lemma join_params_Cons: "ts \<noteq> [] \<Longrightarrow> join_params (t # ts) = t @ CHR '' '' # join_params ts"
  by (cases ts) auto

lemma join_params_snoc: "ts \<noteq> [] \<Longrightarrow> join_params (ts @ [t]) = join_params ts @ CHR '' '' # t"
  by (induction ts rule: join_params.induct) (auto simp: join_params_Cons)

lemma one_or_more_cls: "in_rx (one_or_more (Cls P)) w \<longleftrightarrow> w \<noteq> [] \<and> list_all P w"
proof -
  have star: "in_rx (Star (Cls P)) w \<longleftrightarrow> list_all P w" for w
  proof
    show "list_all P w" if "in_rx (Star (Cls P)) w"
      using that by (induction "Star (Cls P)" w rule: in_rx.induct) (auto simp: in_rx_simps)
    show "in_rx (Star (Cls P)) w" if "list_all P w"
      using that
    proof (induction w)
      case (Cons c w)
      then show ?case using in_rx.star1 [of "Cls P" "[c]" w] by (simp add: in_rx.cls)
    qed (rule in_rx.star0)
  qed
  show ?thesis
  proof
    show "w \<noteq> [] \<and> list_all P w" if in_w: "in_rx (one_or_more (Cls P)) w"
    proof -
      obtain u v where "w = u @ v" "in_rx (Cls P) u" "in_rx (Star (Cls P)) v"
        using in_w unfolding one_or_more_def by (elim in_SeqE) blast
      then show ?thesis unfolding star in_rx_simps by auto
    qed
    show "in_rx (one_or_more (Cls P)) w" if "w \<noteq> [] \<and> list_all P w"
    proof (cases w)
      case (Cons c v)
      then show ?thesis
        using that star [of v] in_rx.seq [of "Cls P" "[c]" "Star (Cls P)" v] in_rx.cls [of P c]
        by (simp add: one_or_more_def)
    qed (use that in simp)
  qed
qed

definition token_space :: rx where
  "token_space = Seq (one_or_more (Cls param_char)) (Cls (\<lambda>c. c = CHR '' ''))"

lemma token_space_iff: "in_rx token_space w \<longleftrightarrow> (\<exists>t. param_ok t \<and> w = t @ '' '')"
proof
  show "\<exists>t. param_ok t \<and> w = t @ '' ''" if "in_rx token_space w"
    using that by (auto simp: token_space_def one_or_more_cls in_rx_simps param_ok_def elim!: in_SeqE)
  show "in_rx token_space w" if "\<exists>t. param_ok t \<and> w = t @ '' ''"
    using that by (auto simp: token_space_def param_ok_def one_or_more_cls intro!: in_rx.seq in_rx.cls)
qed

lemma token_spaces_iff: "in_rx (Star token_space) w \<longleftrightarrow> (\<exists>ts. list_all param_ok ts \<and> w = concat (map (\<lambda>t. t @ '' '') ts))"
proof
  assume "in_rx (Star token_space) w"
  then show "\<exists>ts. list_all param_ok ts \<and> w = concat (map (\<lambda>t. t @ '' '') ts)"
  proof (induction "Star token_space" w rule: in_rx.induct)
    case (star1 u v)
    then obtain t ts where "param_ok t" "u = t @ '' ''" "list_all param_ok ts" "v = concat (map (\<lambda>t. t @ '' '') ts)"
      unfolding token_space_iff by blast
    then show ?case by (intro exI [of _ "t # ts"]) simp
  qed (rule exI [of _ "[]"], simp)
next
  assume "\<exists>ts. list_all param_ok ts \<and> w = concat (map (\<lambda>t. t @ '' '') ts)"
  then obtain ts where ts: "list_all param_ok ts" and w: "w = concat (map (\<lambda>t. t @ '' '') ts)" by blast
  show "in_rx (Star token_space) w"
    unfolding w using ts
  proof (induction ts)
    case (Cons t ts)
    then show ?case
      using in_rx.star1 [of token_space "t @ '' ''"] token_space_iff by auto
  qed (simp add: in_rx.star0)
qed

lemma join_params_spaces: "join_params (ts @ [t]) = concat (map (\<lambda>t. t @ '' '') ts) @ t"
  by (induction ts) (auto simp: join_params_Cons)

lemma params_regex_iff:
  "regex_match s params_regex \<longleftrightarrow> (\<exists>ts. ts \<noteq> [] \<and> list_all param_ok ts \<and> s = join_params ts)"
proof -
  have "regex_match s params_regex \<longleftrightarrow> in_rx (Seq (Star token_space) (one_or_more (Cls param_char))) s"
    by (simp add: regex_match_iff params_regex_def token_space_def)
  also have "\<dots> \<longleftrightarrow> (\<exists>ts t. list_all param_ok ts \<and> param_ok t \<and> s = concat (map (\<lambda>t. t @ '' '') ts) @ t)"
    using one_or_more_cls [of param_char] token_spaces_iff
    by (auto simp: param_ok_def elim!: in_SeqE intro!: in_rx.seq) blast
  also have "\<dots> \<longleftrightarrow> (\<exists>ts t. list_all param_ok (ts @ [t]) \<and> s = join_params (ts @ [t]))"
    by (simp add: join_params_spaces)
  also have "\<dots> \<longleftrightarrow> (\<exists>ts. ts \<noteq> [] \<and> list_all param_ok ts \<and> s = join_params ts)"
    by (metis append_butlast_last_id append_is_Nil_conv list.distinct(1))
  finally show ?thesis .
qed

lemma param_char_not_space: "param_char c \<Longrightarrow> \<not> isspace c"
  by (auto simp: param_char_def isalnum_def isdigit_def isalpha_def isspace_def code_def)

lemma read_words_token:
  assumes "param_ok t" and "r = [] \<or> isspace (hd r)"
  shows "read_words (t @ r) = t # read_words r"
proof -
  have ns: "\<forall>c \<in> set t. \<not> isspace c" and ne: "t \<noteq> []"
    using assms(1) param_char_not_space by (auto simp: param_ok_def list_all_iff)
  have skip: "dropWhile isspace (t @ r) = t @ r"
    using ns ne by (cases t) auto
  have word: "takeWhile (\<lambda>c. \<not> isspace c) (t @ r) = t" "dropWhile (\<lambda>c. \<not> isspace c) (t @ r) = r"
    using ns assms(2) by (cases r; simp)+
  show ?thesis
    by (subst read_words.simps) (simp only: Let_def skip word, simp add: ne)
qed

lemma read_words_Nil [simp]: "read_words [] = []"
  by (simp add: read_words.simps)

lemma read_words_space: "read_words (CHR '' '' # s) = read_words s"
proof -
  have "isspace CHR '' ''" by (simp add: isspace_def code_def)
  then show ?thesis by (simp add: read_words.simps [of "CHR '' '' # s"] read_words.simps [of s])
qed

lemma read_words_join: "list_all param_ok ts \<Longrightarrow> read_words (join_params ts) = ts"
proof (induction ts)
  case (Cons t ts)
  have "isspace CHR '' ''" by (simp add: isspace_def code_def)
  then show ?case
    using Cons read_words_token [of t "[]"] read_words_token [of t "CHR '' '' # join_params ts"]
    by (cases ts) (simp_all add: read_words_space join_params_Cons)
qed simp

lemma join_params_empty: "list_all param_ok ts \<Longrightarrow> join_params ts = [] \<longleftrightarrow> ts = []"
  by (induction ts rule: join_params.induct) (auto simp: param_ok_def)

lemma splitParams_iff: "splitParams s = Some ts \<longleftrightarrow> list_all param_ok ts \<and> s = join_params ts"
proof
  assume "splitParams s = Some ts"
  then show "list_all param_ok ts \<and> s = join_params ts"
    by (auto simp: splitParams_def params_regex_iff read_words_join split: if_splits)
next
  assume ts: "list_all param_ok ts \<and> s = join_params ts"
  then show "splitParams s = Some ts"
    using join_params_empty [of ts] read_words_join [of ts] params_regex_iff [of s]
    by (auto simp: splitParams_def)
qed

section \<open>Lines that give a message\<close>

lemma takeWhile_command: "CHR '' '' \<notin> set cmd \<Longrightarrow> takeWhile (\<lambda>c. c \<noteq> CHR '' '') (cmd @ CHR '' '' # r) = cmd"
  by (induction cmd) auto

lemma extract_iff:
  "extractCommandAndParams line = Some (cmd, ps) \<longleftrightarrow> cmd \<noteq> [] \<and> CHR '' '' \<notin> set cmd \<and>
     line = cmd @ (if ps = [] then [] else CHR '' '' # ps)"
proof (cases "CHR '' '' \<in> set line")
  case False
  then have "takeWhile (\<lambda>c. c \<noteq> CHR '' '') line = line"
    by (induction line) auto
  then have "extractCommandAndParams line = (if line = [] then None else Some (line, []))"
    unfolding extractCommandAndParams_def Let_def by (simp only:) simp
  then show ?thesis using False by auto
next
  case True
  then obtain c r where line: "line = c @ CHR '' '' # r" "CHR '' '' \<notin> set c"
    using split_list_first by metis
  have inj: "cmd @ CHR '' '' # ps = c @ CHR '' '' # r \<longleftrightarrow> cmd = c \<and> ps = r" if "CHR '' '' \<notin> set cmd"
    using takeWhile_command [OF that, of ps] takeWhile_command [OF line(2), of r] by auto
  have e: "extractCommandAndParams line = (if c = [] \<or> r = [] then None else Some (c, r))"
    unfolding extractCommandAndParams_def Let_def line(1) takeWhile_command [OF line(2)] by simp
  show ?thesis
  proof
    assume "extractCommandAndParams line = Some (cmd, ps)"
    then have "cmd = c" "ps = r" "c \<noteq> []" "r \<noteq> []" unfolding e by (auto split: if_splits)
    then show "cmd \<noteq> [] \<and> CHR '' '' \<notin> set cmd \<and> line = cmd @ (if ps = [] then [] else CHR '' '' # ps)"
      using line by simp
  next
    assume a: "cmd \<noteq> [] \<and> CHR '' '' \<notin> set cmd \<and> line = cmd @ (if ps = [] then [] else CHR '' '' # ps)"
    then have ps: "ps \<noteq> []" using True by (auto split: if_splits)
    have nosp: "CHR '' '' \<notin> set cmd" using a by blast
    have "cmd @ CHR '' '' # ps = c @ CHR '' '' # r"
      using a ps unfolding line(1) by (elim conjE) (simp only: if_False)
    then have "cmd = c \<and> ps = r" unfolding inj [OF nosp] .
    with a ps show "extractCommandAndParams line = Some (cmd, ps)" unfolding e by (elim conjE) simp
  qed
qed

definition command_line :: "string \<Rightarrow> string list \<Rightarrow> string" where
  "command_line cmd ts = cmd @ (if ts = [] then [] else CHR '' '' # join_params ts)"

lemma length_crlf [simp]: "length crlf = 2"
  by (simp add: crlf_def)

lemma line_crlf: "\<not> (length line < 2 \<or> drop (length line - 2) line \<noteq> crlf) \<longleftrightarrow> (\<exists>l. line = l @ crlf)"
proof
  assume "\<not> (length line < 2 \<or> drop (length line - 2) line \<noteq> crlf)"
  then show "\<exists>l. line = l @ crlf" by (metis append_take_drop_id)
qed (auto simp: crlf_def)

lemma createMessage_crlf:
  "createMessage (l @ crlf) =
     (case extractCommandAndParams l of
        None \<Rightarrow> None
      | Some (cmd, ps) \<Rightarrow>
          (case splitParams ps of
             None \<Rightarrow> None
           | Some ts \<Rightarrow> map_option (\<lambda>b. \<lparr>raw_message = l @ crlf, msg_params = ts, body = b\<rparr>) (parseMessage cmd ts)))"
  by (simp add: createMessage_def)

lemma createMessage_iff:
  "createMessage line = Some m \<longleftrightarrow>
     (\<exists>cmd ts b. cmd \<noteq> [] \<and> CHR '' '' \<notin> set cmd \<and> list_all param_ok ts \<and> line = command_line cmd ts @ crlf \<and>
        parseMessage cmd ts = Some b \<and> m = \<lparr>raw_message = line, msg_params = ts, body = b\<rparr>)"
proof
  assume m: "createMessage line = Some m"
  then obtain l where l: "line = l @ crlf"
    using line_crlf [of line] by (auto simp: createMessage_def split: if_splits)
  then obtain cmd ps ts b where "extractCommandAndParams l = Some (cmd, ps)" "splitParams ps = Some ts"
      "parseMessage cmd ts = Some b" "m = \<lparr>raw_message = line, msg_params = ts, body = b\<rparr>"
    using m by (auto simp: createMessage_crlf split: option.splits)
  then show "\<exists>cmd ts b. cmd \<noteq> [] \<and> CHR '' '' \<notin> set cmd \<and> list_all param_ok ts \<and> line = command_line cmd ts @ crlf \<and>
        parseMessage cmd ts = Some b \<and> m = \<lparr>raw_message = line, msg_params = ts, body = b\<rparr>"
    using l join_params_empty [of ts]
    by (intro exI [of _ cmd] exI [of _ ts] exI [of _ b]) (auto simp: extract_iff splitParams_iff command_line_def)
next
  assume "\<exists>cmd ts b. cmd \<noteq> [] \<and> CHR '' '' \<notin> set cmd \<and> list_all param_ok ts \<and> line = command_line cmd ts @ crlf \<and>
        parseMessage cmd ts = Some b \<and> m = \<lparr>raw_message = line, msg_params = ts, body = b\<rparr>"
  then obtain cmd ts b where c: "cmd \<noteq> []" "CHR '' '' \<notin> set cmd" "list_all param_ok ts"
      "line = command_line cmd ts @ crlf" "parseMessage cmd ts = Some b"
      "m = \<lparr>raw_message = line, msg_params = ts, body = b\<rparr>" by blast
  have "extractCommandAndParams (command_line cmd ts) = Some (cmd, join_params ts)"
    using c(1-3) join_params_empty [of ts] by (simp add: extract_iff command_line_def)
  moreover have "splitParams (join_params ts) = Some ts"
    using c(3) by (simp add: splitParams_iff)
  ultimately show "createMessage line = Some m"
    using c(4-6) by (simp add: createMessage_crlf)
qed

lemma create_with:
  assumes "cmd \<noteq> []" and "CHR '' '' \<notin> set cmd" and "ts \<noteq> []" and "list_all param_ok ts"
    and "parseMessage cmd ts = Some b"
  shows "createMessageWithCRLF (cmd @ CHR '' '' # join_params ts) =
    Some \<lparr>raw_message = cmd @ CHR '' '' # join_params ts @ crlf, msg_params = ts, body = b\<rparr>"
  unfolding createMessageWithCRLF_def createMessage_iff
  using assms by (intro exI [of _ cmd] exI [of _ ts] exI [of _ b]) (simp add: command_line_def)

lemma toRawString_crlf: "raw_message m = l @ crlf \<Longrightarrow> toRawString m = l"
  by (simp add: toRawString_def crlf_def)

section \<open>Numbers as parameters\<close>

lemma digit_param: "isdigit c \<Longrightarrow> param_char c"
  by (simp add: param_char_def isalnum_def)

lemma digits_param: "list_all isdigit ds \<Longrightarrow> list_all param_char ds"
  by (auto simp: list_all_iff digit_param)

lemma param_ok_alnum: "isAlphanumeric p \<Longrightarrow> p \<noteq> [] \<Longrightarrow> param_ok p"
  by (auto simp: isAlphanumeric_def param_ok_def param_char_def list_all_iff)

lemma param_ok_decimal: "decimal_parts ds point fs \<Longrightarrow> param_ok (decimal_string neg ds point fs)"
  using digits_param [of ds] digits_param [of fs]
  by (auto simp: param_ok_def decimal_parts_def decimal_string_def param_char_def)

lemma param_ok_show_int: "param_ok (show_int i)"
  using show_nat_digits digits_param by (auto simp: param_ok_def show_int_def param_char_def)

text \<open>A finite number is printed with a finite number of digits and read again, up to half a digit.\<close>

definition fixed_units :: "double \<Rightarrow> nat" where
  "fixed_units v = (let f = scale (mantissa v * 10 ^ 7) 1 (- exponent v) in round_even (fst f) (snd f))"

lemma doubleToString_fixed: "is_finite v \<Longrightarrow> doubleToString v = fixed_string (sign v) (fixed_units v)"
  by (cases v) (simp_all add: doubleToString_def fixed_units_def Let_def)

lemma fixed_units_error: "is_finite v \<Longrightarrow> \<bar>real (fixed_units v) - \<bar>dval v\<bar> * 10 ^ 7\<bar> \<le> 1 / 2"
proof (cases v)
  case (Finite s m e)
  let ?f = "scale (m * 10 ^ 7) 1 (- e)"
  have pos: "0 < snd ?f" by (simp add: scale_def)
  have "\<bar>dval v\<bar> * 10 ^ 7 = real (fst ?f) / real (snd ?f)"
    unfolding scale_ratio [OF zero_less_one] Finite
    by (simp add: power_int_minus divide_inverse abs_mult less_imp_le)
  then show ?thesis
    using round_even_error [OF pos, of "fst ?f"] by (simp add: Finite fixed_units_def Let_def)
qed simp_all

lemma fixed_units_integer: "0 \<le> e \<Longrightarrow> fixed_units (Finite s m e) = m * 2 ^ nat e * 10 ^ 7"
  by (cases "e = 0") (simp_all add: fixed_units_def scale_def round_even_def)

lemma units_bound:
  fixes u y :: real
  assumes "y < 2 ^ 53" and "u \<le> y * 10 ^ 7 + 1 / 2"
  shows "u < 2 ^ 60 * 10 ^ 7"
proof -
  have "y * 10 ^ 7 < 2 ^ 53 * 10 ^ 7" using assms(1) by (rule mult_strict_right_mono) simp
  moreover have "(2 :: real) ^ 53 * 10 ^ 7 + 1 / 2 < 2 ^ 60 * 10 ^ 7" by simp
  ultimately show ?thesis using assms(2) by linarith
qed

lemma reread_finite:
  assumes "is_finite v" and "canonical v"
  shows "is_finite (round_ratio (sign v) (fixed_units v) (10 ^ 7))"
proof (cases v)
  case (Finite s m e)
  show ?thesis
  proof (cases "0 \<le> e \<and> m \<noteq> 0")
    case True
    then have "real (fixed_units v) / real (10 ^ 7 :: nat) = real m * 2 powi e"
      by (simp add: Finite fixed_units_integer power_int_def)
    then show ?thesis
      using round_ratio_exact [of s m e "10 ^ 7" "fixed_units v"] assms(2) True Finite by simp
  next
    case False
    have "\<bar>dval v\<bar> < 2 ^ 53"
    proof (cases "m = 0")
      case False
      then have "e < 0" using \<open>\<not> (0 \<le> e \<and> m \<noteq> 0)\<close> by simp
      then have "(2 :: real) powi e \<le> 2 powi 0" by (intro power_int_increasing) auto
      then have "real m * 2 powi e \<le> real m * 1" by (intro mult_left_mono) auto
      moreover have "real m < real (2 ^ 53)" using assms(2) Finite unfolding of_nat_less_iff by simp
      ultimately show ?thesis by (simp add: Finite abs_mult less_imp_le)
    qed (simp add: Finite)
    moreover have "real (fixed_units v) \<le> \<bar>dval v\<bar> * 10 ^ 7 + 1 / 2"
      using abs_le_D1 [OF fixed_units_error [OF assms(1)]] by simp
    ultimately have "real (fixed_units v) < 2 ^ 60 * 10 ^ 7"
      by (rule units_bound)
    then have "real (fixed_units v) / real (10 ^ 7 :: nat) < 2 ^ 60"
      by (simp add: divide_less_eq)
    then have "rounds_to (round_ratio (sign v) (fixed_units v) (10 ^ 7))
        ((if sign v then - 1 else 1) * (real (fixed_units v) / real (10 ^ 7 :: nat)))"
      by (intro round_ratio_value small_less_half_max) simp_all
    then show ?thesis by (rule rounds_toD)
  qed
qed (use assms in simp_all)

definition reread :: "double \<Rightarrow> double" where
  "reread v = round_ratio (sign v) (fixed_units v) (10 ^ 7)"

lemma parse_printed: "is_finite v \<Longrightarrow> canonical v \<Longrightarrow> parseDouble (doubleToString v) = Some (reread v)"
  using reread_finite [of v] by (simp add: doubleToString_fixed parseDouble_fixed reread_def)

lemma param_ok_printed: "is_finite v \<Longrightarrow> param_ok (doubleToString v)"
  using fixed_string_decimal param_ok_decimal by (metis doubleToString_fixed)

text \<open>A number within the bounds of a range check passes it after printing and reading.\<close>

lemma reread_check:
  assumes "is_finite v" and "canonical v" and "\<bar>dval v\<bar> \<le> real_of_int b" and "b = 5 \<or> b = 100"
  shows "\<not> dless (dadd (reread v) eps) (double_of_int (- b)) \<and> \<not> dless (double_of_int b) (dsub (reread v) eps)"
proof -
  define ds fs where "ds = show_nat (fixed_units v div 10 ^ 7)" and "fs = pad_digits 7 (fixed_units v mod 10 ^ 7)"
  have d: "decimal_parts ds True fs" "decimal_double (sign v) ds fs = reread v"
      "\<bar>decimal_value (sign v) ds fs\<bar> = real (fixed_units v) / 10 ^ 7"
    using fixed_string_decimal(2) [of "fixed_units v"] decimal_double_fixed [of "sign v" "fixed_units v"]
      show_nat_digits [of "fixed_units v div 10 ^ 7"] pad_digits_props [of 7 "fixed_units v mod 10 ^ 7"]
    by (simp_all add: ds_def fs_def reread_def decimal_value_def digits_value_append abs_mult)
  have "real (fixed_units v) < real (nat b * 10 ^ 7 + 1)"
    using abs_le_D1 [OF fixed_units_error [OF assms(1)]] assms(3,4) by auto
  then have "fixed_units v \<le> nat b * 10 ^ 7" unfolding of_nat_less_iff by simp
  then have "real (fixed_units v) \<le> real_of_int b * 10 ^ 7" using assms(4) by auto
  then have "\<not> real_of_int b < \<bar>decimal_value (sign v) ds fs\<bar>"
    unfolding d(3) by simp
  then show ?thesis
    using range_check [of "sign v" ds fs b] d(1) reread_finite [OF assms(1,2)] assms(4)
    unfolding d(2) decimal_parts_def reread_def by blast
qed

section \<open>Messages that the factories create\<close>

lemma create_hello_eq:
  assumes "isAlphanumeric p" and "p \<noteq> []"
  shows "create_hello p = Some \<lparr>raw_message = ''HELLO '' @ p @ crlf, msg_params = [p], body = HelloMessage p\<rparr>"
  using create_with [of "''HELLO''" "[p]" "HelloMessage p"] assms
  by (simp add: create_hello_def param_ok_alnum parseMessage_def parse_hello_def)

lemma pair_message:
  assumes "- (2 ^ 31) \<le> i" and "i < 2 ^ 31" and "is_finite v" and "canonical v"
  shows "validateIntDoublePair [show_int i, doubleToString v] = Some (i, reread v)"
    and "list_all param_ok [show_int i, doubleToString v]"
  using assms by (simp_all add: validateIntDoublePair_def parseInteger_show parse_printed param_ok_show_int param_ok_printed)

lemma create_pair_eq:
  assumes "- (2 ^ 31) \<le> i" and "i < 2 ^ 31" and "is_finite v" and "canonical v"
  shows "create_put i v = Some \<lparr>raw_message = ''PUT '' @ show_int i @ '' '' @ doubleToString v @ crlf,
      msg_params = [show_int i, doubleToString v], body = PutMessage i (reread v)\<rparr>"
    and "create_bad_put i v = Some \<lparr>raw_message = ''BAD_PUT '' @ show_int i @ '' '' @ doubleToString v @ crlf,
      msg_params = [show_int i, doubleToString v], body = BadPutMessage i (reread v)\<rparr>"
    and "create_penalty i v = Some \<lparr>raw_message = ''PENALTY '' @ show_int i @ '' '' @ doubleToString v @ crlf,
      msg_params = [show_int i, doubleToString v], body = PenaltyMessage i (reread v)\<rparr>"
  using pair_message [OF assms] create_with [of "''PUT''" "[show_int i, doubleToString v]" "PutMessage i (reread v)"]
    create_with [of "''BAD_PUT''" "[show_int i, doubleToString v]" "BadPutMessage i (reread v)"]
    create_with [of "''PENALTY''" "[show_int i, doubleToString v]" "PenaltyMessage i (reread v)"]
  by (simp_all add: create_put_def create_bad_put_def create_penalty_def parseMessage_def parse_put_def)

lemma values_string_join: "vs \<noteq> [] \<Longrightarrow> values_string vs = join_params (map doubleToString vs)"
proof (induction vs)
  case (Cons v vs)
  show ?case
  proof (cases vs)
    case Nil
    then show ?thesis by (simp add: values_string_def)
  next
    case (Cons w ws)
    then have "values_string (v # vs) = doubleToString v @ CHR '' '' # values_string vs"
      by (simp add: values_string_def butlast_append)
    then show ?thesis using Cons.IH Cons by (simp add: join_params_Cons)
  qed
qed simp

lemma state_loop_printed:
  "list_all is_finite vs \<Longrightarrow> list_all canonical vs \<Longrightarrow> state_loop (map doubleToString vs) = Some (map reread vs)"
  by (induction vs) (simp_all add: parse_printed)

lemma create_state_eq:
  assumes "vs \<noteq> []" and "length vs \<le> 10001" and "list_all is_finite vs" and "list_all canonical vs"
  shows "create_state vs = Some \<lparr>raw_message = ''STATE '' @ join_params (map doubleToString vs) @ crlf,
    msg_params = map doubleToString vs, body = StateMessage (map reread vs)\<rparr>"
  using create_with [of "''STATE''" "map doubleToString vs" "StateMessage (map reread vs)"] assms
  by (simp add: create_state_def values_string_join parseMessage_def parse_state_def max_k_def state_loop_printed
      list_all_iff param_ok_printed not_less Suc_le_eq)

lemma coeff_loop_printed:
  "list_all is_finite vs \<Longrightarrow> list_all canonical vs \<Longrightarrow> list_all (\<lambda>v. \<bar>dval v\<bar> \<le> 100) vs \<Longrightarrow>
    coeff_loop (map doubleToString vs) = Some (map reread vs)"
  using reread_check [of _ 100] by (induction vs) (simp_all add: parse_printed min_coeff_def max_coeff_def)

lemma create_coeff_eq:
  assumes "vs \<noteq> []" and "length vs \<le> 9" and "list_all is_finite vs" and "list_all canonical vs"
    and "list_all (\<lambda>v. \<bar>dval v\<bar> \<le> 100) vs"
  shows "create_coeff vs = Some \<lparr>raw_message = ''COEFF '' @ join_params (map doubleToString vs) @ crlf,
    msg_params = map doubleToString vs, body = CoeffMessage (map reread vs)\<rparr>"
  using create_with [of "''COEFF''" "map doubleToString vs" "CoeffMessage (map reread vs)"] assms
  by (simp add: create_coeff_def values_string_join parseMessage_def parse_coeff_def max_n_def coeff_loop_printed
      list_all_iff param_ok_printed not_less Suc_le_eq)

lemma insert_score_set: "mset (insert_score x ys) = mset (x # ys)"
  by (induction ys) auto

lemma sort_scores_mset: "mset (sort_scores xs) = mset xs"
  by (induction xs) (simp_all add: insert_score_set)

lemma string_less_asym: "string_less a b \<Longrightarrow> \<not> string_less b a"
  by (induction a b rule: string_less.induct) auto

lemma string_less_between: "string_less a c \<Longrightarrow> string_less a b \<or> string_less b c"
proof (induction a c arbitrary: b rule: string_less.induct)
  case (2 x xs)
  show ?case by (cases b) auto
next
  case (3 x xs y ys)
  then show ?case by (cases b) auto
qed simp

definition id_le :: "string \<times> double \<Rightarrow> string \<times> double \<Rightarrow> bool" where
  "id_le x y \<longleftrightarrow> \<not> string_less (fst y) (fst x)"

lemma id_le_trans: "id_le x y \<Longrightarrow> id_le y z \<Longrightarrow> id_le x z"
  using string_less_between [of "fst z" "fst x" "fst y"] by (auto simp: id_le_def)

lemma pair_less_id_le: "pair_less y x \<Longrightarrow> id_le y x" "\<not> pair_less y x \<Longrightarrow> id_le x y"
  using string_less_asym by (auto simp: pair_less_def id_le_def)

lemma sorted_insert_score: "sorted_wrt id_le ys \<Longrightarrow> sorted_wrt id_le (insert_score x ys)"
proof (induction ys)
  case (Cons y ys)
  have set: "set (insert_score x ys) = insert x (set ys)"
    using insert_score_set [of x ys] by (metis list.set(2) set_mset_mset)
  show ?case
    using Cons pair_less_id_le [of y x] id_le_trans [of x y] by (auto simp: set)
qed simp

lemma sorted_sort_scores: "sorted_wrt id_le (sort_scores xs)"
  by (induction xs) (simp_all add: sorted_insert_score)

definition score_params :: "(string \<times> double) list \<Rightarrow> string list" where
  "score_params ps = concat (map (\<lambda>(p, v). [p, doubleToString v]) ps)"

lemma score_params_simps [simp]:
  "score_params [] = []" "score_params (x # ps) = fst x # doubleToString (snd x) # score_params ps"
  "score_params ps = [] \<longleftrightarrow> ps = []"
  by (cases ps; auto simp: score_params_def split: prod.splits)+

lemma scores_string:
  "ps \<noteq> [] \<Longrightarrow> concat (map (\<lambda>(p, v). p @ '' '' @ doubleToString v @ '' '') ps) = join_params (score_params ps) @ '' ''"
proof (induction ps)
  case (Cons x ps)
  then show ?case by (cases "ps = []") (auto simp: join_params_Cons split: prod.splits)
qed simp

lemma scoring_loop_printed:
  "\<forall>(p, v) \<in> set ps. isAlphanumeric p \<and> is_finite v \<and> canonical v \<Longrightarrow>
   scoring_loop (score_params ps) = Some (map fst ps, map (reread \<circ> snd) ps)"
  by (induction ps) (auto simp: parse_printed)

lemma score_params_ok:
  "\<forall>(p, v) \<in> set ps. isAlphanumeric p \<and> p \<noteq> [] \<and> is_finite v \<Longrightarrow> list_all param_ok (score_params ps)"
  by (induction ps) (auto simp: param_ok_alnum param_ok_printed)

lemma length_score_params: "length (score_params ps) = 2 * length ps"
  by (induction ps) auto

lemma set_sort_scores: "set (sort_scores xs) = set xs"
  using sort_scores_mset [of xs] by (metis set_mset_mset)

lemma create_scoring_eq:
  assumes "length ids = length vs" and "\<forall>p \<in> set ids. isAlphanumeric p \<and> p \<noteq> []"
    and "\<forall>v \<in> set vs. is_finite v \<and> canonical v" and "ids \<noteq> []"
  defines "ps \<equiv> sort_scores (zip ids vs)"
  shows "create_scoring ids vs = Some \<lparr>raw_message = ''SCORING '' @ join_params (score_params ps) @ crlf,
    msg_params = score_params ps, body = ScoringMessage (map fst ps) (map (reread \<circ> snd) ps)\<rparr>"
proof -
  have ps: "\<forall>(p, v) \<in> set ps. isAlphanumeric p \<and> p \<noteq> [] \<and> is_finite v \<and> canonical v"
    using assms(2,3) by (auto simp: ps_def set_sort_scores dest: set_zip_leftD set_zip_rightD)
  have ne: "ps \<noteq> []"
    using assms(1,4) set_sort_scores [of "zip ids vs"] by (auto simp: ps_def)
  have loop: "scoring_loop (score_params ps) = Some (map fst ps, map (reread \<circ> snd) ps)"
    using ps by (intro scoring_loop_printed) auto
  have ok: "list_all param_ok (score_params ps)"
    using ps by (intro score_params_ok) auto
  have "butlast (''SCORING '' @ join_params (score_params ps) @ '' '') = ''SCORING '' @ join_params (score_params ps)"
    by (simp add: butlast_append)
  then have "create_scoring ids vs = createMessageWithCRLF (''SCORING '' @ join_params (score_params ps))"
    using assms(1) scores_string [OF ne] unfolding create_scoring_def ps_def [symmetric] by (simp only: if_False simp_thms)
  then show ?thesis
    using create_with [of "''SCORING''" "score_params ps" "ScoringMessage (map fst ps) (map (reread \<circ> snd) ps)"] ok loop ne
    by (simp add: parseMessage_def parse_scoring_def length_score_params)
qed

end
