(* ===== verification/Double_Nearest.thy ===== *)
theory Double_Nearest
  imports Binary64
begin

text \<open>
  Rounding gives the number nearest to the exact value among all finite numbers of binary64, and depends on
  nothing but that value.
\<close>

section \<open>The value determines the result\<close>

lemma round_even_scaled:
  assumes "0 < k" and "0 < d"
  shows "round_even (n * k) (d * k) = round_even n d"
proof -
  have "n * k mod (d * k) = (n mod d) * k" by (simp add: mult_mod_left)
  then show ?thesis using assms by (simp add: round_even_def Let_def)
qed

lemma round_even_ratio:
  assumes "0 < d" and "0 < d'" and "n * d' = n' * d"
  shows "round_even n d = round_even n' d'"
  using round_even_scaled [OF assms(2,1), of n] round_even_scaled [OF assms(1,2), of n'] assms(3) by (simp add: mult.commute)

lemma binade_arith: "2 * A \<le> B \<Longrightarrow> x < 2 ^ 53 * A \<Longrightarrow> 2 ^ 52 * B \<le> x \<Longrightarrow> False" for A B x :: real
  by simp

lemma exponent_at_most:
  fixes x :: real
  assumes "x / 2 powi a < 2 ^ 53" and "2 ^ 52 \<le> x / 2 powi b"
  shows "b \<le> a"
proof (rule ccontr)
  assume "\<not> b \<le> a"
  then have "(2 :: real) powi (a + 1) \<le> 2 powi b" by (intro power_int_increasing) auto
  then have "2 * (2 :: real) powi a \<le> 2 powi b" by (simp add: power_int_add mult.commute)
  moreover have "x < 2 ^ 53 * 2 powi a" "2 ^ 52 * 2 powi b \<le> x"
    using assms by (simp_all add: divide_less_eq le_divide_eq)
  ultimately show False by (rule binade_arith)
qed

lemma round_exponent_unique:
  assumes "0 < n" and "0 < d" and "real n / real d / 2 powi e < 2 ^ 53" and "- 1074 \<le> e"
    and "e = - 1074 \<or> 2 ^ 52 \<le> real n / real d / 2 powi e"
  shows "round_exponent n d = e"
proof (rule order_antisym)
  note spec = round_exponent_spec [OF assms(1,2)]
  show "round_exponent n d \<le> e" using spec(3) assms(4) exponent_at_most [OF assms(3)] by metis
  show "e \<le> round_exponent n d" using spec(2) assms(5) exponent_at_most [OF spec(1)] by metis
qed

lemma round_ratio_cong:
  assumes "0 < d" and "0 < d'" and "n * d' = n' * d"
  shows "round_ratio s n d = round_ratio s n' d'"
proof (cases "n = 0")
  case True
  then show ?thesis using assms by (simp add: round_ratio_def)
next
  case False
  then have n: "0 < n" "0 < n'" using assms by (simp, metis bot_nat_0.not_eq_extremum mult_is_0)
  have "real n * real d' = real n' * real d" using assms(3) by (metis of_nat_mult)
  then have x: "real n / real d = real n' / real d'" using assms(1,2) by (simp add: frac_eq_eq)
  have e: "round_exponent n d = round_exponent n' d'"
    using round_exponent_unique [OF n(1) assms(1)] round_exponent_spec [OF n(2) assms(2)] unfolding x by blast
  have "round_even (fst (scale n d e)) (snd (scale n d e)) = round_even (fst (scale n' d' e)) (snd (scale n' d' e))" for e
    using assms n by (intro round_even_ratio) (auto simp: scale_def)
  then have "round_pos n d = round_pos n' d'" by (simp add: round_pos_def Let_def e)
  then show ?thesis using n by (simp add: round_ratio_def)
qed

section \<open>The nearest number\<close>

lemma round_even_closest:
  assumes "0 < d"
  shows "\<bar>real (round_even n d) - real n / real d\<bar> \<le> \<bar>real j - real n / real d\<bar>"
proof (cases "j = round_even n d")
  case False
  then have "1 \<le> \<bar>real j - real (round_even n d)\<bar>" by linarith
  then show ?thesis using round_even_error [OF assms, of n] by linarith
qed simp

text \<open>A number with a smaller exponent than that of the result lies below the next power of two.\<close>

lemma below_binade:
  assumes "m < 2 ^ 53" and "e < e1"
  shows "real m * 2 powi (e - e1) \<le> 2 ^ 52"
proof -
  have "(2 :: real) powi (e - e1) \<le> 2 powi (- 1)" using assms(2) by (intro power_int_increasing) auto
  moreover have "real m \<le> real (2 ^ 53)" using assms(1) by (simp only: of_nat_le_iff)
  ultimately have "real m * 2 powi (e - e1) \<le> real (2 ^ 53) * 2 powi (- 1)" by (intro mult_mono) auto
  then show ?thesis by (simp add: power_int_minus)
qed

text \<open>Every number of the format is at least as far from \<open>q\<close> as some integer, where \<open>q\<close> is the value scaled.\<close>

lemma integer_as_close:
  assumes "canonical (Finite s m e)" and "0 \<le> q" and "- 1074 \<le> e1" and "e1 = - 1074 \<or> 2 ^ 52 \<le> q"
  shows "\<exists>j :: nat. \<bar>real j - q\<bar> \<le> \<bar>dval (Finite s m e) / 2 powi e1 - q\<bar>"
proof -
  have v: "dval (Finite s m e) / 2 powi e1 = (if s then - 1 else 1) * (real m * 2 powi (e - e1))"
    by (simp add: power_int_diff)
  have pos: "0 \<le> real m * 2 powi (e - e1)" by (simp add: less_imp_le)
  show ?thesis
  proof (cases s)
    case True
    have "\<bar>real 0 - q\<bar> \<le> \<bar>- 1 * (real m * 2 powi (e - e1)) - q\<bar>" using pos assms(2) by linarith
    then show ?thesis using True unfolding v by (intro exI [of _ 0]) simp
  next
    case False
    show ?thesis
    proof (cases "e1 \<le> e")
      case True
      then have eq: "real m * 2 powi (e - e1) = real (m * 2 ^ nat (e - e1))" by (simp add: power_int_def)
      show ?thesis using False unfolding v eq by (intro exI [of _ "m * 2 ^ nat (e - e1)"]) simp
    next
      case low: False
      then have "real m * 2 powi (e - e1) \<le> 2 ^ 52" using assms(1) by (intro below_binade) auto
      moreover have "2 ^ 52 \<le> q" using low assms by auto
      ultimately have "\<bar>2 ^ 52 - q\<bar> \<le> \<bar>real m * 2 powi (e - e1) - q\<bar>" by linarith
      then show ?thesis unfolding v by (intro exI [of _ "2 ^ 52"]) (simp only: False if_False mult_1 of_nat_power of_nat_numeral)
    qed
  qed
qed

lemma round_pos_nearest:
  assumes "0 < n" and "0 < d" and "round_pos n d = (m, e)" and "is_finite w" and "canonical w"
  shows "\<bar>real m * 2 powi e - real n / real d\<bar> \<le> \<bar>dval w - real n / real d\<bar>"
proof -
  define e1 where "e1 = round_exponent n d"
  define u where "u = (2 :: real) powi e1"
  define q where "q = real n / real d / u"
  let ?N = "fst (scale n d e1)" and ?D = "snd (scale n d e1)"
  have D: "0 < ?D" using scale_pos [OF assms(1,2)] by blast
  have q: "real ?N / real ?D = q" unfolding q_def u_def by (rule scale_ratio [OF assms(2)])
  have u: "0 < u" by (simp add: u_def)
  have val: "real m * 2 powi e = real (round_even ?N ?D) * u"
    using assms(3) by (auto simp: round_pos_def Let_def e1_def [symmetric] u_def power_int_add split: if_splits)
  obtain s' m' e' where w: "w = Finite s' m' e'" using assms(4) by (cases w) auto
  have "- 1074 \<le> e1" "e1 = - 1074 \<or> 2 ^ 52 \<le> q"
    using round_exponent_spec(2,3) [OF assms(1,2)] by (simp_all add: e1_def q_def u_def)
  moreover have "0 \<le> q" using u by (simp add: q_def)
  ultimately obtain j :: nat where j: "\<bar>real j - q\<bar> \<le> \<bar>dval w / u - q\<bar>"
    using integer_as_close assms(5) unfolding w u_def by blast
  have "\<bar>real (round_even ?N ?D) - q\<bar> \<le> \<bar>dval w / u - q\<bar>"
    using round_even_closest [OF D, of ?N j] j unfolding q by linarith
  then have "\<bar>real (round_even ?N ?D) - q\<bar> * u \<le> \<bar>dval w / u - q\<bar> * u" using u by (intro mult_right_mono) auto
  moreover have "\<bar>a - q\<bar> * u = \<bar>a * u - real n / real d\<bar>" for a
  proof -
    have "\<bar>a - q\<bar> * u = \<bar>(a - q) * u\<bar>" using u by (simp add: abs_mult)
    also have "(a - q) * u = a * u - real n / real d" using u by (simp add: q_def left_diff_distrib)
    finally show ?thesis .
  qed
  ultimately show ?thesis unfolding val using u by simp
qed

text \<open>With signs.\<close>

lemma abs_flip: "\<bar>- a - (- b)\<bar> = \<bar>a - b\<bar>" "\<bar>a - (- b)\<bar> = \<bar>- a - b\<bar>" for a b :: real
  by simp_all

lemma round_ratio_nearest:
  assumes "0 < d" and "is_finite (round_ratio s n d)" and "is_finite w" and "canonical w"
  defines "x \<equiv> (if s then - 1 else 1) * (real n / real d)"
  shows "\<bar>dval (round_ratio s n d) - x\<bar> \<le> \<bar>dval w - x\<bar>"
proof (cases "n = 0")
  case True
  then show ?thesis by (simp add: x_def round_ratio_def)
next
  case False
  then have n: "0 < n" by simp
  obtain m e where me: "round_pos n d = (m, e)" by (cases "round_pos n d")
  then have r: "round_ratio s n d = Finite s m e" using assms(2) False by (auto simp: round_ratio_def split: if_splits)
  have neg: "dval (dneg w) = - dval w" "is_finite (dneg w)" "canonical (dneg w)" using assms(3,4) by (cases w; simp)+
  have "\<bar>real m * 2 powi e - real n / real d\<bar> \<le> \<bar>dval w - real n / real d\<bar>"
    "\<bar>real m * 2 powi e - real n / real d\<bar> \<le> \<bar>- dval w - real n / real d\<bar>"
    using round_pos_nearest [OF n assms(1) me] assms(3,4) neg by metis+
  moreover have "dval (Finite s m e) = (if s then - (real m * 2 powi e) else real m * 2 powi e)"
    "x = (if s then - (real n / real d) else real n / real d)" by (simp_all add: x_def)
  ultimately show ?thesis unfolding r by (cases s) (simp_all only: if_True if_False abs_flip)
qed

end
