(* ===== verification/Text_Properties.thy ===== *)
theory Text_Properties
  imports Message_Lemmas Double_Nearest
begin

text \<open>
  The properties of the text protocol and of its numbers: what is accepted, what it means, and that
  what one side creates the other side reads.
\<close>

text \<open>
  \<open>splitParams\<close> succeeds exactly on the strings that are parameters joined by single spaces, where
  a parameter is a non-empty string of letters, digits, minus signs and points, and gives these
  parameters: matching the regular expression and then reading words from the stream is the inverse
  of joining. The loop over the stream ends.
\<close>

theorem splitParams_exact:
  "splitParams str = Some ts \<longleftrightarrow>
     list_all (\<lambda>t. t \<noteq> [] \<and> list_all param_char t) ts \<and> str = join_params ts"
proof -
  have "param_ok = (\<lambda>t. t \<noteq> [] \<and> list_all param_char t)"
    by (rule ext) (rule param_ok_def)
  then show ?thesis using splitParams_iff [of str ts] by simp
qed

text \<open>
  C20: The lines that give a message are exactly those that consist of a command word, its parameters,
  each after one space, and CRLF, with a command whose \<open>parseMessage\<close> accepts the parameters; the
  message keeps the line, and \<open>toRawString\<close> is the line without CRLF.
\<close>

theorem createMessage_exact:
  "createMessage line = Some m \<longleftrightarrow>
     (\<exists>cmd ts b. cmd \<noteq> [] \<and> CHR '' '' \<notin> set cmd \<and> list_all param_ok ts \<and>
        line = cmd @ (if ts = [] then [] else '' '' @ join_params ts) @ crlf \<and>
        parseMessage cmd ts = Some b \<and> m = \<lparr>raw_message = line, msg_params = ts, body = b\<rparr> \<and>
        toRawString m @ crlf = line)"
proof -
  have l: "cmd @ (if ts = [] then [] else '' '' @ join_params ts) @ crlf = command_line cmd ts @ crlf" for cmd ts
    by (simp add: command_line_def)
  have r: "toRawString m @ crlf = line"
    if "line = command_line cmd ts @ crlf" "m = \<lparr>raw_message = line, msg_params = ts, body = b\<rparr>" for cmd ts b
    using that by (simp add: toRawString_def)
  show ?thesis
    unfolding createMessage_iff l using r by blast
qed

text \<open>
  C33: \<open>parseDouble\<close> accepts only decimals with an optional minus sign, at most seven digits after an optional
  point and at least one digit, and it accepts all of them below \<open>2 ^ 1023\<close>. The result is the binary64 number
  nearest to the decimal: no finite number of the format is closer to it.
\<close>

theorem parseDouble_exact:
  "(parseDouble str = Some v \<longrightarrow>
      (\<exists>neg ds point fs. str = decimal_string neg ds point fs \<and> decimal_parts ds point fs \<and> is_finite v \<and> canonical v \<and>
         (\<forall>w. is_finite w \<and> canonical w \<longrightarrow>
            \<bar>dval v - decimal_value neg ds fs\<bar> \<le> \<bar>dval w - decimal_value neg ds fs\<bar>))) \<and>
   (\<forall>neg ds point fs. decimal_parts ds point fs \<and> \<bar>decimal_value neg ds fs\<bar> < half_max \<longrightarrow>
      parseDouble (decimal_string neg ds point fs) \<noteq> None)"
proof (intro conjI impI allI)
  assume "parseDouble str = Some v"
  then obtain neg ds point fs where p: "str = decimal_string neg ds point fs" "decimal_parts ds point fs"
      "v = decimal_double neg ds fs" "is_finite v"
    unfolding parseDouble_Some by blast
  then have "canonical v" using decimal_rounds rounds_toD(2) by blast
  moreover have "\<bar>dval v - decimal_value neg ds fs\<bar> \<le> \<bar>dval w - decimal_value neg ds fs\<bar>" if "is_finite w" "canonical w" for w
    using round_ratio_nearest [of "10 ^ length fs" neg "digits_value (ds @ fs)" w] that p(3,4)
    by (simp add: decimal_double_def decimal_value_def)
  ultimately show "\<exists>neg ds point fs. str = decimal_string neg ds point fs \<and> decimal_parts ds point fs \<and> is_finite v \<and>
      canonical v \<and> (\<forall>w. is_finite w \<and> canonical w \<longrightarrow>
        \<bar>dval v - decimal_value neg ds fs\<bar> \<le> \<bar>dval w - decimal_value neg ds fs\<bar>)"
    using p(1,2,4) by blast
next
  fix neg ds point fs
  assume a: "decimal_parts ds point fs \<and> \<bar>decimal_value neg ds fs\<bar> < half_max"
  then have "rounds_to (decimal_double neg ds fs) (decimal_value neg ds fs)"
    using decimal_double_near [of neg ds fs] by (auto simp: near_def)
  then have "parseDouble (decimal_string neg ds point fs) = Some (decimal_double neg ds fs)"
    unfolding parseDouble_Some using a rounds_toD(1) by blast
  then show "parseDouble (decimal_string neg ds point fs) \<noteq> None" by simp
qed

theorem parseDouble_exact_witness:
  "\<exists>v. parseDouble ''-3.25'' = Some v \<and> is_finite v"
proof -
  have d: "decimal_parts ''3'' True ''25'' \<and> \<bar>decimal_value True ''3'' ''25''\<bar> < half_max"
  proof
    have "\<bar>decimal_value True ''3'' ''25''\<bar> = 13 / 4"
      by (simp add: code_def decimal_value_def digits_value_def digit_value_def)
    then show "\<bar>decimal_value True ''3'' ''25''\<bar> < half_max"
      using small_less_half_max [of "13 / 4"] by simp
  qed (simp add: decimal_parts_def isdigit_def code_def)
  have "decimal_string True ''3'' True ''25'' = ''-3.25''" by (simp add: decimal_string_def)
  then have "parseDouble ''-3.25'' \<noteq> None"
    using parseDouble_exact [of "''-3.25''"] d by metis
  then obtain v where "parseDouble ''-3.25'' = Some v" by blast
  then show ?thesis using parseDouble_exact [of "''-3.25''" v] by blast
qed

text \<open>
  C34: A decimal with at most seven fractional digits, whose digits, after padding the fraction to seven of them,
  form a number below \<open>2^52\<close> (so up to about \<open>4.5 * 10 ^ 8\<close>), survives being read, printed and read again:
  \<open>doubleToString\<close> gives the same decimal with all seven fractional digits, and reading that gives the
  same \<open>double\<close>.
\<close>

theorem print_parse_decimal:
  assumes "decimal_parts ds point fs" and "z = digits_value (ds @ fs) * 10 ^ (7 - length fs)" and "z < 2 ^ 52"
  shows "\<exists>v. parseDouble (decimal_string neg ds point fs) = Some v \<and>
    doubleToString v = fixed_string neg z \<and> parseDouble (fixed_string neg z) = Some v"
proof -
  have "length fs \<le> 7" using assms(1) by (simp add: decimal_parts_def)
  then have "(10 :: nat) ^ (7 - length fs) * 10 ^ length fs = 10 ^ 7" by (simp flip: power_add)
  then have "digits_value (ds @ fs) * 10 ^ 7 = z * 10 ^ length fs" unfolding assms(2) by (metis mult.assoc)
  then have same: "decimal_double neg ds fs = round_ratio neg z (10 ^ 7)"
    unfolding decimal_double_def by (intro round_ratio_cong) simp_all
  have "real z < real (2 ^ 52)" using assms(3) by (simp only: of_nat_less_iff)
  then have "real z / real (10 ^ 7 :: nat) < 2 ^ 60" by simp
  then have fin: "is_finite (round_ratio neg z (10 ^ 7))"
    by (intro rounds_toD(1) [OF round_ratio_value] small_less_half_max) simp_all
  then have "parseDouble (decimal_string neg ds point fs) = Some (round_ratio neg z (10 ^ 7))"
    unfolding parseDouble_Some same [symmetric] using assms(1) by blast
  then show ?thesis
    using parseDouble_fixed [OF fin] fixed_roundtrip [OF assms(3)] by (simp add: doubleToString_def)
qed

theorem print_parse_decimal_witness:
  "\<exists>v. parseDouble ''-12.5'' = Some v \<and> doubleToString v = ''-12.5000000'' \<and> parseDouble ''-12.5000000'' = Some v"
proof -
  have "show_nat 12 = ''12''" by (simp add: show_nat.simps digit_chars)
  moreover have "pad_digits 7 5000000 = ''5000000''"
    by (simp add: pad_digits_numeral digit_chars)
  ultimately have z: "fixed_string True 125000000 = ''-12.5000000''" by (simp add: fixed_string_def)
  have "decimal_parts ''12'' True ''5''" by (simp add: decimal_parts_def isdigit_def code_def)
  moreover have "125000000 = digits_value (''12'' @ ''5'') * 10 ^ (7 - length ''5'')"
    by (simp add: digits_value_def digit_value_def code_def)
  ultimately show ?thesis
    using print_parse_decimal [of "''12''" True "''5''" 125000000 True] z by (simp add: decimal_string_def)
qed

text \<open>
  C24: The tolerance \<open>eps\<close> in the check of a coefficient never admits or rejects a wrong decimal: on a
  list of decimals that parse, \<open>CoeffMessage::parseMessage\<close> succeeds exactly when there are one to nine
  of them and every decimal, taken exactly, lies between -100 and 100.
\<close>

theorem coeff_range_exact:
  assumes "\<forall>(neg, ds, point, fs) \<in> set xs. decimal_parts ds point fs \<and> is_finite (decimal_double neg ds fs)"
  shows "parse_coeff (map (\<lambda>(neg, ds, point, fs). decimal_string neg ds point fs) xs) =
    (if 1 \<le> length xs \<and> length xs \<le> 9 \<and> (\<forall>(neg, ds, point, fs) \<in> set xs. \<bar>decimal_value neg ds fs\<bar> \<le> 100)
     then Some (CoeffMessage (map (\<lambda>(neg, ds, point, fs). decimal_double neg ds fs) xs)) else None)"
proof -
  have loop: "coeff_loop (map (\<lambda>(neg, ds, point, fs). decimal_string neg ds point fs) xs) =
      (if \<forall>(neg, ds, point, fs) \<in> set xs. \<bar>decimal_value neg ds fs\<bar> \<le> 100
       then Some (map (\<lambda>(neg, ds, point, fs). decimal_double neg ds fs) xs) else None)"
    using assms
  proof (induction xs)
    case (Cons x xs)
    obtain neg ds point fs where x: "x = (neg, ds, point, fs)" by (metis prod_cases4)
    have fin: "is_finite (decimal_double neg ds fs)" "length fs \<le> 7" "decimal_parts ds point fs"
      using Cons.prems by (auto simp: x decimal_parts_def)
    have "parseDouble (decimal_string neg ds point fs) = Some (decimal_double neg ds fs)"
      unfolding parseDouble_Some using fin by blast
    then show ?case
      using Cons range_check [OF fin(1,2), of 100] by (auto simp: x min_coeff_def max_coeff_def not_less)
  qed simp
  show ?thesis
    unfolding parse_coeff_def loop by (auto simp: max_n_def Suc_le_eq)
qed

theorem coeff_range_exact_witness:
  "parse_coeff [''100.0000001''] = None \<and> parse_coeff [''-100''] \<noteq> None"
proof -
  have val: "decimal_value False ''100'' ''0000001'' = 1000000001 / 10 ^ 7" "decimal_value True ''100'' [] = - 100"
    by (simp_all add: decimal_value_def digits_value_def digit_value_def code_def)
  have fin: "is_finite (decimal_double False ''100'' ''0000001'')" "is_finite (decimal_double True ''100'' [])"
    using decimal_double_near [of False "''100''" "''0000001''"] decimal_double_near [of True "''100''" "[]"]
      small_less_half_max [of "1000000001 / 10 ^ 7"] small_less_half_max [of 100]
    by (auto simp: near_def val dest: rounds_toD(1))
  have parts: "decimal_parts ''100'' True ''0000001''" "decimal_parts ''100'' False []"
    by (simp_all add: decimal_parts_def isdigit_def code_def)
  show ?thesis
    using coeff_range_exact [of "[(False, ''100'', True, ''0000001'')]"] coeff_range_exact [of "[(True, ''100'', False, [])]"]
      fin parts by (simp add: val decimal_string_def)
qed

text \<open>
  C21: What one side creates the other side reads: the messages HELLO, COEFF, PUT, BAD_PUT, PENALTY and
  STATE built by the factories from values in their ranges (coefficients between -100 and 100, at most nine) are
  never null and carry the values given, where a number is replaced by the nearest decimal with seven
  fractional digits, which is off by at most half a unit of that digit (before the conversion back to
  binary).
\<close>

theorem factories_roundtrip:
  assumes "- (2 ^ 31) \<le> i" "i < 2 ^ 31" and "is_finite v" "canonical v" and "isAlphanumeric p" "p \<noteq> []"
    and "vs \<noteq> []" "length vs \<le> 10001" "\<forall>v \<in> set vs. is_finite v \<and> canonical v"
    and "cs \<noteq> []" "length cs \<le> 9" "\<forall>c \<in> set cs. is_finite c \<and> canonical c \<and> \<bar>dval c\<bar> \<le> 100"
  shows "map_option body (create_hello p) = Some (HelloMessage p) \<and>
    map_option body (create_coeff cs) = Some (CoeffMessage (map reread cs)) \<and>
    map_option body (create_put i v) = Some (PutMessage i (reread v)) \<and>
    map_option body (create_bad_put i v) = Some (BadPutMessage i (reread v)) \<and>
    map_option body (create_penalty i v) = Some (PenaltyMessage i (reread v)) \<and>
    map_option body (create_state vs) = Some (StateMessage (map reread vs)) \<and>
    reread v = round_ratio (sign v) (fixed_units v) (10 ^ 7) \<and> \<bar>real (fixed_units v) - \<bar>dval v\<bar> * 10 ^ 7\<bar> \<le> 1 / 2"
  using create_hello_eq [OF assms(5,6)] create_pair_eq [OF assms(1-4)] create_state_eq [OF assms(7,8)] assms(9)
    create_coeff_eq [OF assms(10,11)] assms(12) fixed_units_error [OF assms(3)]
  by (simp add: list_all_iff reread_def)

theorem factories_roundtrip_witness:
  "map_option body (create_coeff [dzero]) = Some (CoeffMessage [reread dzero])"
proof -
  have z: "is_finite dzero" "canonical dzero" "\<bar>dval dzero\<bar> \<le> 100" "isAlphanumeric ''a''"
    by (simp_all add: dzero_def isAlphanumeric_def isalnum_def isalpha_def code_def)
  have "map_option body (create_coeff [dzero]) = Some (CoeffMessage (map reread [dzero]))"
    by (rule factories_roundtrip [of 7 dzero "''a''" "[dzero]" "[dzero]", THEN conjunct2, THEN conjunct1]) (simp_all add: z)
  then show ?thesis by (simp only: list.map)
qed

text \<open>
  C35: \<open>ScoringMessage::createMessage\<close> on at least one player with alphanumeric ids and finite scores is
  not null; the message lists every player exactly once with its score, in the order of the ids.
\<close>

theorem scoring_sorted:
  assumes "length ids = length vs" and "\<forall>p \<in> set ids. isAlphanumeric p \<and> p \<noteq> []"
    and "\<forall>v \<in> set vs. is_finite v \<and> canonical v" and "ids \<noteq> []"
  shows "\<exists>ps m. create_scoring ids vs = Some m \<and> mset ps = mset (zip ids vs) \<and>
    sorted_wrt (\<lambda>x y. \<not> string_less (fst y) (fst x)) ps \<and>
    body m = ScoringMessage (map fst ps) (map (reread \<circ> snd) ps)"
proof (intro exI conjI)
  show "create_scoring ids vs = Some \<lparr>raw_message = ''SCORING '' @ join_params (score_params (sort_scores (zip ids vs))) @ crlf,
      msg_params = score_params (sort_scores (zip ids vs)),
      body = ScoringMessage (map fst (sort_scores (zip ids vs))) (map (reread \<circ> snd) (sort_scores (zip ids vs)))\<rparr>"
    using create_scoring_eq [OF assms] .
  have "id_le = (\<lambda>x y. \<not> string_less (fst y) (fst x))"
    by (intro ext) (rule id_le_def)
  then show "sorted_wrt (\<lambda>x y. \<not> string_less (fst y) (fst x)) (sort_scores (zip ids vs))"
    using sorted_sort_scores [of "zip ids vs"] by simp
qed (simp_all add: sort_scores_mset)

theorem scoring_sorted_witness:
  "\<exists>m. create_scoring [''b'', ''A''] [dzero, dzero] = Some m \<and>
     (\<exists>ps. mset ps = mset [(''b'', dzero), (''A'', dzero)] \<and> body m = ScoringMessage (map fst ps) (map (reread \<circ> snd) ps))"
proof -
  have "is_finite dzero" "canonical dzero" "isAlphanumeric ''b''" "isAlphanumeric ''A''"
    by (simp_all add: dzero_def isAlphanumeric_def isalnum_def isalpha_def code_def)
  then show ?thesis
    using scoring_sorted [of "[''b'', ''A'']" "[dzero, dzero]"] by auto
qed

end
