(* ===== verification/Double_Bounds.thy ===== *)
theory Double_Bounds
  imports Range_Checks
begin

text \<open>
  Bounds on the results of floating-point operations: enough to show that no score overflows and
  that penalties, which are added without limit, stay below a fixed number.
\<close>

definition bounded :: "double \<Rightarrow> real \<Rightarrow> bool" where
  "bounded x b \<longleftrightarrow> is_finite x \<and> canonical x \<and> \<bar>dval x\<bar> \<le> b"

lemma bounded_mono: "bounded x a \<Longrightarrow> a \<le> b \<Longrightarrow> bounded x b"
  by (auto simp: bounded_def)

lemma bounded_dzero [simp]: "bounded dzero b \<longleftrightarrow> 0 \<le> b"
  by (simp add: bounded_def dzero_def)

lemma powi_1075_small: "(2 :: real) powi - 1075 \<le> 1"
  using power_int_increasing [of "- 1075" 0 "2 :: real"] by simp

lemma rounds_to_bounded:
  assumes "rounds_to y x" and "\<bar>x\<bar> \<le> a" and "a + a / 2 ^ 53 + 1 \<le> c"
  shows "bounded y c"
proof -
  have "max (\<bar>x\<bar> / 2 ^ 53) (2 powi - 1075) \<le> a / 2 ^ 53 + 1"
    using assms(2) powi_1075_small by (simp add: divide_right_mono add_increasing)
  then have "\<bar>dval y - x\<bar> \<le> a / 2 ^ 53 + 1"
    using rounds_toD(3) [OF assms(1)] by linarith
  then show ?thesis
    using assms rounds_toD(1,2) [OF assms(1)] by (auto simp: bounded_def)
qed

text \<open>The largest bound used below.\<close>

lemma below_half_max: "x \<le> 2 ^ 400 \<Longrightarrow> x < half_max"
  using power_int_strict_increasing [of 400 1023 "2 :: real"] unfolding half_max_def by simp

lemma bounded_dadd:
  assumes "bounded x a" and "bounded y b" and "(a + b) + (a + b) / 2 ^ 53 + 1 \<le> c" and "a + b \<le> 2 ^ 400"
  shows "bounded (dadd x y) c"
proof -
  have s: "\<bar>dval x + dval y\<bar> \<le> a + b" using assms(1,2) by (auto simp: bounded_def)
  then have "\<bar>dval x + dval y\<bar> < half_max" using assms(4) by (intro below_half_max) simp
  then have "rounds_to (dadd x y) (dval x + dval y)"
    using assms(1,2) by (intro dadd_value) (auto simp: bounded_def)
  then show ?thesis using s assms(3) by (rule rounds_to_bounded)
qed

lemma bounded_dsub:
  assumes "bounded x a" and "bounded y b" and "(a + b) + (a + b) / 2 ^ 53 + 1 \<le> c" and "a + b \<le> 2 ^ 400"
  shows "bounded (dsub x y) c"
  unfolding dsub_def using assms by (intro bounded_dadd [of x a _ b]) (simp_all add: bounded_def)

lemma bounded_dmul:
  assumes "bounded x a" and "bounded y b" and "a * b + a * b / 2 ^ 53 + 1 \<le> c" and "a * b \<le> 2 ^ 400"
  shows "bounded (dmul x y) c"
proof -
  have s: "\<bar>dval x * dval y\<bar> \<le> a * b"
    using assms(1,2) unfolding abs_mult by (intro mult_mono) (auto simp: bounded_def)
  then have "\<bar>dval x * dval y\<bar> < half_max" using assms(4) by (intro below_half_max) simp
  then have "rounds_to (dmul x y) (dval x * dval y)"
    using assms(1,2) by (intro dmul_value) (auto simp: bounded_def)
  then show ?thesis using s assms(3) by (rule rounds_to_bounded)
qed

section \<open>Adding without limit\<close>

text \<open>Numbers above \<open>2^59\<close> are multiples of 128.\<close>

lemma above_2_59:
  assumes "is_finite z" and "canonical z" and "2 ^ 59 < \<bar>dval z\<bar>"
  shows "2 ^ 59 + 128 \<le> \<bar>dval z\<bar>"
proof -
  obtain s m e where z: "z = Finite s m e" using assms(1) by (cases z) auto
  have v: "\<bar>dval z\<bar> = real m * 2 powi e" by (simp add: z abs_mult)
  have m: "real m < 2 ^ 53" using assms(2) by (simp add: z)
  have "\<not> e \<le> 6"
  proof
    assume "e \<le> 6"
    then have "(2 :: real) powi e \<le> 2 powi 6" by (intro power_int_increasing) auto
    then have "real m * 2 powi e \<le> 2 ^ 53 * 2 ^ 6" using m by (intro mult_mono) auto
    then show False using assms(3) v by simp
  qed
  then have e: "e = int (nat (e - 7)) + 7" by simp
  have "(2 :: real) powi e = 2 powi (int (nat (e - 7))) * 2 powi 7"
    by (subst e, subst power_int_add) simp_all
  then have "real m * 2 powi e = real (m * 2 ^ nat (e - 7)) * 128"
    by (simp only: power_int_of_nat of_nat_mult of_nat_power) (simp add: power_int_def)
  then have eq: "\<bar>dval z\<bar> = real (m * 2 ^ nat (e - 7)) * 128" using v by simp
  then have "real (2 ^ 52) < real (m * 2 ^ nat (e - 7))"
    using assms(3) by simp
  then have "2 ^ 52 + 1 \<le> m * 2 ^ nat (e - 7)"
    by (simp only: of_nat_less_iff)
  then have "real (2 ^ 52 + 1) \<le> real (m * 2 ^ nat (e - 7))"
    by (simp only: of_nat_le_iff)
  then show ?thesis using eq by simp
qed

lemma dadd_stays:
  assumes "bounded x (2 ^ 59)" and "bounded y 20"
  shows "bounded (dadd x y) (2 ^ 59)"
proof -
  have s: "\<bar>dval x + dval y\<bar> \<le> 2 ^ 59 + 20" using assms by (auto simp: bounded_def)
  then have "\<bar>dval x + dval y\<bar> < half_max" by (intro below_half_max) simp
  then have r: "rounds_to (dadd x y) (dval x + dval y)"
    using assms by (intro dadd_value) (auto simp: bounded_def)
  then have b: "bounded (dadd x y) (2 ^ 59 + 20 + 66)"
    by (rule rounds_to_bounded [OF _ s]) simp
  then have "\<bar>dval (dadd x y)\<bar> < 2 ^ 59 + 128"
    by (simp add: bounded_def)
  then have "\<not> 2 ^ 59 < \<bar>dval (dadd x y)\<bar>"
    using above_2_59 [of "dadd x y"] b unfolding bounded_def by linarith
  then show ?thesis
    using b unfolding bounded_def by linarith
qed

section \<open>Constants and range checks\<close>

lemma bounded_of_int:
  assumes "\<bar>z\<bar> \<le> 10000"
  shows "bounded (double_of_int z) (2 ^ 14)"
proof -
  have z: "\<bar>real_of_int z * 2 powi 0\<bar> \<le> 10000" using assms by simp
  then have "rounds_to (double_of_int z) (real_of_int z * 2 powi 0)"
    unfolding double_of_int_def by (intro round_dyadic_value below_half_max) simp
  then show ?thesis by (rule rounds_to_bounded [OF _ z]) simp
qed

lemma bounded_one: "bounded (double_of_int 1) 2"
proof -
  have "double_of_int 1 = Finite False 4503599627370496 (- 52)"
    using double_of_int_exact [of 1 4503599627370496 "- 52"] by (simp add: power_int_minus)
  then show ?thesis by (simp add: bounded_def power_int_minus)
qed

lemma bounded_penalties: "bounded (double_of_int 20) 20" "bounded (double_of_int 10) 20"
proof -
  have "double_of_int 20 = Finite False 5629499534213120 (- 48)" "double_of_int 10 = Finite False 5629499534213120 (- 49)"
    using double_of_int_exact [of 20 5629499534213120 "- 48"] double_of_int_exact [of 10 5629499534213120 "- 49"] by simp_all
  then show "bounded (double_of_int 20) 20" "bounded (double_of_int 10) 20"
    by (simp_all add: bounded_def power_int_minus)
qed

lemma dless_dval: "is_finite x \<Longrightarrow> is_finite y \<Longrightarrow> dless x y \<longleftrightarrow> dval x < dval y"
  by (cases x; cases y) (simp_all only: is_finite.simps dless_value)

lemma close_below:
  fixes x d b :: real
  assumes "\<bar>d - x\<bar> \<le> \<bar>x\<bar> / 2 ^ 53 + 1 / 10 ^ 10" and "d \<le> b" and "0 \<le> b" "b \<le> 100"
  shows "x \<le> b + 1 / 2"
proof (cases "x \<le> 0")
  case False
  then have "x - d \<le> x / 2 ^ 53 + 1 / 10 ^ 10" using assms(1) by linarith
  then show ?thesis using assms(2-4) by simp
qed (use assms(3) in simp)

lemma in_range_bounded:
  assumes "is_finite v" and "canonical v" and "b = 5 \<or> b = 100"
    and "\<not> dless (dadd v eps) (double_of_int (- b))" and "\<not> dless (double_of_int b) (dsub v eps)"
  shows "bounded v (real_of_int b + 1)"
proof -
  have b: "is_finite (double_of_int b)" "dval (double_of_int b) = b"
      "is_finite (double_of_int (- b))" "dval (double_of_int (- b)) = - b"
    using assms(3) exact_bounds by (auto simp: exact_bound_def)
  have b100: "real_of_int b \<le> 100" "0 \<le> real_of_int b" using assms(3) by auto
  note e = eps_value
  have small: "0 \<le> dval eps" "dval eps \<le> 1 / 4"
    using e(1) unfolding abs_le_iff by (auto simp: field_simps)
  have close: "\<bar>dval y - x\<bar> \<le> \<bar>x\<bar> / 2 ^ 53 + 1 / 10 ^ 10" if "rounds_to y x" for y x
    using rounds_toD(3) [OF that] tiny_bound [of "\<bar>x\<bar>"] by simp
  have "\<bar>dval v\<bar> \<le> b + 1"
  proof (cases "0 \<le> dval v")
    case True
    have "\<not> (half_max \<le> \<bar>dval v - dval eps\<bar> \<and> dsub v eps = Infinity (dval v - dval eps < 0))"
    proof
      assume inf: "half_max \<le> \<bar>dval v - dval eps\<bar> \<and> dsub v eps = Infinity (dval v - dval eps < 0)"
      then have "dsub v eps = Infinity False" using True e(1) half_max_ge_1 by (auto simp: abs_if split: if_splits)
      then show False using assms(5) b(1) by (cases "double_of_int b") auto
    qed
    then have r: "rounds_to (dsub v eps) (dval v - dval eps)"
      using dsub_near [OF assms(1) e(2)] by (auto simp: near_def)
    then have "dval (dsub v eps) \<le> b"
      using assms(5) b(1,2) rounds_toD(1) [OF r] by (simp add: dless_dval)
    then have "dval v - dval eps \<le> b + 1 / 2" using close [OF r] b100 close_below by blast
    then show ?thesis using small True by simp
  next
    case False
    have "\<not> (half_max \<le> \<bar>dval v + dval eps\<bar> \<and> dadd v eps = Infinity (dval v + dval eps < 0))"
    proof
      assume inf: "half_max \<le> \<bar>dval v + dval eps\<bar> \<and> dadd v eps = Infinity (dval v + dval eps < 0)"
      then have "dadd v eps = Infinity True" using False e(1) half_max_ge_1 by (auto simp: abs_if split: if_splits)
      then show False using assms(4) b(3) by (cases "double_of_int (- b)") auto
    qed
    then have r: "rounds_to (dadd v eps) (dval v + dval eps)"
      using dadd_near [OF assms(1) e(2)] by (auto simp: near_def)
    then have below: "- real_of_int b \<le> dval (dadd v eps)"
      using assms(4) b(3,4) rounds_toD(1) [OF r] by (simp add: dless_dval)
    have "\<bar>- dval (dadd v eps) - - (dval v + dval eps)\<bar> = \<bar>dval (dadd v eps) - (dval v + dval eps)\<bar>"
      by linarith
    then have "\<bar>- dval (dadd v eps) - - (dval v + dval eps)\<bar> \<le> \<bar>- (dval v + dval eps)\<bar> / 2 ^ 53 + 1 / 10 ^ 10"
      using close [OF r] by (simp only: abs_minus_cancel)
    from close_below [OF this] have "- (dval v + dval eps) \<le> b + 1 / 2"
      using below b100 by simp
    then show ?thesis using small False by simp
  qed
  then show ?thesis using assms(1,2) by (simp add: bounded_def)
qed

end
