(* ===== verification/Event_Queue.thy ===== *)
theory Event_Queue
  imports Prelude
begin

text \<open>
  The timers of the server: \<open>src/the-great-approximator/server_events.cpp\<close>. The multimap is a list of
  deadlines (in nanoseconds of the steady clock) with their callbacks, in the order of iteration;
  \<open>insert\<close> puts an event behind the ones with the same deadline, as the multimap does. A callback
  is data, run by a function of the client; the callbacks of the program do not touch the queue.
\<close>

type_synonym 'e event_map = "(int \<times> 'e) list"

fun add_event :: "'e \<Rightarrow> int \<Rightarrow> 'e event_map \<Rightarrow> 'e event_map" where
  "add_event callback deadline [] = [(deadline, callback)]"
| "add_event callback deadline ((t, e) # evs) =
     (if t \<le> deadline then (t, e) # add_event callback deadline evs else (deadline, callback) # (t, e) # evs)"

fun check_timers :: "('e \<Rightarrow> 's \<Rightarrow> 's res) \<Rightarrow> int \<Rightarrow> 'e event_map \<Rightarrow> 's \<Rightarrow> ('s \<times> 'e event_map) res" where
  "check_timers call now [] s = Inr (s, [])"
| "check_timers call now ((t, e) # evs) s =
     (if t \<le> now then bindR (call e s) (check_timers call now evs) else Inr (s, (t, e) # evs))"

definition reset_events :: "'e event_map \<Rightarrow> 'e event_map" where
  "reset_events evs = []"

section \<open>What the queue promises\<close>

definition sorted_events :: "'e event_map \<Rightarrow> bool" where
  "sorted_events evs \<longleftrightarrow> sorted (map fst evs)"

definition due_events :: "int \<Rightarrow> 'e event_map \<Rightarrow> 'e list" where
  "due_events now evs = map snd (filter (\<lambda>(t, e). t \<le> now) evs)"

fun run_events :: "('e \<Rightarrow> 's \<Rightarrow> 's res) \<Rightarrow> 'e list \<Rightarrow> 's \<Rightarrow> 's res" where
  "run_events call [] s = Inr s"
| "run_events call (e # es) s = bindR (call e s) (run_events call es)"

text \<open>
  A queue of timed events as its client sees it: adding an event makes it due from its deadline on,
  behind all events with an earlier or the same deadline; a check runs the due events in order and
  keeps exactly the others.
\<close>

locale timed_queue =
  fixes wf :: "'q \<Rightarrow> bool"
    and due :: "int \<Rightarrow> 'q \<Rightarrow> 'e list"
    and empty :: 'q
    and add :: "'e \<Rightarrow> int \<Rightarrow> 'q \<Rightarrow> 'q"
    and rest :: "int \<Rightarrow> 'q \<Rightarrow> 'q"
  assumes wf_empty: "wf empty"
    and due_empty: "due now empty = []"
    and wf_add: "wf q \<Longrightarrow> wf (add e t q)"
    and due_add_late: "wf q \<Longrightarrow> now < t \<Longrightarrow> due now (add e t q) = due now q"
    and due_add: "wf q \<Longrightarrow> t \<le> now \<Longrightarrow>
      \<exists>xs ys. due now q = xs @ ys \<and> due now (add e t q) = xs @ e # ys \<and> xs = due t q"
    and wf_rest: "wf q \<Longrightarrow> wf (rest now q)"
    and due_rest: "wf q \<Longrightarrow> due now' (rest now q) = drop (length (due now q)) (due now' q)"
begin

text \<open>An event is run exactly once: by the first check at or after its deadline.\<close>

lemma added_is_due: "wf q \<Longrightarrow> t \<le> now \<Longrightarrow> e \<in> set (due now (add e t q))"
  using due_add [of q t now e] by auto

lemma not_due_again: "wf q \<Longrightarrow> due now (rest now q) = []"
  by (simp add: due_rest)

text \<open>Two events with the same deadline run in the order in which they were added.\<close>

lemma due_add_now:
  assumes "wf q"
  shows "due t (add e t q) = due t q @ [e]"
proof -
  obtain xs ys where xy: "due t q = xs @ ys" "due t (add e t q) = xs @ e # ys" "xs = due t q"
    using due_add [OF assms, of t t e] by blast
  from xy(1) have "ys = []" unfolding xy(3) by (rule self_append_conv [THEN iffD1])
  with xy(2,3) show ?thesis by blast
qed

lemma same_deadline_fifo: "wf q \<Longrightarrow> due t (add b t (add a t q)) = due t q @ [a, b]"
  by (simp add: due_add_now wf_add)

end

definition later_events :: "int \<Rightarrow> 'e event_map \<Rightarrow> 'e event_map" where
  "later_events now evs = dropWhile (\<lambda>(t, e). t \<le> now) evs"

lemma due_events_simps [simp]:
  "due_events now [] = []"
  "due_events now ((t, e) # evs) = (if t \<le> now then e # due_events now evs else due_events now evs)"
  by (simp_all add: due_events_def)

lemma sorted_events_simps [simp]:
  "sorted_events []"
  "sorted_events ((t, e) # evs) \<longleftrightarrow> (\<forall>x \<in> set evs. t \<le> fst x) \<and> sorted_events evs"
  by (auto simp: sorted_events_def)

lemma set_add_event [simp]: "set (add_event e t evs) = insert (t, e) (set evs)"
  by (induction e t evs rule: add_event.induct) auto

lemma sorted_add_event: "sorted_events evs \<Longrightarrow> sorted_events (add_event e t evs)"
  by (induction e t evs rule: add_event.induct) force+

lemma none_due: "\<forall>x \<in> set evs. now < fst x \<Longrightarrow> due_events now evs = []"
  by (auto simp: due_events_def filter_empty_conv)

lemma due_add_event_late: "now < t \<Longrightarrow> due_events now (add_event e t evs) = due_events now evs"
  by (induction e t evs rule: add_event.induct) auto

lemma due_add_event:
  "sorted_events evs \<Longrightarrow> t \<le> now \<Longrightarrow>
   \<exists>ys. due_events now evs = due_events t evs @ ys \<and> due_events now (add_event e t evs) = due_events t evs @ e # ys"
proof (induction e t evs rule: add_event.induct)
  case (2 e t t' e' evs)
  show ?case
  proof (cases "t' \<le> t")
    case True
    then show ?thesis using 2 by auto
  next
    case False
    then have "due_events t evs = []"
      using 2(2) by (intro none_due) auto
    then show ?thesis using False 2(3) by auto
  qed
qed simp

lemma due_later_events:
  "sorted_events evs \<Longrightarrow> due_events now' (later_events now evs) = drop (length (due_events now evs)) (due_events now' evs)"
proof (induction evs)
  case (Cons x evs)
  obtain t e where x: "x = (t, e)" by (cases x)
  show ?case
  proof (cases "t \<le> now")
    case True
    show ?thesis
    proof (cases "t \<le> now'")
      case True
      then show ?thesis using Cons \<open>t \<le> now\<close> by (simp add: x later_events_def)
    next
      case False
      then have "due_events now' evs = []" using Cons.prems by (intro none_due) (auto simp: x)
      then show ?thesis using Cons False \<open>t \<le> now\<close> by (simp add: x later_events_def)
    qed
  next
    case False
    then have "due_events now evs = []" using Cons.prems by (intro none_due) (auto simp: x)
    then show ?thesis using False by (simp add: x later_events_def)
  qed
qed (simp add: later_events_def)

lemma sorted_later_events: "sorted_events evs \<Longrightarrow> sorted_events (later_events now evs)"
  unfolding later_events_def by (induction evs) (auto split: prod.splits)

interpretation timers: timed_queue sorted_events due_events "[]" add_event later_events
proof unfold_locales
  show "\<exists>xs ys. due_events now q = xs @ ys \<and> due_events now (add_event e t q) = xs @ e # ys \<and> xs = due_events t q"
    if "sorted_events q" "t \<le> now" for q t now and e :: 'a
    using due_add_event [OF that, of e] by blast
qed (simp_all add: sorted_add_event due_add_event_late due_later_events sorted_later_events)

text \<open>\<open>check_timers\<close> runs the due events in the order of their deadlines and keeps the others.\<close>

lemma check_timers_eq:
  "sorted_events evs \<Longrightarrow>
   check_timers call now evs s = bindR (run_events call (due_events now evs) s) (\<lambda>s'. Inr (s', later_events now evs))"
proof (induction evs arbitrary: s)
  case (Cons x evs)
  obtain t e where x: "x = (t, e)" by (cases x)
  show ?case
  proof (cases "t \<le> now")
    case True
    then show ?thesis
      using Cons by (cases "call e s") (simp_all add: x later_events_def)
  next
    case False
    then have "due_events now evs = []" using Cons.prems by (intro none_due) (auto simp: x)
    then show ?thesis using False by (simp add: x later_events_def)
  qed
qed (simp add: later_events_def)

end
