(* ===== verification/Game_Server.thy ===== *)
theory Game_Server
  imports Message_Lemmas Range_Checks Event_Queue
begin

text \<open>
  The game of the server: \<open>src/the-great-approximator/server_logic.{h,cpp}\<close>. The class \<open>ServerLogic\<close> is
  a record; \<open>std::map\<close> is a list of pairs in the order of the keys. An operation on a client that is
  not registered violates its \<open>assert\<close> and gives \<open>Undefined\<close>, and so do a null pointer that is
  dereferenced and an access outside a vector. The time of \<open>steady_clock::now()\<close> is an argument;
  lines on standard output are collected in \<open>cout\<close>. The captured variables of a callback are the
  arguments of its constructor.
\<close>

section \<open>State\<close>

record PlayerInfo =
  pl_id :: string
  pl_ip :: string
  pl_port :: int
  messages :: "string list"
  approximations :: "double list"
  coefficients :: "double list"
  penalty :: double
  is_known :: bool
  correct_puts :: int
  can_put :: bool
  delay :: int

datatype event =
    Bad_put_response int int double string int string
  | State_response int string string int string
  | Hello_timeout int string int

text \<open>\<open>coeff_file\<close> is what is left to read of the file.\<close>

record ServerLogic =
  K :: int
  N :: int
  M :: int
  total_correct_puts :: int
  coeff_file :: string
  players :: "(int \<times> PlayerInfo) list"
  events :: "event event_map"
  stopping :: bool
  cout :: "string list"

definition early_put_penalty :: int where "early_put_penalty = 20"
definition bad_put_penalty :: int where "bad_put_penalty = 10"
definition bad_put_delay :: int where "bad_put_delay = 1"
definition min_put_value :: double where "min_put_value = double_of_int (- 5)"
definition max_put_value :: double where "max_put_value = double_of_int 5"

definition seconds :: "int \<Rightarrow> int" where "seconds n = n * 10 ^ 9"

fun map_put :: "int \<Rightarrow> 'v \<Rightarrow> (int \<times> 'v) list \<Rightarrow> (int \<times> 'v) list" where
  "map_put k v [] = [(k, v)]"
| "map_put k v ((k', v') # m) =
     (if k < k' then (k, v) # (k', v') # m else if k = k' then (k, v) # m else (k', v') # map_put k v m)"

definition map_erase :: "int \<Rightarrow> (int \<times> 'v) list \<Rightarrow> (int \<times> 'v) list" where
  "map_erase k m = filter (\<lambda>(k', v). k' \<noteq> k) m"

definition println :: "string \<Rightarrow> ServerLogic \<Rightarrow> ServerLogic" where
  "println l s = s\<lparr>cout := cout s @ [l]\<rparr>"

text \<open>The reference \<open>players[client_fd]\<close>, and an assignment through it.\<close>

definition player :: "int \<Rightarrow> ServerLogic \<Rightarrow> PlayerInfo res" where
  "player fd s = (case map_of (players s) fd of None \<Rightarrow> Inl Undefined | Some p \<Rightarrow> Inr p)"

definition set_player :: "int \<Rightarrow> PlayerInfo \<Rightarrow> ServerLogic \<Rightarrow> ServerLogic" where
  "set_player fd p s = s\<lparr>players := map_put fd p (players s)\<rparr>"

definition upd_player :: "int \<Rightarrow> (PlayerInfo \<Rightarrow> PlayerInfo) \<Rightarrow> ServerLogic \<Rightarrow> ServerLogic res" where
  "upd_player fd f s = bindR (player fd s) (\<lambda>p. Inr (set_player fd (f p) s))"

text \<open>A message that the code dereferences without a check.\<close>

definition deref :: "'a option \<Rightarrow> 'a res" where
  "deref m = (case m of None \<Rightarrow> Inl Undefined | Some x \<Rightarrow> Inr x)"

text \<open>\<open>substr(pos)\<close> throws when \<open>pos\<close> is behind the end.\<close>

definition substr_from :: "nat \<Rightarrow> string \<Rightarrow> string res" where
  "substr_from pos str = (if pos \<le> length str then Inr (drop pos str) else Inl Undefined)"

section \<open>Clients and their messages\<close>

definition server_init :: "int \<Rightarrow> int \<Rightarrow> int \<Rightarrow> string option \<Rightarrow> ServerLogic res" where
  "server_init k n m file =
     (case file of
        None \<Rightarrow> Inl Exit
      | Some content \<Rightarrow>
          Inr \<lparr>K = k, N = n, M = m, total_correct_puts = 0, coeff_file = content, players = [],
               events = [], stopping = False, cout = []\<rparr>)"

definition register_new_client :: "int \<Rightarrow> string \<Rightarrow> int \<Rightarrow> ServerLogic \<Rightarrow> ServerLogic" where
  "register_new_client fd ip port s =
     set_player fd
       \<lparr>pl_id = ''UNKNOWN'', pl_ip = ip, pl_port = port, messages = [],
        approximations = replicate (nat (K s + 1)) dzero, coefficients = replicate (nat (N s + 1)) dzero,
        penalty = dzero, is_known = False, correct_puts = 0, can_put = False, delay = 0\<rparr>
       (println (''New client ['' @ ip @ '']:'' @ show_int port) s)"

definition is_client_connected :: "int \<Rightarrow> ServerLogic \<Rightarrow> bool" where
  "is_client_connected fd s \<longleftrightarrow> map_of (players s) fd \<noteq> None"

definition validate_client :: "int \<Rightarrow> string \<Rightarrow> int \<Rightarrow> ServerLogic \<Rightarrow> bool" where
  "validate_client fd ip port s =
     (case map_of (players s) fd of None \<Rightarrow> False | Some p \<Rightarrow> pl_ip p = ip \<and> pl_port p = port)"

definition has_pending_messages :: "int \<Rightarrow> ServerLogic \<Rightarrow> bool res" where
  "has_pending_messages fd s = bindR (player fd s) (\<lambda>p. Inr (messages p \<noteq> []))"

definition take_next_message_str :: "int \<Rightarrow> ServerLogic \<Rightarrow> (string \<times> ServerLogic) res" where
  "take_next_message_str fd s =
     bindR (player fd s) (\<lambda>p.
       case messages p of
         [] \<Rightarrow> Inl Undefined
       | m # ms \<Rightarrow> Inr (m, set_player fd (p\<lparr>messages := ms\<rparr>) s))"

definition append_message_front :: "int \<Rightarrow> string \<Rightarrow> ServerLogic \<Rightarrow> ServerLogic res" where
  "append_message_front fd msg s = upd_player fd (\<lambda>p. p\<lparr>messages := msg # messages p\<rparr>) s"

definition append_message_back :: "int \<Rightarrow> string \<Rightarrow> ServerLogic \<Rightarrow> ServerLogic res" where
  "append_message_back fd msg s = upd_player fd (\<lambda>p. p\<lparr>messages := messages p @ [msg]\<rparr>) s"

definition getClientPlayerID :: "int \<Rightarrow> ServerLogic \<Rightarrow> string res" where
  "getClientPlayerID fd s = bindR (player fd s) (\<lambda>p. Inr (pl_id p))"

definition getClientIP :: "int \<Rightarrow> ServerLogic \<Rightarrow> string res" where
  "getClientIP fd s = bindR (player fd s) (\<lambda>p. Inr (pl_ip p))"

definition getClientPort :: "int \<Rightarrow> ServerLogic \<Rightarrow> int res" where
  "getClientPort fd s = bindR (player fd s) (\<lambda>p. Inr (pl_port p))"

definition handle_client_disconnect :: "int \<Rightarrow> ServerLogic \<Rightarrow> ServerLogic res" where
  "handle_client_disconnect fd s =
     bindR (player fd s) (\<lambda>p.
       Inr (s\<lparr>total_correct_puts := total_correct_puts s - correct_puts p,
              players := map_erase fd (players s)\<rparr>))"

section \<open>HELLO\<close>

text \<open>\<open>std::getline(coeff_file, str, '\n')\<close>.\<close>

definition getline :: "string \<Rightarrow> string \<times> string" where
  "getline str =
     (takeWhile (\<lambda>c. c \<noteq> CHR 0x0A) str, drop 1 (dropWhile (\<lambda>c. c \<noteq> CHR 0x0A) str))"

text \<open>\<open>str.substr(0, str.find(crlf))\<close>.\<close>

fun before_crlf :: "string \<Rightarrow> string" where
  "before_crlf (a # b # cs) = (if a = CHR 0x0D \<and> b = CHR 0x0A then [] else a # before_crlf (b # cs))"
| "before_crlf str = str"

definition server_handle_hello :: "int \<Rightarrow> string \<Rightarrow> ServerLogic \<Rightarrow> (bool \<times> ServerLogic) res" where
  "server_handle_hello fd pid s =
     bindR (player fd s) (\<lambda>p.
       if is_known p then Inr (False, s)
       else
         let p = p\<lparr>pl_id := pid, delay := int (length (filter islower pid))\<rparr>;
             s = println (''['' @ pl_ip p @ '']:'' @ show_int (pl_port p) @ '' is now known as '' @ pl_id p @ ''.'') s;
             p = p\<lparr>is_known := True, can_put := True\<rparr>;
             (line, rest) = getline (coeff_file s);
             s = s\<lparr>coeff_file := rest\<rparr>;
             coeffs_str = line @ [CHR 0x0A]
         in case createMessage coeffs_str of
              None \<Rightarrow> Inl Exit
            | Some coeff_msg \<Rightarrow>
                (case body coeff_msg of
                   CoeffMessage cs \<Rightarrow>
                     let s = set_player fd (p\<lparr>coefficients := cs\<rparr>) s;
                         s = println (pl_id p @ [CHR 0x27] @ ''s coefficients are '' @ before_crlf coeffs_str) s
                     in bindR (append_message_back fd (raw_message coeff_msg) s) (\<lambda>s. Inr (True, s))
                 | _ \<Rightarrow> Inl Undefined))"

section \<open>PUT\<close>

definition respond_with_penalty :: "int \<Rightarrow> int \<Rightarrow> double \<Rightarrow> ServerLogic \<Rightarrow> ServerLogic res" where
  "respond_with_penalty fd pt v s =
     bindR (upd_player fd (\<lambda>p. p\<lparr>penalty := dadd (penalty p) (double_of_int early_put_penalty), can_put := True\<rparr>) s) (\<lambda>s.
     bindR (deref (create_penalty pt v)) (\<lambda>m. append_message_back fd (raw_message m) s))"

definition respond_with_bad_put :: "int \<Rightarrow> int \<Rightarrow> int \<Rightarrow> double \<Rightarrow> ServerLogic \<Rightarrow> ServerLogic res" where
  "respond_with_bad_put now fd pt v s =
     bindR (upd_player fd (\<lambda>p. p\<lparr>penalty := dadd (penalty p) (double_of_int bad_put_penalty)\<rparr>) s) (\<lambda>s.
     bindR (player fd s) (\<lambda>p.
       Inr (s\<lparr>events := add_event (Bad_put_response fd pt v (pl_ip p) (pl_port p) (pl_id p))
                        (now + seconds bad_put_delay) (events s)\<rparr>)))"

definition respond_with_state :: "int \<Rightarrow> int \<Rightarrow> string \<Rightarrow> ServerLogic \<Rightarrow> ServerLogic res" where
  "respond_with_state now fd state_msg s =
     bindR (player fd s) (\<lambda>p.
       Inr (s\<lparr>events := add_event (State_response fd state_msg (pl_ip p) (pl_port p) (pl_id p))
                        (now + seconds (delay p)) (events s)\<rparr>))"

text \<open>The bodies of the two callbacks above.\<close>

definition client_gone :: "int \<Rightarrow> string \<Rightarrow> int \<Rightarrow> string \<Rightarrow> ServerLogic \<Rightarrow> bool" where
  "client_gone fd ip port cid s =
     (if \<not> validate_client fd ip port s then True
      else case map_of (players s) fd of None \<Rightarrow> True | Some p \<Rightarrow> pl_id p \<noteq> cid)"

definition bad_put_callback :: "int \<Rightarrow> int \<Rightarrow> double \<Rightarrow> string \<Rightarrow> int \<Rightarrow> string \<Rightarrow> ServerLogic \<Rightarrow> ServerLogic res" where
  "bad_put_callback fd pt v ip port cid s =
     (if client_gone fd ip port cid s then Inr s
      else bindR (upd_player fd (\<lambda>p. p\<lparr>can_put := True\<rparr>) s) (\<lambda>s.
           bindR (deref (create_bad_put pt v)) (\<lambda>m. append_message_back fd (raw_message m) s)))"

definition state_callback :: "int \<Rightarrow> string \<Rightarrow> string \<Rightarrow> int \<Rightarrow> string \<Rightarrow> ServerLogic \<Rightarrow> ServerLogic res" where
  "state_callback fd state_msg ip port cid s =
     (if client_gone fd ip port cid s then Inr s
      else bindR (append_message_back fd state_msg s) (\<lambda>s.
           bindR (substr_from 6 (before_crlf state_msg)) (\<lambda>txt.
             upd_player fd (\<lambda>p. p\<lparr>can_put := True\<rparr>)
               (println (''Sending state '' @ txt @ '' to '' @ cid @ ''.'') s))))"

section \<open>Scores\<close>

text \<open>The loop of \<open>player_poly_at\<close> over the coefficients \<open>i..N\<close>.\<close>

fun poly_loop :: "PlayerInfo \<Rightarrow> double \<Rightarrow> nat \<Rightarrow> nat \<Rightarrow> double \<Rightarrow> double \<Rightarrow> double res" where
  "poly_loop p x i 0 result x_pow = Inr result"
| "poly_loop p x i (Suc n) result x_pow =
     bindR (nth_chk (coefficients p) i) (\<lambda>c.
       poly_loop p x (Suc i) n (dadd result (dmul c x_pow)) (dmul x_pow x))"

definition player_poly_at :: "PlayerInfo \<Rightarrow> int \<Rightarrow> ServerLogic \<Rightarrow> double res" where
  "player_poly_at p x s = poly_loop p (double_of_int x) 0 (nat (N s + 1)) dzero (double_of_int 1)"

fun score_loop :: "PlayerInfo \<Rightarrow> ServerLogic \<Rightarrow> nat \<Rightarrow> nat \<Rightarrow> double \<Rightarrow> double res" where
  "score_loop p s x 0 score = Inr score"
| "score_loop p s x (Suc n) score =
     bindR (player_poly_at p (int x) s) (\<lambda>real_value.
     bindR (nth_chk (approximations p) x) (\<lambda>approx_value.
       score_loop p s (Suc x) n
         (dadd score (dmul (dsub real_value approx_value) (dsub real_value approx_value)))))"

definition calculate_score :: "PlayerInfo \<Rightarrow> ServerLogic \<Rightarrow> double res" where
  "calculate_score p s =
     bindR (score_loop p s 0 (nat (K s + 1)) dzero) (\<lambda>score. Inr (dadd score (penalty p)))"

fun scores_loop :: "ServerLogic \<Rightarrow> (int \<times> PlayerInfo) list \<Rightarrow> (string list \<times> double list) res" where
  "scores_loop s [] = Inr ([], [])"
| "scores_loop s ((fd, p) # ps) =
     (if is_known p
      then bindR (calculate_score p s) (\<lambda>v.
           bindR (scores_loop s ps) (\<lambda>(ids, vs). Inr (pl_id p # ids, v # vs)))
      else scores_loop s ps)"

fun append_to_known :: "(int \<times> PlayerInfo) list \<Rightarrow> string \<Rightarrow> ServerLogic \<Rightarrow> ServerLogic res" where
  "append_to_known [] msg s = Inr s"
| "append_to_known ((fd, p) # ps) msg s =
     (if is_known p then bindR (append_message_back fd msg s) (append_to_known ps msg)
      else append_to_known ps msg s)"

definition send_scoring_messages :: "ServerLogic \<Rightarrow> ServerLogic res" where
  "send_scoring_messages s =
     bindR (scores_loop s (players s)) (\<lambda>(ids, vs).
       case create_scoring ids vs of
         None \<Rightarrow> Inl Undefined
       | Some m \<Rightarrow>
           bindR (append_to_known (players s) (raw_message m) s) (\<lambda>s.
           bindR (substr_from 8 (toRawString m)) (\<lambda>txt.
             Inr (println (''Game end, scoring: '' @ txt) s))))"

definition game_over :: "ServerLogic \<Rightarrow> ServerLogic res" where
  "game_over s = bindR (send_scoring_messages s) (\<lambda>s. Inr (s\<lparr>stopping := True\<rparr>))"

section \<open>Handling a PUT\<close>

definition put_out_of_range :: "int \<Rightarrow> double \<Rightarrow> ServerLogic \<Rightarrow> bool" where
  "put_out_of_range pt v s \<longleftrightarrow>
     pt < 0 \<or> K s < pt \<or> dless (dadd v eps) min_put_value \<or> dless max_put_value (dsub v eps)"

text \<open>The end of \<open>handle_put\<close>, after the checks.\<close>

definition successful_put :: "int \<Rightarrow> int \<Rightarrow> int \<Rightarrow> double \<Rightarrow> ServerLogic \<Rightarrow> (bool \<times> ServerLogic) res" where
  "successful_put now fd pt v s =
     bindR (player fd s) (\<lambda>p.
     bindR (nth_chk (approximations p) (nat pt)) (\<lambda>a.
       let p = p\<lparr>correct_puts := correct_puts p + 1,
                 approximations := (approximations p)[nat pt := dadd a v]\<rparr>;
           s = set_player fd p (s\<lparr>total_correct_puts := total_correct_puts s + 1\<rparr>)
       in bindR (deref (create_state (approximations p))) (\<lambda>m.
          bindR (substr_from 6 (toRawString m)) (\<lambda>txt.
            let s = println (pl_id p @ '' puts '' @ doubleToString v @ '' in '' @ show_int pt @
                             '', current state '' @ txt) s
            in bindR (respond_with_state now fd (raw_message m) s) (\<lambda>s.
                 if M s \<le> total_correct_puts s then bindR (game_over s) (\<lambda>s. Inr (True, s))
                 else Inr (True, s))))))"

definition server_handle_put :: "int \<Rightarrow> int \<Rightarrow> int \<Rightarrow> double \<Rightarrow> ServerLogic \<Rightarrow> (bool \<times> ServerLogic) res" where
  "server_handle_put now fd pt v s =
     bindR (player fd s) (\<lambda>p.
       if \<not> is_known p then Inr (False, s)
       else
         bindR (if \<not> can_put p
                then respond_with_penalty fd pt v
                       (println (pl_id p @ '' tried to put '' @ doubleToString v @ '' in '' @ show_int pt @
                                 '' before it could put.'') s)
                else Inr s) (\<lambda>s.
         bindR (upd_player fd (\<lambda>p. p\<lparr>can_put := False\<rparr>) s) (\<lambda>s.
         let out_of_range = put_out_of_range pt v s in
         bindR (if out_of_range
                then respond_with_bad_put now fd pt v
                       (println (pl_id p @ '' tried to put '' @ doubleToString v @ '' in '' @ show_int pt @
                                 '' which is out of range.'') s)
                else Inr s) (\<lambda>s.
           if \<not> can_put p \<or> out_of_range then Inr (False, s)
           else successful_put now fd pt v s))))"

definition handle_client_message :: "int \<Rightarrow> int \<Rightarrow> Message \<Rightarrow> ServerLogic \<Rightarrow> (bool \<times> ServerLogic) res" where
  "handle_client_message now fd msg s =
     bindR (player fd s) (\<lambda>_.
       case body msg of
         HelloMessage pid \<Rightarrow> server_handle_hello fd pid s
       | PutMessage pt v \<Rightarrow> server_handle_put now fd pt v s
       | _ \<Rightarrow> Inr (False, s))"

definition server_reset :: "ServerLogic \<Rightarrow> ServerLogic" where
  "server_reset s = s\<lparr>events := reset_events (events s), total_correct_puts := 0, players := [], stopping := False\<rparr>"

end
