(* ===== verification/Score_Bounds.thy ===== *)
theory Score_Bounds
  imports Double_Bounds Game_Server
begin

text \<open>
  The scores: the value of a polynomial with nine coefficients at a point up to 10000, and the sum of
  squares over 10001 points, stay finite in every intermediate result.
\<close>

definition pow15 :: "nat \<Rightarrow> real" where
  "pow15 i = 2 ^ (15 * i)"

lemma pow15_simps: "pow15 0 = 1" "pow15 (Suc i) = 32768 * pow15 i"
  by (simp_all add: pow15_def power_add)

lemma pow15_ge: "1 \<le> pow15 i"
  by (simp add: pow15_def)

lemma pow15_le: "i \<le> 9 \<Longrightarrow> pow15 i \<le> 2 ^ 135"
  unfolding pow15_def by (rule power_increasing) simp_all

lemma poly_loop_bounded:
  assumes "bounded x (2 ^ 14)" and "\<forall>c \<in> set (coefficients p). bounded c (2 ^ 7)"
  shows "i + n \<le> length (coefficients p) \<Longrightarrow> i + n \<le> 9 \<Longrightarrow> bounded result (256 * pow15 i) \<Longrightarrow> bounded x_pow (2 * pow15 i) \<Longrightarrow>
    \<exists>r. poly_loop p x i n result x_pow = Inr r \<and> bounded r (256 * pow15 (i + n))"
proof (induction n arbitrary: i result x_pow)
  case (Suc n)
  let ?c = "coefficients p ! i"
  have i: "i < length (coefficients p)" "i \<le> 9" using Suc.prems by simp_all
  note b = pow15_le [OF i(2)] pow15_ge [of i]
  have c: "bounded ?c (2 ^ 7)" using assms(2) i(1) by simp
  have prod: "bounded (dmul ?c x_pow) (512 * pow15 i)"
    using bounded_dmul [OF c Suc.prems(4), of "512 * pow15 i"] b by simp
  have "bounded (dadd result (dmul ?c x_pow)) (2048 * pow15 i)"
    using bounded_dadd [OF Suc.prems(3) prod, of "2048 * pow15 i"] b by simp
  then have r: "bounded (dadd result (dmul ?c x_pow)) (256 * pow15 (Suc i))"
    by (rule bounded_mono) (use b in \<open>simp add: pow15_simps\<close>)
  have "bounded (dmul x_pow x) (2 * pow15 (Suc i))"
    using bounded_dmul [OF Suc.prems(4) assms(1), of "2 * pow15 (Suc i)"] b by (simp add: pow15_simps)
  from Suc.IH [OF _ _ r this] Suc.prems(1,2) show ?case using i(1) by simp
qed simp

lemma player_poly_bounded:
  assumes "int (length (coefficients p)) = N s + 1" and "N s \<le> 8" and "\<forall>c \<in> set (coefficients p). bounded c (2 ^ 7)"
    and "\<bar>x\<bar> \<le> 10000"
  shows "\<exists>r. player_poly_at p x s = Inr r \<and> bounded r (2 ^ 143)"
proof -
  have n: "nat (N s + 1) = length (coefficients p)" "length (coefficients p) \<le> 9" using assms(1,2) by simp_all
  obtain r where r: "poly_loop p (double_of_int x) 0 (nat (N s + 1)) dzero (double_of_int 1) = Inr r"
      "bounded r (256 * pow15 (0 + nat (N s + 1)))"
    using poly_loop_bounded [OF bounded_of_int [OF assms(4)] assms(3), of 0 "nat (N s + 1)" dzero "double_of_int 1"]
      bounded_one n by (auto simp: pow15_simps)
  have "bounded r (2 ^ 143)"
    by (rule bounded_mono [OF r(2)]) (use pow15_le [of "nat (N s + 1)"] n in simp)
  then show ?thesis using r(1) by (simp add: player_poly_at_def)
qed

definition approx_bounded :: "PlayerInfo \<Rightarrow> bool" where
  "approx_bounded p \<longleftrightarrow> (\<forall>a \<in> set (approximations p). bounded a (2 ^ 30))"

lemma score_loop_bounded:
  assumes "int (length (coefficients p)) = N s + 1" and "N s \<le> 8" and "\<forall>c \<in> set (coefficients p). bounded c (2 ^ 7)"
    and "approx_bounded p"
  shows "x + n \<le> length (approximations p) \<Longrightarrow> x + n \<le> 10001 \<Longrightarrow> bounded score (real x * 2 ^ 290) \<Longrightarrow>
    \<exists>r. score_loop p s x n score = Inr r \<and> bounded r (real (x + n) * 2 ^ 290)"
proof (induction n arbitrary: x score)
  case (Suc n)
  let ?a = "approximations p ! x"
  have x: "x < length (approximations p)" "x \<le> 10000" using Suc.prems by simp_all
  have a: "bounded ?a (2 ^ 30)" using assms(4) x(1) by (simp add: approx_bounded_def)
  obtain r where r: "player_poly_at p (int x) s = Inr r" "bounded r (2 ^ 143)"
    using player_poly_bounded [OF assms(1-3), of "int x"] x(2) by auto
  have d: "bounded (dsub r ?a) (2 ^ 144)" by (rule bounded_dsub [OF r(2) a]) simp_all
  have q: "bounded (dmul (dsub r ?a) (dsub r ?a)) (2 ^ 289)" by (rule bounded_dmul [OF d d]) simp_all
  have xr: "real x \<le> 10000" using x(2) by simp
  have "bounded (dadd score (dmul (dsub r ?a) (dsub r ?a))) (real (Suc x) * 2 ^ 290)"
    by (rule bounded_dadd [OF Suc.prems(3) q]) (use xr in simp_all)
  from Suc.IH [OF _ _ this] Suc.prems(1,2) show ?case using r(1) x(1) by simp
qed simp

lemma calculate_score_bounded:
  assumes "int (length (coefficients p)) = N s + 1" and "N s \<le> 8" and "\<forall>c \<in> set (coefficients p). bounded c (2 ^ 7)"
    and "approx_bounded p" and "length (approximations p) = nat (K s + 1)" and "K s \<le> 10000" and "bounded (penalty p) (2 ^ 59)"
  shows "\<exists>r. calculate_score p s = Inr r \<and> is_finite r \<and> canonical r"
proof -
  have k: "nat (K s + 1) \<le> 10001" "real (nat (K s + 1)) \<le> 10001" using assms(6) by linarith+
  obtain r where r: "score_loop p s 0 (nat (K s + 1)) dzero = Inr r" "bounded r (real (nat (K s + 1)) * 2 ^ 290)"
    using score_loop_bounded [OF assms(1-4), of 0 "nat (K s + 1)" dzero] assms(5) k(1) by auto
  have "bounded r (10001 * 2 ^ 290)" by (rule bounded_mono [OF r(2)]) (use k(2) in simp)
  from bounded_dadd [OF this assms(7), of "2 ^ 310"]
  have "bounded (dadd r (penalty p)) (2 ^ 310)" by simp
  then show ?thesis using r(1) by (auto simp: calculate_score_def bounded_def)
qed

end
