(* ===== verification/Game_Invariants.thy ===== *)
theory Game_Invariants
  imports Game_Server
begin

text \<open>
  The invariant of the game, for the set \<open>F\<close> of the descriptors of its clients: the clients are ordered by their descriptors, the counter of correct
  puts is the sum over the connected players, every player has an approximation for each of the
  points \<open>0..K\<close>, known players have alphanumeric ids, and the timers are ordered by deadline.
  Every operation of \<open>ServerLogic\<close> keeps it.
\<close>

section \<open>Ordered maps\<close>

definition sorted_keys :: "(int \<times> 'v) list \<Rightarrow> bool" where
  "sorted_keys m \<longleftrightarrow> sorted_wrt (<) (map fst m)"

lemma sorted_keys_simps [simp]:
  "sorted_keys []" "sorted_keys ((k, v) # m) \<longleftrightarrow> (\<forall>x \<in> set m. k < fst x) \<and> sorted_keys m"
  by (auto simp: sorted_keys_def)

lemma keys_map_put: "fst ` set (map_put k v m) = insert k (fst ` set m)"
  by (induction k v m rule: map_put.induct) auto

lemma set_map_put: "set (map_put k v m) \<subseteq> insert (k, v) (set m)"
  by (induction k v m rule: map_put.induct) auto

lemma sorted_map_put: "sorted_keys m \<Longrightarrow> sorted_keys (map_put k v m)"
proof (induction k v m rule: map_put.induct)
  case (2 k v k' v' m)
  have "\<forall>x \<in> set (map_put k v m). k' < fst x" if "k' < k" "\<forall>x \<in> set m. k' < fst x"
    using that set_map_put [of k v m] by auto
  with 2 show ?case by (auto simp: not_less_iff_gr_or_eq)
qed simp

lemma map_of_map_put: "map_of (map_put k v m) x = (if x = k then Some v else map_of m x)"
  by (induction k v m rule: map_put.induct) auto

lemma sorted_map_of: "sorted_keys m \<Longrightarrow> (k, v) \<in> set m \<longleftrightarrow> map_of m k = Some v"
proof (induction m)
  case (Cons x m)
  then show ?case by (cases x) (force dest: map_of_SomeD)
qed simp

lemma sorted_map_erase: "sorted_keys m \<Longrightarrow> sorted_keys (map_erase k m)"
  unfolding map_erase_def by (induction m) (force split: prod.splits)+

lemma keys_map_erase: "fst ` set (map_erase k m) = fst ` set m - {k}"
  by (auto simp: map_erase_def)

lemma set_map_erase: "set (map_erase k m) \<subseteq> set m"
  by (auto simp: map_erase_def)

text \<open>The sum of a field over the values of a map.\<close>

definition total_of :: "('v \<Rightarrow> int) \<Rightarrow> (int \<times> 'v) list \<Rightarrow> int" where
  "total_of f m = sum_list (map (f \<circ> snd) m)"

lemma total_of_simps [simp]: "total_of f [] = 0" "total_of f ((k, v) # m) = f v + total_of f m"
  by (simp_all add: total_of_def)

lemma total_of_put_new: "map_of m k = None \<Longrightarrow> total_of f (map_put k v m) = total_of f m + f v"
  by (induction k v m rule: map_put.induct) auto

lemma total_of_put: "sorted_keys m \<Longrightarrow> map_of m k = Some v' \<Longrightarrow> total_of f (map_put k v m) = total_of f m + f v - f v'"
proof (induction k v m rule: map_put.induct)
  case (2 k v k' w m)
  then show ?case using map_of_SomeD [of m k v'] by (auto split: if_splits)
qed simp

lemma total_of_erase: "sorted_keys m \<Longrightarrow> map_of m k = Some v \<Longrightarrow> total_of f (map_erase k m) = total_of f m - f v"
proof (induction m)
  case (Cons x m)
  obtain k' v' where x: "x = (k', v')" by (cases x)
  show ?case
  proof (cases "k' = k")
    case True
    have "map_erase k m = m"
      unfolding map_erase_def using Cons.prems(1) True by (auto simp: x filter_id_conv)
    then show ?thesis using True Cons.prems by (simp add: x map_erase_def)
  next
    case False
    then show ?thesis using Cons by (simp add: x map_erase_def)
  qed
qed simp

section \<open>The invariant\<close>

definition player_ok :: "ServerLogic \<Rightarrow> PlayerInfo \<Rightarrow> bool" where
  "player_ok s p \<longleftrightarrow> length (approximations p) = nat (K s + 1) \<and> 0 \<le> correct_puts p \<and>
     (is_known p \<longrightarrow> isAlphanumeric (pl_id p) \<and> pl_id p \<noteq> [])"

definition game_ok :: "int set \<Rightarrow> ServerLogic \<Rightarrow> bool" where
  "game_ok F s \<longleftrightarrow> fst ` set (players s) = F \<and> sorted_keys (players s) \<and> sorted_events (events s) \<and>
     total_correct_puts s = total_of correct_puts (players s) \<and> (\<forall>(fd, p) \<in> set (players s). player_ok s p)"

lemma game_okD: "game_ok F s \<Longrightarrow> map_of (players s) fd = Some p \<Longrightarrow> player_ok s p"
  using sorted_map_of [of "players s" fd p] by (auto simp: game_ok_def)

lemma player_ok_fields [simp]:
  "player_ok (s\<lparr>cout := x\<rparr>) p = player_ok s p" "player_ok (s\<lparr>events := ev\<rparr>) p = player_ok s p"
  "player_ok (s\<lparr>coeff_file := f\<rparr>) p = player_ok s p" "player_ok (s\<lparr>stopping := b\<rparr>) p = player_ok s p"
  "player_ok (s\<lparr>players := ps\<rparr>) p = player_ok s p" "player_ok (s\<lparr>total_correct_puts := n\<rparr>) p = player_ok s p"
  by (simp_all add: player_ok_def)

lemma game_ok_fields [simp]:
  "game_ok F (println l s) = game_ok F s" "game_ok F (s\<lparr>coeff_file := f\<rparr>) = game_ok F s" "game_ok F (s\<lparr>stopping := b\<rparr>) = game_ok F s"
  by (simp_all add: game_ok_def println_def)

lemma println_simps [simp]:
  "players (println l s) = players s" "events (println l s) = events s" "K (println l s) = K s" "N (println l s) = N s"
  "M (println l s) = M s" "total_correct_puts (println l s) = total_correct_puts s" "stopping (println l s) = stopping s"
  "coeff_file (println l s) = coeff_file s"
  by (simp_all add: println_def)

lemma set_player_simps [simp]:
  "players (set_player fd p s) = map_put fd p (players s)" "events (set_player fd p s) = events s"
  "K (set_player fd p s) = K s" "N (set_player fd p s) = N s" "M (set_player fd p s) = M s"
  "total_correct_puts (set_player fd p s) = total_correct_puts s" "stopping (set_player fd p s) = stopping s"
  by (simp_all add: set_player_def)

lemma player_println [simp]: "player fd (println l s) = player fd s"
  by (simp add: player_def)

lemma ok_player: "(\<And>p. map_of (players s) fd = Some p \<Longrightarrow> P p) \<Longrightarrow> okR P (player fd s)"
  by (simp add: player_def split: option.split)

lemma key_of_map_of: "map_of m k = Some v \<Longrightarrow> k \<in> fst ` set m"
  by (force dest: map_of_SomeD)

text \<open>Replacing a player without changing its number of correct puts.\<close>

lemma game_ok_set_player:
  assumes "game_ok F s" and "map_of (players s) fd = Some p" and "player_ok s q" and "correct_puts q = correct_puts p"
  shows "game_ok F (set_player fd q s)"
  using assms set_map_put [of fd q "players s"] key_of_map_of [OF assms(2)]
  by (auto simp: game_ok_def sorted_map_put total_of_put set_player_def keys_map_put insert_absorb)

lemma ok_upd_player:
  assumes "game_ok F s" and "\<And>p. correct_puts (f p) = correct_puts p" and "\<And>p. player_ok s p \<Longrightarrow> player_ok s (f p)"
  shows "okR (game_ok F) (upd_player fd f s)"
  using assms game_okD [OF assms(1)] game_ok_set_player [OF assms(1)]
  by (auto simp: upd_player_def intro!: ok_player)

lemma ok_append_back: "game_ok F s \<Longrightarrow> okR (game_ok F) (append_message_back fd msg s)"
  unfolding append_message_back_def by (rule ok_upd_player) (simp_all add: player_ok_def)

lemma ok_append_front: "game_ok F s \<Longrightarrow> okR (game_ok F) (append_message_front fd msg s)"
  unfolding append_message_front_def by (rule ok_upd_player) (simp_all add: player_ok_def)

lemma ok_take_next:
  assumes "game_ok F s"
  shows "okR (\<lambda>(m, s'). game_ok F s') (take_next_message_str fd s)"
  unfolding take_next_message_str_def okR_bind
proof (rule ok_player)
  fix p
  assume p: "map_of (players s) fd = Some p"
  then have "player_ok s p" by (rule game_okD [OF assms])
  then show "okR (\<lambda>(m, s'). game_ok F s') (case messages p of [] \<Rightarrow> Inl Undefined
      | m # ms \<Rightarrow> Inr (m, set_player fd (p\<lparr>messages := ms\<rparr>) s))"
    using game_ok_set_player [OF assms p] by (auto simp: player_ok_def split: list.split)
qed

section \<open>Operations\<close>

lemma game_ok_put_new:
  assumes "game_ok F s" and "map_of (players s) fd = None" and "player_ok s q" and "correct_puts q = 0"
  shows "game_ok (insert fd F) (set_player fd q s)"
  using assms set_map_put [of fd q "players s"]
  by (auto simp: game_ok_def sorted_map_put total_of_put_new set_player_def keys_map_put)

lemma game_ok_register:
  assumes "game_ok F s" and "\<not> is_client_connected fd s"
  shows "game_ok (insert fd F) (register_new_client fd ip port s)"
  unfolding register_new_client_def
  using assms by (intro game_ok_put_new) (simp_all add: is_client_connected_def player_ok_def)

lemma ok_disconnect:
  assumes "game_ok F s"
  shows "okR (game_ok (F - {fd})) (handle_client_disconnect fd s)"
  unfolding handle_client_disconnect_def okR_bind
proof (rule ok_player)
  fix p
  assume "map_of (players s) fd = Some p"
  then show "okR (game_ok (F - {fd})) (Inr (s\<lparr>total_correct_puts := total_correct_puts s - correct_puts p,
      players := map_erase fd (players s)\<rparr>))"
    using assms set_map_erase [of fd "players s"]
    by (auto simp: game_ok_def sorted_map_erase total_of_erase player_ok_def keys_map_erase)
qed

lemma game_ok_reset: "game_ok {} (server_reset s)"
  by (simp add: game_ok_def server_reset_def reset_events_def)

lemma game_ok_event: "game_ok F s \<Longrightarrow> game_ok F (s\<lparr>events := add_event e t (events s)\<rparr>)"
  by (auto simp: game_ok_def sorted_add_event)

lemma ok_respond_with_penalty: "game_ok F s \<Longrightarrow> okR (game_ok F) (respond_with_penalty fd pt v s)"
  unfolding respond_with_penalty_def okR_bind
  by (rule okR_mono [OF ok_upd_player]) (auto simp: player_ok_def intro!: okR_all [of _ "deref _"] ok_append_back)

lemma ok_respond_with_bad_put: "game_ok F s \<Longrightarrow> okR (game_ok F) (respond_with_bad_put now fd pt v s)"
  unfolding respond_with_bad_put_def okR_bind
  by (rule okR_mono [OF ok_upd_player]) (auto simp: player_ok_def game_ok_event intro!: ok_player)

lemma ok_respond_with_state: "game_ok F s \<Longrightarrow> okR (game_ok F) (respond_with_state now fd m s)"
  by (auto simp: respond_with_state_def game_ok_event intro!: ok_player)

lemma ok_callbacks:
  assumes "game_ok F s"
  shows "okR (game_ok F) (bad_put_callback fd pt v ip port cid s)" and "okR (game_ok F) (state_callback fd m ip port cid s)"
proof -
  have "okR (game_ok F) (bindR (upd_player fd (\<lambda>p. p\<lparr>can_put := True\<rparr>) s) (\<lambda>s.
           bindR (deref (create_bad_put pt v)) (\<lambda>m. append_message_back fd (raw_message m) s)))"
    unfolding okR_bind using assms
    by (intro okR_mono [OF ok_upd_player]) (auto simp: player_ok_def intro!: okR_all [of _ "deref _"] ok_append_back)
  then show "okR (game_ok F) (bad_put_callback fd pt v ip port cid s)"
    using assms by (simp add: bad_put_callback_def)
  have "okR (game_ok F) (upd_player fd (\<lambda>p. p\<lparr>can_put := True\<rparr>) (println l s'))" if "game_ok F s'" for s' l
    using that by (intro ok_upd_player) (simp_all add: player_ok_def)
  then have "okR (game_ok F) (bindR (append_message_back fd m s) (\<lambda>s.
           bindR (substr_from 6 (before_crlf m)) (\<lambda>txt.
             upd_player fd (\<lambda>p. p\<lparr>can_put := True\<rparr>)
               (println (''Sending state '' @ txt @ '' to '' @ cid @ ''.'') s))))"
    unfolding okR_bind using assms
    by (intro okR_mono [OF ok_append_back]) (auto intro!: okR_all [of _ "substr_from _ _"])
  then show "okR (game_ok F) (state_callback fd m ip port cid s)"
    using assms by (simp add: state_callback_def)
qed

lemma ok_append_to_known: "game_ok F s \<Longrightarrow> okR (game_ok F) (append_to_known ps msg s)"
proof (induction ps arbitrary: s)
  case (Cons x ps)
  obtain fd p where x: "x = (fd, p)" by (cases x)
  show ?case
    using Cons.IH Cons.prems okR_mono [OF ok_append_back [OF Cons.prems] Cons.IH] by (simp add: x)
qed simp

lemma ok_game_over:
  assumes "game_ok F s"
  shows "okR (game_ok F) (game_over s)"
proof -
  have "okR (game_ok F) (send_scoring_messages s)"
    unfolding send_scoring_messages_def okR_bind
  proof (rule okR_all)
    fix x :: "string list \<times> double list"
    obtain ids vs where x: "x = (ids, vs)" by (cases x)
    have "okR (game_ok F) (bindR (append_to_known (players s) (raw_message m) s) (\<lambda>s.
        bindR (substr_from 8 (toRawString m)) (\<lambda>txt. Inr (println (''Game end, scoring: '' @ txt) s))))" for m :: Message
      unfolding okR_bind
      by (rule okR_mono [OF ok_append_to_known [OF assms]]) (auto intro!: okR_all [of _ "substr_from _ _"])
    then show "okR (game_ok F) (case x of (ids, vs) \<Rightarrow> (case create_scoring ids vs of None \<Rightarrow> Inl Undefined
       | Some m \<Rightarrow> bindR (append_to_known (players s) (raw_message m) s) (\<lambda>s.
           bindR (substr_from 8 (toRawString m)) (\<lambda>txt. Inr (println (''Game end, scoring: '' @ txt) s)))))"
      by (simp add: x split: option.split)
  qed
  then show ?thesis
    unfolding game_over_def okR_bind by (rule okR_mono) simp
qed

lemma ok_hello:
  assumes "game_ok F s" and "isAlphanumeric pid" and "pid \<noteq> []"
  shows "okR (\<lambda>(r, s'). game_ok F s') (server_handle_hello fd pid s)"
  unfolding server_handle_hello_def okR_bind
proof (rule ok_player)
  fix p
  assume p: "map_of (players s) fd = Some p"
  then have pok: "player_ok s p" by (rule game_okD [OF assms(1)])
  have "game_ok F (set_player fd (p\<lparr>pl_id := pid, delay := d, is_known := True, can_put := True, coefficients := cs\<rparr>)
      (println l s\<lparr>coeff_file := f\<rparr>))" for d cs l f
    using assms p pok by (intro game_ok_set_player [of _ _ _ p]) (simp_all add: player_ok_def)
  then have "okR (game_ok F) (append_message_back fd m (println l' (set_player fd
      (p\<lparr>pl_id := pid, delay := d, is_known := True, can_put := True, coefficients := cs\<rparr>)
      (println l s\<lparr>coeff_file := f\<rparr>))))" for d cs l f m l'
    by (intro ok_append_back) simp
  then have "okR (\<lambda>x. okR (\<lambda>(r, s'). game_ok F s') (Inr (True, x))) (append_message_back fd m (println l' (set_player fd
      (p\<lparr>pl_id := pid, delay := d, is_known := True, can_put := True, coefficients := cs\<rparr>)
      (println l s\<lparr>coeff_file := f\<rparr>))))" for d cs l f m l'
    by simp
  note tail = this
  show "okR (\<lambda>(r, s'). game_ok F s') (if is_known p then Inr (False, s)
       else
         let p = p\<lparr>pl_id := pid, delay := int (length (filter islower pid))\<rparr>;
             s = println (''['' @ pl_ip p @ '']:'' @ show_int (pl_port p) @ '' is now known as '' @ pl_id p @ ''.'') s;
             p = p\<lparr>is_known := True, can_put := True\<rparr>;
             (line, rest) = getline (coeff_file s);
             s = s\<lparr>coeff_file := rest\<rparr>;
             coeffs_str = line @ [CHR 0x0A]
         in case createMessage coeffs_str of
              None \<Rightarrow> Inl Exit
            | Some coeff_msg \<Rightarrow>
                (case body coeff_msg of
                   CoeffMessage cs \<Rightarrow>
                     let s = set_player fd (p\<lparr>coefficients := cs\<rparr>) s;
                         s = println (pl_id p @ [CHR 0x27] @ ''s coefficients are '' @ before_crlf coeffs_str) s
                     in bindR (append_message_back fd (raw_message coeff_msg) s) (\<lambda>s. Inr (True, s))
                 | _ \<Rightarrow> Inl Undefined))"
    using assms(1) tail by (simp add: Let_def split: prod.split option.split payload.split)
qed

lemma game_ok_correct_put:
  assumes "game_ok F s" and "map_of (players s) fd = Some p" and "player_ok s q" and "correct_puts q = correct_puts p + 1"
  shows "game_ok F (set_player fd q (s\<lparr>total_correct_puts := total_correct_puts s + 1\<rparr>))"
  using assms set_map_put [of fd q "players s"] key_of_map_of [OF assms(2)]
  by (auto simp: game_ok_def sorted_map_put total_of_put set_player_def player_ok_def keys_map_put insert_absorb)

lemma ok_successful_put:
  assumes "game_ok F s"
  shows "okR (\<lambda>(r, s'). game_ok F s') (successful_put now fd pt v s)"
  unfolding successful_put_def okR_bind
proof (rule ok_player, rule okR_all)
  fix p a
  assume p: "map_of (players s) fd = Some p"
  then have pok: "player_ok s p" by (rule game_okD [OF assms])
  let ?p = "p\<lparr>correct_puts := correct_puts p + 1, approximations := (approximations p)[nat pt := dadd a v]\<rparr>"
  let ?s = "set_player fd ?p (s\<lparr>total_correct_puts := total_correct_puts s + 1\<rparr>)"
  have s: "game_ok F ?s"
    using pok by (intro game_ok_correct_put [OF assms p]) (simp_all add: player_ok_def)
  show "okR (\<lambda>(r, s'). game_ok F s') (let p = ?p; s = set_player fd p (s\<lparr>total_correct_puts := total_correct_puts s + 1\<rparr>)
       in bindR (deref (create_state (approximations p))) (\<lambda>m.
          bindR (substr_from 6 (toRawString m)) (\<lambda>txt.
            let s = println (pl_id p @ '' puts '' @ doubleToString v @ '' in '' @ show_int pt @
                             '', current state '' @ txt) s
            in bindR (respond_with_state now fd (raw_message m) s) (\<lambda>s.
                 if M s \<le> total_correct_puts s then bindR (game_over s) (\<lambda>s. Inr (True, s))
                 else Inr (True, s)))))"
    unfolding Let_def okR_bind using s
    by (auto intro!: okR_all [of _ "deref _"] okR_all [of _ "substr_from _ _"] okR_mono [OF ok_respond_with_state]
        ok_game_over simp del: okR_simps(3))
qed

lemma ok_put:
  assumes "game_ok F s"
  shows "okR (\<lambda>(r, s'). game_ok F s') (server_handle_put now fd pt v s)"
proof -
  have clear: "okR (game_ok F) (upd_player fd (\<lambda>p. p\<lparr>can_put := False\<rparr>) s')" if "game_ok F s'" for s'
    using that by (intro ok_upd_player) (simp_all add: player_ok_def)
  have early: "okR (game_ok F) (if b then respond_with_penalty fd pt v (println l s) else Inr s)" for b l
    using assms ok_respond_with_penalty by simp
  have bad: "okR (game_ok F) (if b then respond_with_bad_put now fd pt v (println l s') else Inr s')" if "game_ok F s'" for b l s'
    using that ok_respond_with_bad_put by simp
  have fin: "okR (\<lambda>(r, s'). game_ok F s') (if b then Inr (False, s') else successful_put now fd pt v s')"
    if "game_ok F s'" for b s'
    using that ok_successful_put by simp
  show ?thesis
    unfolding server_handle_put_def okR_bind Let_def
    using assms okR_mono [OF early okR_mono [OF clear okR_mono [OF bad fin]]]
    by (auto intro!: ok_player simp del: okR_simps(3))
qed

text \<open>What the parser guarantees of a HELLO.\<close>

definition msg_ok :: "Message \<Rightarrow> bool" where
  "msg_ok m \<longleftrightarrow> (\<forall>p. body m = HelloMessage p \<longrightarrow> isAlphanumeric p \<and> p \<noteq> [])"

lemma createMessage_ok:
  assumes "createMessage line = Some m"
  shows "msg_ok m"
proof -
  obtain cmd ts b where m: "list_all param_ok ts" "parseMessage cmd ts = Some b"
      "m = \<lparr>raw_message = line, msg_params = ts, body = b\<rparr>"
    using assms unfolding createMessage_iff by blast
  have "isAlphanumeric p \<and> p \<noteq> []" if "b = HelloMessage p" for p
    using m(1,2) that
    by (auto simp: parseMessage_def parse_hello_def parse_coeff_def parse_put_def parse_state_def parse_scoring_def
        param_ok_def split: if_splits list.splits)
  then show ?thesis by (simp add: msg_ok_def m(3))
qed

lemma ok_client_message:
  assumes "game_ok F s" and "msg_ok m"
  shows "okR (\<lambda>(r, s'). game_ok F s') (handle_client_message now fd m s)"
  unfolding handle_client_message_def okR_bind
  using assms(2) ok_put [OF assms(1)] ok_hello [OF assms(1)] assms(1)
  by - (rule okR_all, auto simp: msg_ok_def split: payload.split)

end
