(* ===== verification/Server_Loop.thy ===== *)
theory Server_Loop
  imports Game_Invariants
begin

text \<open>
  The main loop of the server: \<open>src/the-great-approximator/approx-server.cpp\<close>. The state is the game,
  the buffers of received bytes and the vector \<open>poll_fds\<close>, whose element 0 is the listening socket.
  What \<open>poll\<close>, \<open>accept\<close>, \<open>recv\<close> and \<open>send\<close> deliver in an iteration, and the time, are its inputs.
\<close>

section \<open>State and inputs\<close>

text \<open>
  An element of \<open>poll_fds\<close>: POLLIN is always requested, POLLOUT if \<open>pollout\<close>; the last three fields are
  the flags of \<open>revents\<close> (hang-up, readable or in error, writable).
\<close>

record pollfd =
  fd :: int
  pollout :: bool
  rev_hup :: bool
  rev_in :: bool
  rev_out :: bool

text \<open>\<open>transmitted\<close> is what \<open>send\<close> has taken for each client since it was connected.\<close>

record Server =
  logic :: ServerLogic
  client_buffers :: "(int \<times> string) list"
  poll_fds :: "pollfd list"
  transmitted :: "(int \<times> string) list"

datatype recv_result = Recv_failed | Recv_closed | Recv_bytes string

text \<open>
  Inputs of an iteration: the number of ready descriptors, the condition of a descriptor (hang-up,
  readable or in error, writable), the accepted connection (descriptor, address, port), the bytes
  received on a descriptor, the result of the \<open>n\<close>-th \<open>send\<close> on it, and the time.
\<close>

record inputs =
  ready :: int
  re_hup :: "int \<Rightarrow> bool"
  re_in :: "int \<Rightarrow> bool"
  re_out :: "int \<Rightarrow> bool"
  accepted :: "(int \<times> string \<times> int) option"
  received :: "int \<Rightarrow> recv_result"
  send_result :: "int \<Rightarrow> nat \<Rightarrow> string \<Rightarrow> int"
  now :: int

definition hello_wait_time :: int where "hello_wait_time = 3"

definition on_logic :: "(ServerLogic \<Rightarrow> ServerLogic res) \<Rightarrow> Server \<Rightarrow> Server res" where
  "on_logic f w = bindR (f (logic w)) (\<lambda>s. Inr (w\<lparr>logic := s\<rparr>))"

definition stream_to :: "Server \<Rightarrow> int \<Rightarrow> string" where
  "stream_to w cfd = (case map_of (transmitted w) cfd of None \<Rightarrow> [] | Some bs \<Rightarrow> bs)"

definition transmit :: "int \<Rightarrow> string \<Rightarrow> Server \<Rightarrow> Server" where
  "transmit cfd bs w = w\<lparr>transmitted := map_put cfd (stream_to w cfd @ bs) (transmitted w)\<rparr>"

lemma transmit_simps [simp]:
  "logic (transmit cfd bs w) = logic w" "poll_fds (transmit cfd bs w) = poll_fds w"
  "client_buffers (transmit cfd bs w) = client_buffers w"
  by (simp_all add: transmit_def)

lemma stream_to_simps [simp]:
  "stream_to (w\<lparr>logic := s\<rparr>) = stream_to w" "stream_to (w\<lparr>poll_fds := ps\<rparr>) = stream_to w"
  "stream_to (w\<lparr>client_buffers := b\<rparr>) = stream_to w" "stream_to (w\<lparr>transmitted := []\<rparr>) = (\<lambda>c. [])"
  by (simp_all add: stream_to_def fun_eq_iff)

lemma transmit_logic: "transmit cfd bs w\<lparr>logic := s\<rparr> = transmit cfd bs (w\<lparr>logic := s\<rparr>)"
  by (simp add: transmit_def stream_to_def)

definition new_pollfd :: "int \<Rightarrow> pollfd" where
  "new_pollfd cfd = \<lparr>fd = cfd, pollout = False, rev_hup = False, rev_in = False, rev_out = False\<rparr>"

text \<open>What \<open>poll\<close> writes into \<open>revents\<close>: writability only where it was asked for.\<close>

definition poll_one :: "inputs \<Rightarrow> pollfd \<Rightarrow> pollfd" where
  "poll_one inp p = p\<lparr>rev_hup := re_hup inp (fd p), rev_in := re_in inp (fd p),
     rev_out := pollout p \<and> re_out inp (fd p)\<rparr>"

section \<open>Connections\<close>

definition remove_nth :: "nat \<Rightarrow> 'a list \<Rightarrow> 'a list" where
  "remove_nth i xs = take i xs @ drop (Suc i) xs"

text \<open>The index \<open>i\<close> that the code decrements is adjusted by the callers.\<close>

definition disconnect_client :: "int \<Rightarrow> nat \<Rightarrow> string \<Rightarrow> Server \<Rightarrow> Server res" where
  "disconnect_client cfd i pid w =
     bindR (handle_client_disconnect cfd (println (''Disconnecting '' @ pid) (logic w))) (\<lambda>s.
       if i < length (poll_fds w)
       then Inr (w\<lparr>logic := s, poll_fds := remove_nth i (poll_fds w),
                   client_buffers := map_erase cfd (client_buffers w)\<rparr>)
       else Inl Undefined)"

definition handle_new_connection :: "inputs \<Rightarrow> Server \<Rightarrow> Server" where
  "handle_new_connection inp w =
     (case accepted inp of
        None \<Rightarrow> w
      | Some (cfd, ip, port) \<Rightarrow>
          let s = register_new_client cfd ip port (logic w)
          in w\<lparr>poll_fds := poll_fds w @ [new_pollfd cfd],
               logic := s\<lparr>events := add_event (Hello_timeout cfd ip port)
                                   (now inp + seconds hello_wait_time) (events s)\<rparr>,
               client_buffers := map_put cfd [] (client_buffers w),
               transmitted := map_put cfd [] (transmitted w)\<rparr>)"

text \<open>The search of the callback for the index of the client.\<close>

fun index_of_fd :: "int \<Rightarrow> pollfd list \<Rightarrow> nat" where
  "index_of_fd cfd [] = 0"
| "index_of_fd cfd (p # ps) = (if fd p = cfd then 0 else Suc (index_of_fd cfd ps))"

definition hello_callback :: "int \<Rightarrow> string \<Rightarrow> int \<Rightarrow> Server \<Rightarrow> Server res" where
  "hello_callback cfd ip port w =
     (if \<not> validate_client cfd ip port (logic w) then Inr w
      else bindR (player cfd (logic w)) (\<lambda>p.
        if \<not> is_known p
        then disconnect_client cfd (index_of_fd cfd (poll_fds w)) (pl_id p)
               (w\<lparr>logic := println (''Did not receive hello from ['' @ ip @ '']:'' @ show_int port @ ''.'') (logic w)\<rparr>)
        else Inr w))"

text \<open>A callback of the event manager, on the state of the whole server.\<close>

fun call_event :: "event \<Rightarrow> Server \<Rightarrow> Server res" where
  "call_event (Bad_put_response cfd pt v ip port cid) w = on_logic (bad_put_callback cfd pt v ip port cid) w"
| "call_event (State_response cfd m ip port cid) w = on_logic (state_callback cfd m ip port cid) w"
| "call_event (Hello_timeout cfd ip port) w = hello_callback cfd ip port w"

definition server_check_timers :: "int \<Rightarrow> Server \<Rightarrow> Server res" where
  "server_check_timers t w =
     bindR (check_timers call_event t (events (logic w)) w) (\<lambda>(w, evs).
       Inr (w\<lparr>logic := (logic w)\<lparr>events := evs\<rparr>\<rparr>))"

section \<open>Reading\<close>

text \<open>The position of the first CRLF.\<close>

fun find_crlf :: "string \<Rightarrow> nat option" where
  "find_crlf (a # b # cs) =
     (if a = CHR 0x0D \<and> b = CHR 0x0A then Some 0 else map_option Suc (find_crlf (b # cs)))"
| "find_crlf _ = None"

text \<open>How the loop over the received lines ends: the client was removed, or not.\<close>

datatype read_end = Still_connected | Removed

text \<open>
  One line: parse it, hand it to the game, report an error, and remove a client that is still not
  known. (The \<open>error\<close> line on standard error is left out.)
\<close>

definition handle_line :: "int \<Rightarrow> int \<Rightarrow> nat \<Rightarrow> string \<Rightarrow> string \<Rightarrow> Server \<Rightarrow> (read_end \<times> Server) res" where
  "handle_line t cfd i pid msg_str w =
     bindR (case createMessageWithCRLF msg_str of
              None \<Rightarrow> Inr w
            | Some msg \<Rightarrow> bindR (handle_client_message t cfd msg (logic w)) (\<lambda>(r, s). Inr (w\<lparr>logic := s\<rparr>))) (\<lambda>w.
     bindR (player cfd (logic w)) (\<lambda>p.
       if \<not> is_known p
       then bindR (disconnect_client cfd i pid (w\<lparr>logic := println ''Client sent message before hello.'' (logic w)\<rparr>))
              (\<lambda>w. Inr (Removed, w))
       else Inr (Still_connected, w)))"

function read_loop :: "int \<Rightarrow> int \<Rightarrow> nat \<Rightarrow> string \<Rightarrow> string \<Rightarrow> Server \<Rightarrow> (read_end \<times> Server) res" where
  "read_loop t cfd i pid buf w =
     (case find_crlf buf of
        None \<Rightarrow> Inr (Still_connected, w\<lparr>client_buffers := map_put cfd buf (client_buffers w)\<rparr>)
      | Some pos \<Rightarrow>
          bindR (handle_line t cfd i pid (take pos buf)
                   (w\<lparr>client_buffers := map_put cfd (drop (pos + 2) buf) (client_buffers w)\<rparr>)) (\<lambda>(e, w).
            if e = Removed then Inr (Removed, w)
            else if stopping (logic w) then Inr (Still_connected, w)
            else read_loop t cfd i pid (drop (pos + 2) buf) w))"
  by pat_completeness auto
termination
proof (relation "measure (\<lambda>(t, cfd, i, pid, buf, w). length buf)")
  fix t cfd :: int and i :: nat and pid buf :: string and w :: Server and pos x xa y
  assume pos: "find_crlf buf = Some pos"
  have "buf \<noteq> []" using pos by (cases buf) auto
  then show "((t, cfd, i, pid, drop (pos + 2) buf, y), t, cfd, i, pid, buf, w)
      \<in> measure (\<lambda>(t, cfd, i, pid, buf, w). length buf)" by simp
qed simp

declare read_loop.simps [simp del]

text \<open>
  \<open>handle_read_from_client\<close>: its boolean result, and whether the client was removed. After a message
  before HELLO the client is removed and the result is true all the same.
\<close>

definition handle_read_from_client :: "inputs \<Rightarrow> nat \<Rightarrow> Server \<Rightarrow> (bool \<times> read_end \<times> Server) res" where
  "handle_read_from_client inp i w =
     bindR (nth_chk (poll_fds w) i) (\<lambda>pfd.
     bindR (getClientPlayerID (fd pfd) (logic w)) (\<lambda>pid.
       case received inp (fd pfd) of
         Recv_failed \<Rightarrow> bindR (disconnect_client (fd pfd) i pid w) (\<lambda>w. Inr (False, Removed, w))
       | Recv_closed \<Rightarrow> bindR (disconnect_client (fd pfd) i pid w) (\<lambda>w. Inr (False, Removed, w))
       | Recv_bytes bytes \<Rightarrow>
           let buf = (case map_of (client_buffers w) (fd pfd) of None \<Rightarrow> [] | Some b \<Rightarrow> b) @ bytes
           in bindR (read_loop (now inp) (fd pfd) i pid buf w) (\<lambda>(e, w). Inr (True, e, w))))"

section \<open>Writing\<close>

text \<open>The end of \<open>handle_write_to_client\<close>, when a message has been taken from the queue.\<close>

definition write_message :: "inputs \<Rightarrow> int \<Rightarrow> nat \<Rightarrow> string \<Rightarrow> string \<Rightarrow> Server \<Rightarrow> (bool \<times> Server) res" where
  "write_message inp cfd i pid msg_str w =
     (let written = send_result inp cfd 0 msg_str in
      if msg_str = [] then Inr (True, w)
      else if written \<le> 0
      then bindR (disconnect_client cfd i pid w) (\<lambda>w. Inr (False, w))
      else
        let w = transmit cfd (take (nat written) msg_str) w;
            msg_rest = drop (nat written) msg_str in
        if nat written > length msg_str then Inl Undefined
        else if msg_rest \<noteq> []
        then bindR (on_logic (append_message_front cfd msg_rest) w) (\<lambda>w. Inr (True, w))
        else Inr (True, w))"

definition handle_write_to_client :: "inputs \<Rightarrow> nat \<Rightarrow> Server \<Rightarrow> (bool \<times> Server) res" where
  "handle_write_to_client inp i w =
     bindR (nth_chk (poll_fds w) i) (\<lambda>pfd.
     bindR (getClientPlayerID (fd pfd) (logic w)) (\<lambda>pid.
     bindR (has_pending_messages (fd pfd) (logic w)) (\<lambda>pending.
       if \<not> pending then Inr (True, w\<lparr>poll_fds := (poll_fds w)[i := pfd\<lparr>pollout := False\<rparr>]\<rparr>)
       else bindR (take_next_message_str (fd pfd) (logic w)) (\<lambda>(msg_str, s).
         write_message inp (fd pfd) i pid msg_str (w\<lparr>logic := s\<rparr>)))))"

section \<open>The end of a game\<close>

text \<open>
  The loop that sends the pending messages of a client until one is not sent whole. \<open>n\<close> counts the
  sends; the messages get fewer, so their number is enough fuel.
\<close>

fun flush_client :: "inputs \<Rightarrow> int \<Rightarrow> nat \<Rightarrow> nat \<Rightarrow> Server \<Rightarrow> Server res" where
  "flush_client inp cfd n 0 w = Inr w"
| "flush_client inp cfd n (Suc fuel) w =
     bindR (has_pending_messages cfd (logic w)) (\<lambda>pending.
       if \<not> pending then Inr w
       else bindR (take_next_message_str cfd (logic w)) (\<lambda>(msg_str, s).
         let w = w\<lparr>logic := s\<rparr> in
         if msg_str = [] then Inr w
         else
           let written = send_result inp cfd n msg_str;
               w = transmit cfd (take (nat written) msg_str) w in
           if written \<noteq> int (length msg_str) then Inr w
           else flush_client inp cfd (Suc n) fuel w))"

fun flush_all :: "inputs \<Rightarrow> pollfd list \<Rightarrow> Server \<Rightarrow> Server res" where
  "flush_all inp [] w = Inr w"
| "flush_all inp (p # ps) w =
     bindR (player (fd p) (logic w)) (\<lambda>pl.
     bindR (flush_client inp (fd p) 0 (length (messages pl)) w) (flush_all inp ps))"

definition reset_server :: "inputs \<Rightarrow> Server \<Rightarrow> Server res" where
  "reset_server inp w =
     bindR (flush_all inp (drop 1 (poll_fds w)) w) (\<lambda>w.
       Inr (w\<lparr>poll_fds := take 1 (poll_fds w), client_buffers := []\<rparr>))"

section \<open>The main loop\<close>

text \<open>Setting POLLOUT for every client with pending messages.\<close>

fun mark_pollout :: "ServerLogic \<Rightarrow> pollfd list \<Rightarrow> pollfd list res" where
  "mark_pollout s [] = Inr []"
| "mark_pollout s (p # ps) =
     bindR (has_pending_messages (fd p) s) (\<lambda>b.
     bindR (mark_pollout s ps) (\<lambda>ps. Inr ((if b then p\<lparr>pollout := True\<rparr> else p) # ps)))"

text \<open>
  The loop over the client sockets, by index; \<open>n\<close> is the number of elements left, which is enough
  fuel. A removed client leaves the index where it is: the code decrements it and the loop
  increments it again. When \<open>handle_read_from_client\<close> has removed the client but returned true, the
  body goes on with a reference into the erased part of the vector.
\<close>

fun clients_loop :: "inputs \<Rightarrow> nat \<Rightarrow> nat \<Rightarrow> Server \<Rightarrow> Server res" where
  "clients_loop inp i 0 w = Inr w"
| "clients_loop inp i (Suc n) w =
     (if length (poll_fds w) \<le> i then Inr w
      else let pfd = poll_fds w ! i in
        if rev_hup pfd
        then bindR (getClientPlayerID (fd pfd) (logic w)) (\<lambda>pid.
             bindR (disconnect_client (fd pfd) i pid w) (clients_loop inp i n))
        else
          bindR (if rev_in pfd then handle_read_from_client inp i w else Inr (True, Still_connected, w))
            (\<lambda>(ok, e, w).
              if \<not> ok then clients_loop inp i n w
              else if stopping (logic w) then Inr w
              else if e = Removed then Inl Undefined
              else if rev_out pfd
              then bindR (handle_write_to_client inp i w) (\<lambda>(ok, w).
                     clients_loop inp (if ok then Suc i else i) n w)
              else clients_loop inp (Suc i) n w))"

definition server_iteration :: "inputs \<Rightarrow> Server \<Rightarrow> Server res" where
  "server_iteration inp w =
     (let w = w\<lparr>poll_fds := map (poll_one inp) (poll_fds w)\<rparr> in
      if ready inp < 0 then Inl Exit
      else if stopping (logic w)
      then bindR (reset_server inp w) (\<lambda>w. Inr (w\<lparr>logic := server_reset (logic w)\<rparr>))
      else bindR (server_check_timers (now inp) w) (\<lambda>w.
        bindR (mark_pollout (logic w) (drop 1 (poll_fds w))) (\<lambda>ps.
          let w = w\<lparr>poll_fds := take 1 (poll_fds w) @ ps\<rparr> in
          if ready inp = 0 then Inr w
          else
            let w = (if rev_in (hd (poll_fds w)) then handle_new_connection inp w else w)
            in clients_loop inp 1 (length (poll_fds w)) w)))"

definition server_start :: "int \<Rightarrow> int \<Rightarrow> int \<Rightarrow> string option \<Rightarrow> int \<Rightarrow> Server res" where
  "server_start k n m file lfd =
     bindR (server_init k n m file) (\<lambda>s.
       Inr \<lparr>logic = s, client_buffers = [], poll_fds = [new_pollfd lfd], transmitted = []\<rparr>)"

end
