(* ===== verification/Server_Invariants.thy ===== *)
theory Server_Invariants
  imports Server_Loop
begin

text \<open>
  The invariant of the running server: the vector of descriptors holds the listening socket first
  and every descriptor once, the game and the buffers have exactly the clients of the vector, and
  the invariant of the game holds. Every iteration of the main loop keeps it, whatever the clients
  send, provided that \<open>accept\<close> returns descriptors that are not open.
\<close>

section \<open>The invariant\<close>

definition client_fds :: "Server \<Rightarrow> int set" where
  "client_fds w = fd ` set (tl (poll_fds w))"

definition server_ok :: "Server \<Rightarrow> bool" where
  "server_ok w \<longleftrightarrow> poll_fds w \<noteq> [] \<and> distinct (map fd (poll_fds w)) \<and> game_ok (client_fds w) (logic w) \<and>
     fst ` set (client_buffers w) = client_fds w"

lemma client_fds_simps [simp]:
  "client_fds (w\<lparr>logic := s\<rparr>) = client_fds w" "client_fds (w\<lparr>client_buffers := b\<rparr>) = client_fds w"
  "client_fds (transmit cfd bs w) = client_fds w"
  by (simp_all add: client_fds_def)

lemma server_ok_transmit [simp]: "server_ok (transmit cfd bs w) = server_ok w"
  by (simp add: server_ok_def)

lemma server_ok_logic: "server_ok w \<Longrightarrow> game_ok (client_fds w) s \<Longrightarrow> server_ok (w\<lparr>logic := s\<rparr>)"
  by (simp add: server_ok_def)

lemma server_ok_game: "server_ok w \<Longrightarrow> game_ok (client_fds w) (logic w)"
  by (simp add: server_ok_def)

lemma server_ok_println: "server_ok w \<Longrightarrow> server_ok (w\<lparr>logic := println l (logic w)\<rparr>)"
  by (simp add: server_ok_def)

lemma server_ok_buffers:
  "server_ok w \<Longrightarrow> cfd \<in> client_fds w \<Longrightarrow> server_ok (w\<lparr>client_buffers := map_put cfd b (client_buffers w)\<rparr>)"
  by (simp add: server_ok_def keys_map_put insert_absorb)

lemma fds_cong: "map fd ps = map fd qs \<Longrightarrow> fd ` set ps = fd ` set qs"
  by (metis list.set_map)

lemma server_ok_poll_fds:
  assumes "server_ok w" and "map fd ps = map fd (poll_fds w)"
  shows "server_ok (w\<lparr>poll_fds := ps\<rparr>)"
proof -
  have "map fd (tl ps) = map fd (tl (poll_fds w))"
    using assms(2) by (metis map_tl)
  then have "client_fds (w\<lparr>poll_fds := ps\<rparr>) = client_fds w"
    using fds_cong by (simp add: client_fds_def)
  moreover have "ps \<noteq> []" using assms by (auto simp: server_ok_def)
  ultimately show ?thesis using assms by (simp add: server_ok_def)
qed

lemma client_fdsI: "0 < i \<Longrightarrow> i < length (poll_fds w) \<Longrightarrow> fd (poll_fds w ! i) \<in> client_fds w"
  by (cases "poll_fds w") (auto simp: client_fds_def nth_Cons' intro: imageI)

lemma connected_iff: "server_ok w \<Longrightarrow> map_of (players (logic w)) cfd \<noteq> None \<longleftrightarrow> cfd \<in> client_fds w"
  by (auto simp: server_ok_def game_ok_def map_of_eq_None_iff)

lemma ok_on_logic:
  assumes "server_ok w" and "\<And>s. game_ok (client_fds w) s \<Longrightarrow> okR (game_ok (client_fds w)) (f s)"
  shows "okR (\<lambda>w'. server_ok w' \<and> poll_fds w' = poll_fds w) (on_logic f w)"
  unfolding on_logic_def okR_bind
  by (rule okR_mono [OF assms(2) [OF server_ok_game [OF assms(1)]]]) (simp add: assms(1) server_ok_logic)

section \<open>Removing a client\<close>

lemma set_remove_nth: "distinct xs \<Longrightarrow> i < length xs \<Longrightarrow> set (remove_nth i xs) = set xs - {xs ! i}"
  using id_take_nth_drop [of i xs] distinct_append [of "take i xs" "xs ! i # drop (Suc i) xs"]
  by (auto simp: remove_nth_def dest: arg_cong [where f = set])

lemma map_remove_nth: "map f (remove_nth i xs) = remove_nth i (map f xs)"
  by (simp add: remove_nth_def take_map drop_map)

lemma distinct_remove_nth: "distinct xs \<Longrightarrow> distinct (remove_nth i xs)"
  unfolding remove_nth_def
  by (auto simp: set_take_disj_set_drop_if_distinct)

lemma remove_nth_Suc [simp]: "remove_nth (Suc i) (x # xs) = x # remove_nth i xs"
  by (simp add: remove_nth_def)

lemma ok_disconnect_client:
  assumes "server_ok w" and "0 < i" and "i < length (poll_fds w)" and "fd (poll_fds w ! i) = cfd"
  shows "okR server_ok (disconnect_client cfd i pid w)"
proof -
  obtain l ps where lps: "poll_fds w = l # ps" using assms(1) by (auto simp: server_ok_def neq_Nil_conv)
  obtain j where j: "i = Suc j" using assms(2) gr0_conv_Suc by blast
  have jl: "j < length ps" "fd (ps ! j) = cfd" using assms by (simp_all add: lps j)
  have dist: "distinct (map fd ps)" using assms(1) by (simp add: server_ok_def lps)
  have "set (map fd (remove_nth j ps)) = set (map fd ps) - {cfd}"
    unfolding map_remove_nth using set_remove_nth [OF dist, of j] jl by simp
  then have fds: "fd ` set (remove_nth j ps) = client_fds w - {cfd}"
    by (simp add: client_fds_def lps)
  moreover have "distinct (map fd (l # remove_nth j ps))"
    using assms(1) fds distinct_remove_nth [OF dist, of j]
    by (simp add: server_ok_def lps client_fds_def flip: map_remove_nth)
  ultimately have "server_ok (w\<lparr>logic := s, poll_fds := l # remove_nth j ps, client_buffers := map_erase cfd (client_buffers w)\<rparr>)"
    if "game_ok (client_fds w - {cfd}) s" for s
    using assms(1) that by (simp add: server_ok_def client_fds_def keys_map_erase)
  then show ?thesis
    unfolding disconnect_client_def okR_bind
    using assms(3) ok_disconnect [of "client_fds w" "println l' (logic w)" for l'] server_ok_game [OF assms(1)]
    by (intro okR_mono [OF ok_disconnect]) (auto simp: lps j)
qed

lemma index_of_fd_spec:
  "cfd \<in> fd ` set ps \<Longrightarrow> index_of_fd cfd ps < length ps \<and> fd (ps ! index_of_fd cfd ps) = cfd"
  by (induction ps) auto

lemma ok_hello_callback:
  assumes "server_ok w"
  shows "okR server_ok (hello_callback cfd ip port w)"
proof (cases "cfd \<in> client_fds w")
  case True
  obtain l ps where lps: "poll_fds w = l # ps" using assms by (auto simp: server_ok_def neq_Nil_conv)
  have in_ps: "cfd \<in> fd ` set (poll_fds w)" and "fd l \<noteq> cfd"
    using True assms by (auto simp: client_fds_def lps server_ok_def)
  then have "0 < index_of_fd cfd (poll_fds w)" by (simp add: lps)
  with index_of_fd_spec [OF in_ps]
  have "okR server_ok (disconnect_client cfd (index_of_fd cfd (poll_fds w)) pid (w\<lparr>logic := println m (logic w)\<rparr>))" for pid m
    using server_ok_println [OF assms] by (intro ok_disconnect_client) simp_all
  then show ?thesis
    using assms by (auto simp: hello_callback_def intro: okR_all [of _ "player _ _"])
next
  case False
  then show ?thesis
    using assms connected_iff [OF assms, of cfd] by (simp add: hello_callback_def validate_client_def)
qed

section \<open>Timers\<close>

lemma ok_call_event: "server_ok w \<Longrightarrow> okR server_ok (call_event e w)"
proof (cases e)
  case (Bad_put_response cfd pt v ip port cid)
  then show "server_ok w \<Longrightarrow> okR server_ok (call_event e w)"
    using okR_mono [OF ok_on_logic [of w "bad_put_callback cfd pt v ip port cid"]] by (simp add: ok_callbacks)
next
  case (State_response cfd m ip port cid)
  then show "server_ok w \<Longrightarrow> okR server_ok (call_event e w)"
    using okR_mono [OF ok_on_logic [of w "state_callback cfd m ip port cid"]] by (simp add: ok_callbacks)
next
  case (Hello_timeout cfd ip port)
  then show "server_ok w \<Longrightarrow> okR server_ok (call_event e w)" by (simp add: ok_hello_callback)
qed

lemma ok_check_timers:
  assumes "\<And>e s. P s \<Longrightarrow> okR P (call e s)"
  shows "P s \<Longrightarrow> sorted_events evs \<Longrightarrow> okR (\<lambda>(s', evs'). P s' \<and> sorted_events evs') (check_timers call t evs s)"
proof (induction evs arbitrary: s)
  case (Cons x evs)
  obtain d e where x: "x = (d, e)" by (cases x)
  have "okR (\<lambda>(s', evs'). P s' \<and> sorted_events evs') (bindR (call e s) (check_timers call t evs))"
    unfolding okR_bind by (rule okR_mono [OF assms [OF Cons.prems(1)]]) (use Cons in \<open>simp add: x\<close>)
  then show ?case using Cons.prems by (simp add: x)
qed simp

lemma ok_server_check_timers:
  assumes "server_ok w"
  shows "okR server_ok (server_check_timers t w)"
proof -
  have "sorted_events (events (logic w))" using assms by (simp add: server_ok_def game_ok_def)
  from ok_check_timers [OF ok_call_event assms this, where t = t]
  show ?thesis
    unfolding server_check_timers_def okR_bind
    by (rule okR_mono) (auto simp: server_ok_def game_ok_def client_fds_def)
qed

section \<open>New connections\<close>

definition fresh_fd :: "inputs \<Rightarrow> Server \<Rightarrow> bool" where
  "fresh_fd inp w = (case accepted inp of None \<Rightarrow> True | Some (cfd, ip, port) \<Rightarrow> cfd \<notin> fd ` set (poll_fds w))"

lemma ok_new_connection:
  assumes "server_ok w" and "fresh_fd inp w"
  shows "server_ok (handle_new_connection inp w)"
proof (cases "accepted inp")
  case (Some a)
  obtain cfd ip port where a: "a = (cfd, ip, port)" by (cases a)
  have new: "cfd \<notin> fd ` set (poll_fds w)" using assms(2) by (simp add: fresh_fd_def Some a)
  have "client_fds w \<subseteq> fd ` set (poll_fds w)"
    unfolding client_fds_def by (cases "poll_fds w") auto
  then have "\<not> is_client_connected cfd (logic w)"
    using new connected_iff [OF assms(1), of cfd] by (auto simp: is_client_connected_def)
  then have "game_ok (insert cfd (client_fds w)) (register_new_client cfd ip port (logic w))"
    using server_ok_game [OF assms(1)] by (rule game_ok_register [rotated])
  then have "game_ok (insert cfd (client_fds w))
      (let s = register_new_client cfd ip port (logic w) in s\<lparr>events := add_event e t (events s)\<rparr>)" for e t
    by (simp add: Let_def game_ok_event)
  moreover have "fd ` set (tl (poll_fds w @ [new_pollfd cfd])) = insert cfd (client_fds w)"
    using assms(1) by (auto simp: server_ok_def client_fds_def new_pollfd_def)
  ultimately show ?thesis
    using assms(1) new
    by (auto simp: handle_new_connection_def Some a server_ok_def client_fds_def new_pollfd_def keys_map_put Let_def)
qed (simp add: handle_new_connection_def assms)

section \<open>Reading\<close>

definition read_ok :: "pollfd list \<Rightarrow> read_end \<times> Server \<Rightarrow> bool" where
  "read_ok ps r \<longleftrightarrow> server_ok (snd r) \<and> (fst r = Still_connected \<longrightarrow> poll_fds (snd r) = ps)"

lemma ok_handle_line:
  assumes "server_ok w" and "0 < i" and "i < length (poll_fds w)" and "fd (poll_fds w ! i) = cfd"
  shows "okR (read_ok (poll_fds w)) (handle_line t cfd i pid str w)"
proof -
  have game: "okR (\<lambda>w'. server_ok w' \<and> poll_fds w' = poll_fds w)
     (case createMessageWithCRLF str of
              None \<Rightarrow> Inr w
            | Some msg \<Rightarrow> bindR (handle_client_message t cfd msg (logic w)) (\<lambda>(r, s). Inr (w\<lparr>logic := s\<rparr>)))"
  proof (cases "createMessageWithCRLF str")
    case (Some m)
    then have "msg_ok m" by (simp add: createMessageWithCRLF_def createMessage_ok)
    from okR_mono [OF ok_client_message [OF server_ok_game [OF assms(1)] this]]
    have "okR (\<lambda>x. okR (\<lambda>w'. server_ok w' \<and> poll_fds w' = poll_fds w) (case x of (r, s) \<Rightarrow> Inr (w\<lparr>logic := s\<rparr>)))
      (handle_client_message t cfd m (logic w))"
      using assms(1) server_ok_logic by fastforce
    then show ?thesis by (simp add: Some)
  qed (simp add: assms(1))
  have "okR (read_ok (poll_fds w)) (bindR (disconnect_client cfd i pid (w'\<lparr>logic := println l (logic w')\<rparr>)) (\<lambda>w. Inr (Removed, w)))"
    if "server_ok w'" "poll_fds w' = poll_fds w" for w' l
    unfolding okR_bind
    by (rule okR_mono [OF ok_disconnect_client]) (use that assms server_ok_println in \<open>simp_all add: read_ok_def\<close>)
  note gone = this
  show ?thesis
    unfolding handle_line_def okR_bind
    by (intro okR_mono [OF game]) (auto simp: read_ok_def intro!: okR_all [of _ "player _ _"] gone simp del: okR_bind)
qed

lemma ok_read_loop:
  "server_ok w \<Longrightarrow> 0 < i \<Longrightarrow> i < length (poll_fds w) \<Longrightarrow> fd (poll_fds w ! i) = cfd \<Longrightarrow>
    okR (read_ok (poll_fds w)) (read_loop t cfd i pid buf w)"
proof (induction t cfd i pid buf w rule: read_loop.induct)
  case (1 t cfd i pid buf w)
  let ?w = "\<lambda>b. w\<lparr>client_buffers := map_put cfd b (client_buffers w)\<rparr>"
  have ok: "server_ok (?w b)" for b
    using server_ok_buffers [OF 1(2)] client_fdsI [OF 1(3,4)] 1(5) by simp
  show ?case
  proof (cases "find_crlf buf")
    case None
    then show ?thesis using ok by (subst read_loop.simps) (simp add: read_ok_def)
  next
    case (Some pos)
    have line: "okR (read_ok (poll_fds w)) (handle_line t cfd i pid (take pos buf) (?w (drop (pos + 2) buf)))"
      using ok_handle_line [OF ok 1(3)] 1(4,5) by simp
    show ?thesis
    proof (cases "handle_line t cfd i pid (take pos buf) (?w (drop (pos + 2) buf))")
      case (Inr r)
      obtain e w' where r: "r = (e, w')" by (cases r)
      have "read_ok (poll_fds w) (e, w')" using line unfolding Inr r by simp
      then show ?thesis
        using 1(1) [OF Some Inr r [symmetric]] 1(3-5) by (subst read_loop.simps) (cases e; simp add: Some Inr [simplified] r read_ok_def [abs_def])
    qed (subst read_loop.simps, simp add: Some)
  qed
qed

lemma ok_handle_read:
  assumes "server_ok w" and "0 < i" and "i < length (poll_fds w)"
  shows "okR (\<lambda>(b, e, w'). server_ok w' \<and> (b \<longrightarrow> e = Still_connected \<longrightarrow> poll_fds w' = poll_fds w))
    (handle_read_from_client inp i w)"
proof -
  have gone: "okR (\<lambda>w'. server_ok w') (disconnect_client (fd (poll_fds w ! i)) i pid w)" for pid
    using assms by (intro ok_disconnect_client) simp_all
  have lines: "okR (\<lambda>x. okR (\<lambda>(b, e, w'). server_ok w' \<and> (b \<longrightarrow> e = Still_connected \<longrightarrow> poll_fds w' = poll_fds w))
      (case x of (e, w) \<Rightarrow> Inr (True, e, w))) (read_loop (now inp) (fd (poll_fds w ! i)) i pid buf w)" for pid buf
    by (rule okR_mono [OF ok_read_loop]) (use assms in \<open>auto simp: read_ok_def\<close>)
  show ?thesis
    using assms(3) gone lines
    by (auto simp: handle_read_from_client_def Let_def intro!: okR_all [of _ "getClientPlayerID _ _"] split: recv_result.split)
qed

section \<open>Writing\<close>

lemma ok_handle_write:
  assumes "server_ok w" and "0 < i" and "i < length (poll_fds w)"
  shows "okR (\<lambda>(b, w'). server_ok w') (handle_write_to_client inp i w)"
proof -
  let ?fd = "fd (poll_fds w ! i)"
  have clear: "server_ok (w\<lparr>poll_fds := (poll_fds w)[i := (poll_fds w ! i)\<lparr>pollout := False\<rparr>]\<rparr>)"
  proof (rule server_ok_poll_fds [OF assms(1)])
    show "map fd ((poll_fds w)[i := (poll_fds w ! i)\<lparr>pollout := False\<rparr>]) = map fd (poll_fds w)"
      using list_update_id [of "map fd (poll_fds w)" i] assms(3) by (simp add: map_update)
  qed
  have took: "okR (\<lambda>(m, s). server_ok (w\<lparr>logic := s\<rparr>)) (take_next_message_str ?fd (logic w))"
    using okR_mono [OF ok_take_next [OF server_ok_game [OF assms(1)]]] server_ok_logic [OF assms(1)] by fastforce
  have sent: "okR (\<lambda>(b, w'). server_ok w') (write_message inp ?fd i pid m (w\<lparr>logic := s\<rparr>))" if "server_ok (w\<lparr>logic := s\<rparr>)" for pid m s
  proof -
    have "okR server_ok (disconnect_client ?fd i pid (w\<lparr>logic := s\<rparr>))"
      using assms that by (intro ok_disconnect_client) simp_all
    moreover have "okR server_ok (on_logic (append_message_front ?fd r) (transmit ?fd bs (w\<lparr>logic := s\<rparr>)))" for r bs
      by (rule okR_mono [OF ok_on_logic]) (simp_all add: that ok_append_front)
    ultimately show ?thesis using that by (simp add: write_message_def Let_def)
  qed
  have "okR (\<lambda>x. okR (\<lambda>(b, w'). server_ok w') (case x of (m, s) \<Rightarrow> write_message inp ?fd i pid m (w\<lparr>logic := s\<rparr>)))
      (take_next_message_str ?fd (logic w))" for pid
    by (rule okR_mono [OF took]) (use sent in auto)
  note sent = this
  show ?thesis
    unfolding handle_write_to_client_def
    using assms(3) clear sent
    by (auto intro!: okR_all [of _ "getClientPlayerID _ _"] okR_all [of _ "has_pending_messages _ _"])
qed

section \<open>The main loop\<close>

lemma connected_or_removed: "e \<noteq> Removed \<longleftrightarrow> e = Still_connected"
  by (cases e) simp_all

lemma ok_clients_loop: "server_ok w \<Longrightarrow> 0 < i \<Longrightarrow> okR server_ok (clients_loop inp i n w)"
proof (induction n arbitrary: i w)
  case (Suc n)
  show ?case
  proof (cases "length (poll_fds w) \<le> i")
    case False
    then have i: "i < length (poll_fds w)" by simp
    have hup: "okR server_ok (bindR (disconnect_client (fd (poll_fds w ! i)) i pid w) (clients_loop inp i n))" for pid
      unfolding okR_bind by (rule okR_mono [OF ok_disconnect_client]) (use Suc i in simp_all)
    have wr: "okR server_ok (bindR (handle_write_to_client inp i w') (\<lambda>(ok, w). clients_loop inp (if ok then Suc i else i) n w))"
      if "server_ok w'" "poll_fds w' = poll_fds w" for w'
      unfolding okR_bind by (rule okR_mono [OF ok_handle_write]) (use Suc i that in auto)
    have "okR (\<lambda>(b, e, w'). server_ok w' \<and> (b \<longrightarrow> e = Still_connected \<longrightarrow> poll_fds w' = poll_fds w))
       (if rev_in (poll_fds w ! i) then handle_read_from_client inp i w else Inr (True, Still_connected, w))"
      using ok_handle_read [OF Suc.prems i] Suc.prems by simp
    then have rd: "okR (\<lambda>x. okR server_ok (case x of (ok, e, w) \<Rightarrow>
              if \<not> ok then clients_loop inp i n w
              else if stopping (logic w) then Inr w
              else if e = Removed then Inl Undefined
              else if b
              then bindR (handle_write_to_client inp i w) (\<lambda>(ok, w).
                     clients_loop inp (if ok then Suc i else i) n w)
              else clients_loop inp (Suc i) n w))
       (if rev_in (poll_fds w ! i) then handle_read_from_client inp i w else Inr (True, Still_connected, w))" for b
      by (rule okR_mono) (use Suc wr in \<open>auto simp: connected_or_removed simp del: okR_bind\<close>)
    show ?thesis
    proof (cases "rev_hup (poll_fds w ! i)")
      case True
      then show ?thesis
        using hup by (simp add: Let_def False okR_all [of _ "getClientPlayerID _ _"])
    next
      case nohup: False
      show ?thesis
        using rd by (simp only: clients_loop.simps Let_def False nohup if_False okR_bind)
    qed
  qed (simp add: Suc.prems)
qed simp

lemma ok_mark_pollout: "okR (\<lambda>ps'. map fd ps' = map fd ps) (mark_pollout s ps)"
proof (induction ps)
  case (Cons p ps)
  have "okR (\<lambda>x. okR (\<lambda>ps'. map fd ps' = map fd (p # ps)) (Inr ((if b then p\<lparr>pollout := True\<rparr> else p) # x))) (mark_pollout s ps)" for b
    by (rule okR_mono [OF Cons.IH]) simp
  then show ?case by (auto intro!: okR_all [of _ "has_pending_messages _ _"])
qed simp

definition same_fds :: "pollfd list \<Rightarrow> Server \<Rightarrow> bool" where
  "same_fds ps w' \<longleftrightarrow> server_ok w' \<and> poll_fds w' = ps"

lemma ok_flush_client: "server_ok w \<Longrightarrow> okR (same_fds (poll_fds w)) (flush_client inp cfd n fuel w)"
proof (induction fuel arbitrary: n w)
  case (Suc fuel)
  have took: "okR (\<lambda>(m, s). server_ok (w\<lparr>logic := s\<rparr>)) (take_next_message_str cfd (logic w))"
    using okR_mono [OF ok_take_next [OF server_ok_game [OF Suc.prems]]] server_ok_logic [OF Suc.prems] by fastforce
  have ih: "okR (same_fds (poll_fds w)) (flush_client inp cfd (Suc n) fuel (transmit cfd bs (w\<lparr>logic := s\<rparr>)))"
    if "server_ok (w\<lparr>logic := s\<rparr>)" for s bs
    using Suc.IH [of "transmit cfd bs (w\<lparr>logic := s\<rparr>)" "Suc n"] that by simp
  have "okR (\<lambda>x. okR (same_fds (poll_fds w)) (case x of (msg_str, s) \<Rightarrow>
         let w = w\<lparr>logic := s\<rparr> in
         if msg_str = [] then Inr w
         else
           let written = send_result inp cfd n msg_str;
               w = transmit cfd (take (nat written) msg_str) w in
           if written \<noteq> int (length msg_str) then Inr w
           else flush_client inp cfd (Suc n) fuel w)) (take_next_message_str cfd (logic w))"
    by (rule okR_mono [OF took]) (use ih in \<open>auto simp: Let_def same_fds_def\<close>)
  then show ?case
    using Suc.prems by (auto simp: same_fds_def [abs_def] intro!: okR_all [of _ "has_pending_messages _ _"])
qed (simp add: same_fds_def)

lemma ok_flush_all: "server_ok w \<Longrightarrow> okR (same_fds (poll_fds w)) (flush_all inp ps w)"
proof (induction ps arbitrary: w)
  case (Cons p ps)
  have ih: "okR (same_fds (poll_fds w)) (flush_all inp ps w')" if "same_fds (poll_fds w) w'" for w'
    using that Cons.IH [of w'] by (simp add: same_fds_def [abs_def])
  have "okR (same_fds (poll_fds w)) (bindR (flush_client inp (fd p) 0 n w) (flush_all inp ps))" for n
    unfolding okR_bind
    by (rule okR_mono [OF ok_flush_client [OF Cons.prems] ih])
  then show ?case by (auto intro!: okR_all [of _ "player _ _"])
qed (simp add: same_fds_def)

lemma ok_reset:
  assumes "server_ok w"
  shows "okR server_ok (bindR (reset_server inp w) (\<lambda>w. Inr (w\<lparr>logic := server_reset (logic w)\<rparr>)))"
  unfolding reset_server_def okR_bind
proof (rule okR_mono [OF ok_flush_all [OF assms]])
  fix w'
  assume "same_fds (poll_fds w) w'"
  then have "poll_fds w' \<noteq> []" by (auto simp: same_fds_def server_ok_def)
  then obtain l ps where "poll_fds w' = l # ps" by (meson list.exhaust)
  then show "okR (\<lambda>x. okR server_ok (Inr (x\<lparr>logic := server_reset (logic x)\<rparr>)))
      (Inr (w'\<lparr>poll_fds := take 1 (poll_fds w'), client_buffers := []\<rparr>))"
    using game_ok_reset by (simp add: server_ok_def client_fds_def)
qed

section \<open>Iterations\<close>

text \<open>
  A descriptor that \<open>accept\<close> returns is not open; the descriptors of the clients that the timers have
  removed are closed by then.
\<close>

definition polled :: "inputs \<Rightarrow> Server \<Rightarrow> Server" where
  "polled inp w = w\<lparr>poll_fds := map (poll_one inp) (poll_fds w)\<rparr>"

definition fresh_accept :: "inputs \<Rightarrow> Server \<Rightarrow> bool" where
  "fresh_accept inp w =
     (case server_check_timers (now inp) (polled inp w) of Inl e \<Rightarrow> True | Inr w' \<Rightarrow> fresh_fd inp w')"

lemma ok_polled: "server_ok w \<Longrightarrow> server_ok (polled inp w)"
  unfolding polled_def by (rule server_ok_poll_fds) (simp_all add: poll_one_def comp_def)

lemma fresh_fd_cong: "map fd ps = map fd (poll_fds w) \<Longrightarrow> fresh_fd inp (w\<lparr>poll_fds := ps\<rparr>) = fresh_fd inp w"
  using fds_cong [of ps "poll_fds w"] by (simp add: fresh_fd_def split: option.split)

lemma ok_server_iteration:
  assumes "server_ok w" and "fresh_accept inp w"
  shows "okR server_ok (server_iteration inp w)"
proof -
  have polled: "server_ok (polled inp w)" by (rule ok_polled [OF assms(1)])
  have timers: "okR (\<lambda>w'. server_ok w' \<and> fresh_fd inp w') (server_check_timers (now inp) (polled inp w))"
    using ok_server_check_timers [OF polled, of "now inp"] assms(2)
    by (simp add: fresh_accept_def okR_def split: sum.splits)
  have clients: "okR server_ok (bindR (mark_pollout (logic w') (drop 1 (poll_fds w'))) (\<lambda>ps.
          let w = w'\<lparr>poll_fds := take 1 (poll_fds w') @ ps\<rparr> in
          if ready inp = 0 then Inr w
          else
            let w = (if rev_in (hd (poll_fds w)) then handle_new_connection inp w else w)
            in clients_loop inp 1 (length (poll_fds w)) w))"
    if w': "server_ok w'" "fresh_fd inp w'" for w'
    unfolding okR_bind
  proof (rule okR_mono [OF ok_mark_pollout])
    fix ps :: "pollfd list"
    assume "map fd ps = map fd (drop 1 (poll_fds w'))"
    then have "map fd (take 1 (poll_fds w') @ ps) = map fd (poll_fds w')"
      by (metis append_take_drop_id map_append)
    then have ok: "server_ok (w'\<lparr>poll_fds := take 1 (poll_fds w') @ ps\<rparr>)"
        "fresh_fd inp (w'\<lparr>poll_fds := take 1 (poll_fds w') @ ps\<rparr>)"
      using server_ok_poll_fds [OF w'(1)] w'(2) fresh_fd_cong by blast+
    then show "okR server_ok (let w = w'\<lparr>poll_fds := take 1 (poll_fds w') @ ps\<rparr> in
          if ready inp = 0 then Inr w
          else
            let w = (if rev_in (hd (poll_fds w)) then handle_new_connection inp w else w)
            in clients_loop inp 1 (length (poll_fds w)) w)"
      unfolding Let_def using ok_new_connection by (simp add: ok_clients_loop del: One_nat_def)
  qed
  have "okR (\<lambda>w'. okR server_ok (bindR (mark_pollout (logic w') (drop 1 (poll_fds w'))) (\<lambda>ps.
          let w = w'\<lparr>poll_fds := take 1 (poll_fds w') @ ps\<rparr> in
          if ready inp = 0 then Inr w
          else
            let w = (if rev_in (hd (poll_fds w)) then handle_new_connection inp w else w)
            in clients_loop inp 1 (length (poll_fds w)) w))) (server_check_timers (now inp) (polled inp w))"
    by (rule okR_mono [OF timers clients]) blast+
  then show ?thesis
    unfolding server_iteration_def polled_def [symmetric] Let_def [of "polled inp w"]
    using ok_reset [OF polled] by (simp del: okR_bind add: okR_bind [of _ "server_check_timers _ _"])
qed

inductive server_reachable :: "Server \<Rightarrow> bool" where
  start: "server_start k n m content lfd = Inr w \<Longrightarrow> server_reachable w"
| iteration: "server_reachable w \<Longrightarrow> fresh_accept inp w \<Longrightarrow> server_iteration inp w = Inr w' \<Longrightarrow> server_reachable w'"

lemma reachable_server_ok: "server_reachable w \<Longrightarrow> server_ok w"
proof (induction rule: server_reachable.induct)
  case (start k n m content lfd w)
  then show ?case
    by (auto simp: server_start_def server_init_def server_ok_def client_fds_def game_ok_def split: option.splits)
next
  case (iteration w inp w')
  then show ?case using ok_server_iteration [of w inp] by simp
qed


end
