(* ===== verification/Server_Properties.thy ===== *)
theory Server_Properties
  imports Server_Invariants Score_Bounds
begin

text \<open>
  The properties of the game: what a PUT does on every branch, what the delayed responses do and when,
  the end of a game, and the state that the main loop keeps.
\<close>

section \<open>An example\<close>

definition example_player :: PlayerInfo where
  "example_player = \<lparr>pl_id = ''Ann'', pl_ip = ''127.0.0.1'', pl_port = 40000, messages = [], approximations = [dzero, dzero],
     coefficients = [dzero, dzero], penalty = dzero, is_known = True, correct_puts = 0, can_put = True, delay = 2\<rparr>"

definition example_game :: ServerLogic where
  "example_game = \<lparr>K = 1, N = 1, M = 5, total_correct_puts = 0, coeff_file = [], players = [(4, example_player)],
     events = [], stopping = False, cout = []\<rparr>"

lemmas example_defs = example_game_def example_player_def

lemma dzero_facts: "is_finite dzero" "canonical dzero" "is_finite (dadd dzero dzero)" "canonical (dadd dzero dzero)"
  by (simp_all add: dzero_def round_dyadic_def round_ratio_def scale_def signed_int_def)

lemma example_in_range: "\<not> put_out_of_range 1 dzero example_game"
proof -
  have "decimal_double False ''0'' [] = dzero"
    by (simp add: decimal_double_def digits_value_def digit_value_def code_def round_ratio_def dzero_def)
  moreover have "decimal_value False ''0'' [] = 0"
    by (simp add: decimal_value_def digits_value_def digit_value_def code_def)
  ultimately show ?thesis
    using range_check [of False "''0''" "[]" 5] dzero_facts
    by (simp add: put_out_of_range_def example_game_def min_put_value_def max_put_value_def)
qed

section \<open>PUT\<close>

lemma range_cong [simp]:
  "put_out_of_range pt v (set_player cfd p s) = put_out_of_range pt v s"
  "put_out_of_range pt v (println l s) = put_out_of_range pt v s"
  "put_out_of_range pt v (s\<lparr>events := e\<rparr>) = put_out_of_range pt v s"
  by (simp_all add: put_out_of_range_def)

lemmas player_simps = player_def upd_player_def append_message_back_def append_message_front_def
  map_of_map_put deref_def

text \<open>
  C23: A rejected PUT of a known player. It is rejected when it comes before the response to the previous
  one (then the player gets 20 penalty points and a PENALTY at once), when the point is not one of
  \<open>0..K\<close> or the value not in range (10 penalty points, and a BAD_PUT is scheduled for one second
  later), or both (30 points and both messages). In every case the player may not put until the next
  response, and its approximation, the counters, and all other players are as before.
\<close>

theorem put_rejected:
  assumes "map_of (players s) cfd = Some p" and "is_known p"
    and "- (2 ^ 31) \<le> pt" "pt < 2 ^ 31" and "is_finite v" and "canonical v"
    and "\<not> can_put p \<or> put_out_of_range pt v s"
  shows "\<exists>s'. server_handle_put t cfd pt v s = Inr (False, s') \<and>
    map_of (players s') cfd = Some (p\<lparr>can_put := False,
      penalty := (let early = if can_put p then penalty p else dadd (penalty p) (double_of_int 20) in
        if put_out_of_range pt v s then dadd early (double_of_int 10) else early),
      messages := messages p @
        (if can_put p then [] else [''PENALTY '' @ show_int pt @ '' '' @ doubleToString v @ crlf])\<rparr>) \<and>
    (\<forall>other. other \<noteq> cfd \<longrightarrow> map_of (players s') other = map_of (players s) other) \<and>
    events s' = (if put_out_of_range pt v s
      then add_event (Bad_put_response cfd pt v (pl_ip p) (pl_port p) (pl_id p)) (t + 10 ^ 9) (events s)
      else events s) \<and>
    total_correct_puts s' = total_correct_puts s \<and> stopping s' = stopping s"
proof (cases "can_put p")
  case True
  with assms show ?thesis
    by (simp add: server_handle_put_def respond_with_bad_put_def player_simps bad_put_penalty_def bad_put_delay_def
        seconds_def)
next
  case early: False
  show ?thesis
    using assms(1,2) create_pair_eq(3) [OF assms(3-6)] early
    by (cases "put_out_of_range pt v s")
      (simp_all add: server_handle_put_def respond_with_penalty_def respond_with_bad_put_def player_simps
        early_put_penalty_def bad_put_penalty_def bad_put_delay_def seconds_def)
qed

theorem put_rejected_witness:
  "\<exists>s'. server_handle_put 0 4 7 dzero example_game = Inr (False, s') \<and>
     map_of (players s') 4 = Some (example_player\<lparr>can_put := False, penalty := dadd dzero (double_of_int 10)\<rparr>)"
proof -
  have out: "put_out_of_range 7 dzero example_game" by (simp add: put_out_of_range_def example_game_def)
  have p: "map_of (players example_game) 4 = Some example_player" "is_known example_player" "can_put example_player"
    by (simp_all add: example_defs)
  from put_rejected [OF p(1,2), of 7 dzero 0] out p(3) dzero_facts show ?thesis
    by (auto simp: example_player_def)
qed

lemma canonical_round_ratio: "0 < d \<Longrightarrow> canonical (round_ratio s n d)"
  using round_ratio_near [of d s n] by (auto simp: near_def rounds_to_def)

lemma canonical_dadd: "is_finite (dadd x y) \<Longrightarrow> canonical (dadd x y)"
  by (cases x; cases y) (auto simp: round_dyadic_def canonical_round_ratio scale_def Let_def split: if_splits)

text \<open>
  C17: A PUT of a player that may put, to one of the points \<open>0..K\<close> and with a value in range, is
  accepted. The value is added to the approximation of that point and to no other, the counters of
  the player and of the game go up by one, and the STATE message with the whole approximation (at the
  time of the PUT) is scheduled for as many seconds later as the player's id has small letters. Until
  then the player may not put. The game goes on as long as its number of puts is below \<open>M\<close>.
\<close>

theorem put_accepted:
  assumes "map_of (players s) cfd = Some p" and "is_known p" and "can_put p" and "\<not> put_out_of_range pt v s"
    and "length (approximations p) = nat (K s + 1)" and "K s \<le> 10000"
    and "\<forall>a \<in> set (approximations p). is_finite a \<and> canonical a"
    and "is_finite (dadd (approximations p ! nat pt) v)" and "total_correct_puts s + 1 < M s"
  shows "let A = (approximations p)[nat pt := dadd (approximations p ! nat pt) v] in
    \<exists>s'. server_handle_put t cfd pt v s = Inr (True, s') \<and>
      map_of (players s') cfd = Some (p\<lparr>can_put := False, correct_puts := correct_puts p + 1, approximations := A\<rparr>) \<and>
      (\<forall>other. other \<noteq> cfd \<longrightarrow> map_of (players s') other = map_of (players s) other) \<and>
      events s' = add_event (State_response cfd (''STATE '' @ join_params (map doubleToString A) @ crlf)
        (pl_ip p) (pl_port p) (pl_id p)) (t + delay p * 10 ^ 9) (events s) \<and>
      total_correct_puts s' = total_correct_puts s + 1 \<and> stopping s' = stopping s"
proof -
  define A where "A = (approximations p)[nat pt := dadd (approximations p ! nat pt) v]"
  have pt: "0 \<le> pt" "nat pt < length (approximations p)"
    using assms(4,5) by (auto simp: put_out_of_range_def)
  have "\<forall>a \<in> set A. is_finite a \<and> canonical a"
    using assms(7,8) canonical_dadd set_update_subset_insert [of "approximations p" "nat pt"]
    unfolding A_def by blast
  then have "create_state A = Some \<lparr>raw_message = ''STATE '' @ join_params (map doubleToString A) @ crlf,
      msg_params = map doubleToString A, body = StateMessage (map reread A)\<rparr>"
    using pt assms(5,6) by (intro create_state_eq) (auto simp: A_def list_all_iff)
  then show ?thesis
    using assms(1-4,9) pt
    by (simp add: server_handle_put_def successful_put_def respond_with_state_def player_simps Let_def
        substr_from_def toRawString_def seconds_def flip: A_def)
qed

theorem put_accepted_witness:
  "\<exists>s'. server_handle_put 0 4 1 dzero example_game = Inr (True, s') \<and> total_correct_puts s' = 1"
proof -
  have p: "map_of (players example_game) 4 = Some example_player" "is_known example_player" "can_put example_player"
    by (simp_all add: example_defs)
  from put_accepted [OF p example_in_range, of 0] dzero_facts show ?thesis
    by (auto simp: example_defs Let_def)
qed

section \<open>Delayed responses\<close>

lemma before_crlf_Cons: "c \<noteq> CHR 0x0D \<Longrightarrow> before_crlf (c # r) = c # before_crlf r"
  by (cases r) simp_all

lemma map_put_twice [simp]: "map_put k v (map_put k w m) = map_put k v m"
  by (induction k w m rule: map_put.induct) auto

lemma set_player_twice [simp]: "set_player cfd p (set_player cfd q s) = set_player cfd p s"
  by (simp add: set_player_def)

lemma set_player_println: "set_player cfd p (println l s) = println l (set_player cfd p s)"
  by (simp add: set_player_def println_def)

text \<open>
  C36: The delayed responses when their time has come. If the player at the descriptor has the address,
  port and id that were stored with the response, a bad PUT is answered with BAD_PUT, a successful one with the
  STATE message prepared, and the player may put again; no other player is touched. If the descriptor
  has no player by now, or one with another address, port or id, nothing happens. (A player for whom the
  three agree may still be another client, see \<open>bad_put_to_newcomer\<close>.)
\<close>

theorem delayed_responses:
  assumes "- (2 ^ 31) \<le> pt" "pt < 2 ^ 31" and "is_finite v" and "canonical v" and "m = ''STATE '' @ txt @ crlf"
  shows "case map_of (players s) cfd of
      Some p \<Rightarrow>
        if pl_ip p = ip \<and> pl_port p = port \<and> pl_id p = cid
        then bad_put_callback cfd pt v ip port cid s = Inr (set_player cfd (p\<lparr>can_put := True,
               messages := messages p @ [''BAD_PUT '' @ show_int pt @ '' '' @ doubleToString v @ crlf]\<rparr>) s) \<and>
             (\<exists>l. state_callback cfd m ip port cid s = Inr (println l (set_player cfd (p\<lparr>messages := messages p @ [m],
               can_put := True\<rparr>) s)))
        else bad_put_callback cfd pt v ip port cid s = Inr s \<and> state_callback cfd m ip port cid s = Inr s
    | None \<Rightarrow> bad_put_callback cfd pt v ip port cid s = Inr s \<and> state_callback cfd m ip port cid s = Inr s"
proof (cases "map_of (players s) cfd")
  case None
  then show ?thesis
    by (simp add: bad_put_callback_def state_callback_def client_gone_def validate_client_def)
next
  case (Some p)
  then show ?thesis
    using create_pair_eq(2) [OF assms(1-4)]
    by (auto simp: bad_put_callback_def state_callback_def client_gone_def validate_client_def player_simps assms(5)
        substr_from_def before_crlf_Cons set_player_println)
qed

theorem delayed_responses_witness:
  "\<exists>s. bad_put_callback 4 7 dzero ''127.0.0.1'' 40000 ''Ann'' example_game = Inr s \<and>
     bad_put_callback 4 7 dzero ''127.0.0.1'' 40000 ''Bob'' example_game = Inr example_game"
  using delayed_responses [of 7 dzero "''STATE '' @ [] @ crlf" "[]" 4 "''127.0.0.1''" 40000 "''Ann''" example_game]
    delayed_responses [of 7 dzero "''STATE '' @ [] @ crlf" "[]" 4 "''127.0.0.1''" 40000 "''Bob''" example_game] dzero_facts
  by (simp add: example_defs)

text \<open>
  The check goes by the id, and that of a client that has not said HELLO is \<open>UNKNOWN\<close>, a name that a player
  may choose. When such a player leaves after a bad PUT and a client with the same address gets its
  descriptor in time, the server sends BAD_PUT to that client before its HELLO.
\<close>

lemma bad_put_to_newcomer:
  assumes "- (2 ^ 31) \<le> pt" "pt < 2 ^ 31" and "is_finite v" and "canonical v"
  shows "\<exists>s' p. bad_put_callback cfd pt v ip port ''UNKNOWN'' (register_new_client cfd ip port s) = Inr s' \<and>
    map_of (players s') cfd = Some p \<and> \<not> is_known p \<and> can_put p \<and>
    messages p = [''BAD_PUT '' @ show_int pt @ '' '' @ doubleToString v @ crlf]"
  using create_pair_eq(2) [OF assms]
  by (simp add: bad_put_callback_def client_gone_def validate_client_def register_new_client_def player_simps map_of_map_put)

section \<open>Timers\<close>

lemma later_events_filter: "sorted_events evs \<Longrightarrow> later_events t evs = filter (\<lambda>(d, e). t < d) evs"
proof (induction evs)
  case (Cons x evs)
  obtain d e where x: "x = (d, e)" by (cases x)
  show ?case
  proof (cases "d \<le> t")
    case True
    then show ?thesis using Cons by (simp add: x later_events_def)
  next
    case False
    then have "filter (\<lambda>(d, e). t < d) evs = evs"
      using Cons.prems by (intro filter_True) (auto simp: x)
    then show ?thesis using False by (simp add: x later_events_def)
  qed
qed (simp add: later_events_def)

text \<open>
  C22: The timers, as a queue ordered by deadline. A check at time \<open>t\<close> runs exactly the events whose
  deadline has come, in the order of the deadlines, and keeps exactly the others; an event added
  with deadline \<open>d\<close> is not run before \<open>d\<close>, and the first check after it runs it behind all events
  that were due by then, also those with the same deadline.
\<close>

theorem timers_contract:
  assumes "sorted_events evs"
  shows "check_timers call t (add_event e d evs) s =
    bindR (run_events call
        (if d \<le> t then due_events d evs @ e # drop (length (due_events d evs)) (due_events t evs) else due_events t evs) s)
      (\<lambda>s'. Inr (s', filter (\<lambda>(d', e'). t < d') (add_event e d evs)))"
proof -
  have sorted: "sorted_events (add_event e d evs)" by (rule timers.wf_add [OF assms])
  have "due_events t (add_event e d evs) =
      (if d \<le> t then due_events d evs @ e # drop (length (due_events d evs)) (due_events t evs) else due_events t evs)"
  proof (cases "d \<le> t")
    case True
    obtain ys where "due_events t evs = due_events d evs @ ys" "due_events t (add_event e d evs) = due_events d evs @ e # ys"
      using timers.due_add [OF assms True, of e] by blast
    then show ?thesis using True by simp
  next
    case False
    then show ?thesis using timers.due_add_late [OF assms] by simp
  qed
  then show ?thesis
    using check_timers_eq [OF sorted, of call t s] later_events_filter [OF sorted, of t] by simp
qed

theorem timers_contract_witness:
  "check_timers (\<lambda>e s. Inr (s @ [e])) 5 (add_event ''c'' 3 [(1, ''a''), (3, ''b''), (9, ''d'')]) [] =
     Inr ([''a'', ''b'', ''c''], [(9, ''d'')])"
  using timers_contract [of "[(1, ''a''), (3, ''b''), (9, ''d'')]" "\<lambda>e s. Inr (s @ [e])" 5 "''c''" 3 "[]"]
  by simp

section \<open>HELLO\<close>

lemma set_player_coeff_file: "coeff_file (set_player cfd p s) = coeff_file s"
  by (simp add: set_player_def)

text \<open>
  C37: HELLO. The first HELLO of a client makes it known under its id, allows it to put, sets its delay
  to the number of small letters, takes the next line of the file of coefficients as the player's
  polynomial and answers with this very line; no other player is touched. A second HELLO is rejected
  and changes nothing.
\<close>

theorem hello_effect:
  assumes "map_of (players s) cfd = Some p" and "coeff_file s = line @ crlf @ rest" and "CHR 0x0A \<notin> set line"
    and "createMessage (line @ crlf) = Some m" and "body m = CoeffMessage cs"
  shows "if is_known p then server_handle_hello cfd pid s = Inr (False, s)
    else \<exists>s'. server_handle_hello cfd pid s = Inr (True, s') \<and> coeff_file s' = rest \<and> events s' = events s \<and>
      total_correct_puts s' = total_correct_puts s \<and> stopping s' = stopping s \<and>
      map_of (players s') cfd = Some (p\<lparr>pl_id := pid, delay := int (length (filter islower pid)), is_known := True,
        can_put := True, coefficients := cs, messages := messages p @ [line @ crlf]\<rparr>) \<and>
      (\<forall>other. other \<noteq> cfd \<longrightarrow> map_of (players s') other = map_of (players s) other)"
proof -
  have "takeWhile (\<lambda>c. c \<noteq> CHR 0x0A) (line @ CHR 0x0D # CHR 0x0A # rest) = line @ [CHR 0x0D]"
    "dropWhile (\<lambda>c. c \<noteq> CHR 0x0A) (line @ CHR 0x0D # CHR 0x0A # rest) = CHR 0x0A # rest"
    using assms(3) by (induction line) auto
  then have get: "getline (coeff_file s) = (line @ [CHR 0x0D], rest)"
    by (simp add: getline_def assms(2) crlf_def)
  have "raw_message m = line @ crlf"
    using assms(4) by (auto simp: createMessage_iff)
  then show ?thesis
    using assms(1,4,5) get
    by (simp add: server_handle_hello_def player_simps Let_def crlf_def set_player_coeff_file)
qed

lemma example_coefficients:
  "\<exists>m. createMessage (''COEFF 1'' @ crlf) = Some m \<and> body m = CoeffMessage [decimal_double False ''1'' []]"
proof -
  let ?d = "decimal_double False ''1'' []"
  have parts: "decimal_parts ''1'' False []" by (simp add: decimal_parts_def isdigit_def code_def)
  have dv: "decimal_value False ''1'' [] = 1"
    by (simp add: decimal_value_def digits_value_def digit_value_def code_def)
  have fin: "is_finite ?d"
    using decimal_double_near [of False "''1''" "[]"] small_less_half_max [of 1] by (auto simp: near_def dv dest: rounds_toD(1))
  have "decimal_string False ''1'' False [] = ''1''" by (simp add: decimal_string_def)
  then have "parseDouble ''1'' = Some ?d" using parts fin unfolding parseDouble_Some by metis
  then have "parseMessage ''COEFF'' [''1''] = Some (CoeffMessage [?d])"
    using range_check [of False "''1''" "[]" 100] fin
    by (simp add: parseMessage_def parse_coeff_def max_n_def dv min_coeff_def max_coeff_def)
  from create_with [OF _ _ _ _ this] show ?thesis
    by (auto simp: createMessageWithCRLF_def param_ok_def param_char_def isalnum_def isdigit_def code_def)
qed

theorem hello_effect_witness:
  "\<exists>s'. server_handle_hello 4 ''Bob'' (example_game\<lparr>coeff_file := ''COEFF 1'' @ crlf @ [],
      players := [(4, example_player\<lparr>is_known := False\<rparr>)]\<rparr>) = Inr (True, s') \<and> coeff_file s' = []"
proof -
  let ?g = "example_game\<lparr>coeff_file := ''COEFF 1'' @ crlf @ [], players := [(4, example_player\<lparr>is_known := False\<rparr>)]\<rparr>"
  obtain m where m: "createMessage (''COEFF 1'' @ crlf) = Some m" "body m = CoeffMessage [decimal_double False ''1'' []]"
    using example_coefficients by blast
  have "map_of (players ?g) 4 = Some (example_player\<lparr>is_known := False\<rparr>)" "coeff_file ?g = ''COEFF 1'' @ crlf @ []"
    by simp_all
  from hello_effect [OF this _ m, of "''Bob''"] show ?thesis by auto
qed

section \<open>The end of a game\<close>

lemma scores_loop_known:
  "(\<forall>p \<in> set (filter is_known (map snd ps)). calculate_score p s = Inr (f p)) \<Longrightarrow>
   scores_loop s ps = Inr (map pl_id (filter is_known (map snd ps)), map f (filter is_known (map snd ps)))"
  by (induction s ps rule: scores_loop.induct) auto

definition noted :: "string \<Rightarrow> PlayerInfo \<Rightarrow> PlayerInfo" where
  "noted msg p = (if is_known p then p\<lparr>messages := messages p @ [msg]\<rparr> else p)"

lemma append_to_known_effect:
  "distinct (map fst ps) \<Longrightarrow> (\<forall>(cfd, p) \<in> set ps. map_of (players s) cfd = Some p) \<Longrightarrow>
   \<exists>s'. append_to_known ps msg s = Inr s' \<and> (\<forall>cfd. map_of (players s') cfd =
     (case map_of ps cfd of Some p \<Rightarrow> Some (noted msg p) | None \<Rightarrow> map_of (players s) cfd))"
proof (induction ps arbitrary: s)
  case (Cons x ps)
  obtain cfd p where x: "x = (cfd, p)" by (cases x)
  show ?case
  proof (cases "is_known p")
    case True
    let ?s = "set_player cfd (noted msg p) s"
    have step: "append_message_back cfd msg s = Inr ?s"
      using Cons.prems(2) True by (simp add: x player_simps noted_def)
    have "\<forall>(cfd', q) \<in> set ps. map_of (players ?s) cfd' = Some q"
      using Cons.prems by (force simp: x map_of_map_put)
    then obtain s' where "append_to_known ps msg ?s = Inr s'" "\<forall>cfd'. map_of (players s') cfd' =
        (case map_of ps cfd' of Some q \<Rightarrow> Some (noted msg q) | None \<Rightarrow> map_of (players ?s) cfd')"
      using Cons.IH Cons.prems(1) by (metis x distinct.simps(2) list.simps(9))
    moreover have "map_of ps cfd = None"
      using Cons.prems(1) by (simp add: x map_of_eq_None_iff)
    ultimately show ?thesis using True step by (simp add: x map_of_map_put split: option.split)
  next
    case False
    obtain s' where "append_to_known ps msg s = Inr s'" "\<forall>cfd'. map_of (players s') cfd' =
        (case map_of ps cfd' of Some q \<Rightarrow> Some (noted msg q) | None \<Rightarrow> map_of (players s) cfd')"
      using Cons.IH [of s] Cons.prems by (auto simp: x)
    moreover have "map_of ps cfd = None" "map_of (players s) cfd = Some p"
      using Cons.prems by (auto simp: x map_of_eq_None_iff)
    ultimately show ?thesis using False by (auto simp: x noted_def split: option.split)
  qed
qed simp

text \<open>
  C38: The end of a game. When the scores of the known players are finite numbers, every known player
  gets the same SCORING message, which the factory builds from the ids and scores of exactly the known
  players, the others get nothing, and the server stops.
\<close>

theorem game_over_effect:
  assumes "sorted_keys (players s)" and "known = filter is_known (map snd (players s))" and "known \<noteq> []"
    and "\<forall>p \<in> set known. calculate_score p s = Inr (f p) \<and> is_finite (f p) \<and> canonical (f p) \<and>
      isAlphanumeric (pl_id p) \<and> pl_id p \<noteq> []"
  shows "\<exists>s' m. game_over s = Inr s' \<and> stopping s' \<and>
    create_scoring (map pl_id known) (map f known) = Some m \<and>
    (\<forall>cfd. map_of (players s') cfd = map_option (\<lambda>p. if is_known p then p\<lparr>messages := messages p @ [raw_message m]\<rparr> else p)
       (map_of (players s) cfd))"
proof -
  have scores: "scores_loop s (players s) = Inr (map pl_id known, map f known)"
    using assms(2,4) by (simp add: scores_loop_known)
  define ps where "ps = sort_scores (zip (map pl_id known) (map f known))"
  define m where "m = \<lparr>raw_message = ''SCORING '' @ join_params (score_params ps) @ crlf,
    msg_params = score_params ps, body = ScoringMessage (map fst ps) (map (reread \<circ> snd) ps)\<rparr>"
  have m: "create_scoring (map pl_id known) (map f known) = Some m"
    unfolding m_def ps_def using assms(3,4) by (intro create_scoring_eq) auto
  have "distinct (map fst (players s))"
    using assms(1) by (simp add: sorted_keys_def strict_sorted_iff)
  moreover have "\<forall>(cfd, p) \<in> set (players s). map_of (players s) cfd = Some p"
    using sorted_map_of [OF assms(1)] by auto
  ultimately obtain s' where s': "append_to_known (players s) (raw_message m) s = Inr s'"
      "\<forall>cfd. map_of (players s') cfd = (case map_of (players s) cfd of Some p \<Rightarrow> Some (noted (raw_message m) p)
        | None \<Rightarrow> map_of (players s) cfd)"
    using append_to_known_effect by blast
  have "substr_from 8 (toRawString m) = Inr (drop 8 (toRawString m))"
    by (simp add: substr_from_def toRawString_def m_def)
  then show ?thesis
    using scores m s'
    by (auto simp: game_over_def send_scoring_messages_def noted_def split: option.split)
qed

theorem game_over_effect_witness:
  "\<exists>s'. game_over example_game = Inr s' \<and> stopping s'"
proof -
  obtain r where r: "calculate_score example_player example_game = Inr r" "is_finite r" "canonical r"
    using calculate_score_bounded [of example_player example_game]
    by (auto simp: example_defs approx_bounded_def)
  from game_over_effect [of example_game "[example_player]" "\<lambda>_. r"] r show ?thesis
    by (auto simp: example_defs isAlphanumeric_def isalnum_def isalpha_def code_def)
qed

end
