(* ===== verification/Server_Streams.thy ===== *)
theory Server_Streams
  imports Server_Properties
begin

text \<open>
  What the server makes of the bytes of a client does not depend on how TCP cuts them into pieces:
  the buffer of a client and the loop over its lines.
\<close>

section \<open>Known players stay known\<close>

definition known :: "int set \<Rightarrow> ServerLogic \<Rightarrow> bool" where
  "known X s \<longleftrightarrow> (\<forall>cfd \<in> X. \<exists>p. map_of (players s) cfd = Some p \<and> is_known p)"

lemma known_println [simp]: "known X (println l s) = known X s"
  by (simp add: known_def)

lemma known_fields [simp]:
  "known X (s\<lparr>events := e\<rparr>) = known X s" "known X (s\<lparr>stopping := b\<rparr>) = known X s" "known X (s\<lparr>coeff_file := f\<rparr>) = known X s"
  "known X (s\<lparr>total_correct_puts := n\<rparr>) = known X s"
  by (simp_all add: known_def)

lemma known_set_player:
  assumes "known X s" and "is_known q \<or> cfd \<notin> X"
  shows "known X (set_player cfd q s)"
  using assms by (auto simp: known_def map_of_map_put)

lemma known_upd:
  assumes "known X s" and "\<And>p. is_known p \<Longrightarrow> is_known (f p)"
  shows "okR (known X) (upd_player cfd f s)"
  using assms by (auto simp: upd_player_def known_def map_of_map_put intro!: ok_player)

lemma known_append: "known X s \<Longrightarrow> okR (known X) (append_message_back cfd m s)"
  unfolding append_message_back_def by (rule known_upd) simp_all

lemma known_penalty: "known X s \<Longrightarrow> okR (known X) (respond_with_penalty cfd pt v s)"
  unfolding respond_with_penalty_def okR_bind
  by (rule okR_mono [OF known_upd]) (auto intro!: okR_all [of _ "deref _"] known_append)

lemma known_bad_put: "known X s \<Longrightarrow> okR (known X) (respond_with_bad_put t cfd pt v s)"
  unfolding respond_with_bad_put_def okR_bind
  by (rule okR_mono [OF known_upd]) (auto intro!: okR_all [of _ "player _ _"])

lemma known_state: "known X s \<Longrightarrow> okR (known X) (respond_with_state t cfd m s)"
  unfolding respond_with_state_def by (auto intro!: okR_all [of _ "player _ _"])

lemma known_append_to_known: "known X s \<Longrightarrow> okR (known X) (append_to_known ps m s)"
proof (induction ps arbitrary: s)
  case (Cons x ps)
  obtain cfd p where x: "x = (cfd, p)" by (cases x)
  show ?case
    using Cons.IH Cons.prems okR_mono [OF known_append [OF Cons.prems] Cons.IH] by (simp add: x)
qed simp

lemma known_scoring: "known X s \<Longrightarrow> okR (known X) (send_scoring_messages s)"
  unfolding send_scoring_messages_def okR_bind
  by (auto intro!: okR_all [of _ "scores_loop _ _"] okR_all [of _ "substr_from _ _"] okR_mono [OF known_append_to_known]
      split: option.split)

lemma known_game_over: "known X s \<Longrightarrow> okR (known X) (game_over s)"
  unfolding game_over_def okR_bind by (rule okR_mono [OF known_scoring]) simp_all

lemma known_successful_put:
  assumes "known X s"
  shows "okR (\<lambda>(r, s'). known X s') (successful_put t cfd pt v s)"
  unfolding successful_put_def okR_bind
proof (rule ok_player, rule okR_all)
  fix p a
  assume p: "map_of (players s) cfd = Some p"
  let ?p = "p\<lparr>correct_puts := correct_puts p + 1, approximations := (approximations p)[nat pt := dadd a v]\<rparr>"
  have s: "known X (set_player cfd ?p (s\<lparr>total_correct_puts := total_correct_puts s + 1\<rparr>))"
    using assms p by (auto simp: known_def map_of_map_put)
  show "okR (\<lambda>(r, s'). known X s') (let p = ?p; s = set_player cfd p (s\<lparr>total_correct_puts := total_correct_puts s + 1\<rparr>)
       in bindR (deref (create_state (approximations p))) (\<lambda>m.
          bindR (substr_from 6 (toRawString m)) (\<lambda>txt.
            let s = println (pl_id p @ '' puts '' @ doubleToString v @ '' in '' @ show_int pt @
                             '', current state '' @ txt) s
            in bindR (respond_with_state t cfd (raw_message m) s) (\<lambda>s.
                 if M s \<le> total_correct_puts s then bindR (game_over s) (\<lambda>s. Inr (True, s))
                 else Inr (True, s)))))"
    unfolding Let_def okR_bind using s
    by (auto intro!: okR_all [of _ "deref _"] okR_all [of _ "substr_from _ _"] okR_mono [OF known_state]
        known_game_over simp del: okR_simps(3))
qed

lemma known_put:
  assumes "known X s"
  shows "okR (\<lambda>(r, s'). known X s') (server_handle_put t cfd pt v s)"
proof -
  have clear: "okR (known X) (upd_player cfd (\<lambda>p. p\<lparr>can_put := False\<rparr>) s')" if "known X s'" for s'
    using that by (intro known_upd) simp_all
  have early: "okR (known X) (if b then respond_with_penalty cfd pt v (println l s) else Inr s)" for b l
    using assms known_penalty by simp
  have bad: "okR (known X) (if b then respond_with_bad_put t cfd pt v (println l s') else Inr s')" if "known X s'" for b l s'
    using that known_bad_put by simp
  have fin: "okR (\<lambda>(r, s'). known X s') (if b then Inr (False, s') else successful_put t cfd pt v s')"
    if "known X s'" for b s'
    using that known_successful_put by simp
  show ?thesis
    unfolding server_handle_put_def okR_bind Let_def
    using assms okR_mono [OF early okR_mono [OF clear okR_mono [OF bad fin]]]
    by (auto intro!: ok_player simp del: okR_simps(3))
qed

lemma known_hello:
  assumes "known X s"
  shows "okR (\<lambda>(r, s'). known X s' \<and> (r \<longrightarrow> known (insert cfd X) s')) (server_handle_hello cfd pid s)"
proof (cases "map_of (players s) cfd")
  case (Some p)
  have "known (insert cfd X) (set_player cfd q s')" if "is_known q" "known X s'" for q s'
    using that by (auto simp: known_def map_of_map_put)
  moreover have "known X s'" if "known (insert cfd X) s'" for s'
    using that by (simp add: known_def)
  ultimately show ?thesis
    using assms Some
    by (auto simp: server_handle_hello_def player_simps Let_def set_player_println split: option.split payload.split prod.split)
qed (simp add: server_handle_hello_def player_def)

lemma known_client_message:
  assumes "known X s"
  shows "okR (\<lambda>(r, s'). known X s') (handle_client_message t cfd m s)"
proof -
  have "okR (\<lambda>(r, s'). known X s') (server_handle_hello cfd pid s)" for pid
    by (rule okR_mono [OF known_hello [OF assms]]) auto
  then show ?thesis
    using assms known_put
    by (auto simp: handle_client_message_def intro!: okR_all [of _ "player _ _"] split: payload.split)
qed

section \<open>Lines in a growing buffer\<close>

lemma find_crlf_append: "find_crlf buf = Some pos \<Longrightarrow> find_crlf (buf @ tail) = Some pos \<and> pos + 2 \<le> length buf"
  by (induction buf arbitrary: pos rule: find_crlf.induct) (auto split: if_splits)

abbreviation rebuffer :: "int \<Rightarrow> string \<Rightarrow> Server \<Rightarrow> Server" where
  "rebuffer cfd b w \<equiv> w\<lparr>client_buffers := map_put cfd b (client_buffers w)\<rparr>"

text \<open>A line that leaves the client connected leaves it known; it does not look at the buffers.\<close>

lemma logic_updates:
  fixes w :: Server
  shows "w\<lparr>logic := logic w\<rparr> = w" "w\<lparr>logic := s, client_buffers := b\<rparr> = w\<lparr>client_buffers := b, logic := s\<rparr>"
  by (cases w; simp)+

lemma handle_line_still_iff:
  "handle_line t cfd i pid str w = Inr (Still_connected, w') \<longleftrightarrow>
   (\<exists>s. (case createMessageWithCRLF str of None \<Rightarrow> Inr (logic w)
         | Some m \<Rightarrow> bindR (handle_client_message t cfd m (logic w)) (\<lambda>(r, s). Inr s)) = Inr s \<and>
      known {cfd} s \<and> w' = w\<lparr>logic := s\<rparr>)"
proof -
  let ?game = "case createMessageWithCRLF str of None \<Rightarrow> Inr (logic w)
         | Some m \<Rightarrow> bindR (handle_client_message t cfd m (logic w)) (\<lambda>(r, s). Inr s)"
  let ?rest = "\<lambda>w. bindR (player cfd (logic w)) (\<lambda>p.
       if \<not> is_known p
       then bindR (disconnect_client cfd i pid (w\<lparr>logic := println ''Client sent message before hello.'' (logic w)\<rparr>))
              (\<lambda>w. Inr (Removed, w))
       else Inr (Still_connected, w))"
  have "handle_line t cfd i pid str w = bindR ?game (\<lambda>s. ?rest (w\<lparr>logic := s\<rparr>))"
    by (cases "createMessageWithCRLF str"; cases "handle_client_message t cfd (the (createMessageWithCRLF str)) (logic w)")
      (simp_all add: handle_line_def split_beta logic_updates cong: if_cong)
  moreover have "?rest (w\<lparr>logic := s\<rparr>) = Inr (Still_connected, w') \<longleftrightarrow> known {cfd} s \<and> w' = w\<lparr>logic := s\<rparr>" for s
    by (auto simp: known_def player_def bindR_eq_Inr split: option.split)
  ultimately show ?thesis by (simp add: bindR_eq_Inr)
qed

lemma handle_line_still:
  assumes "handle_line t cfd i pid str w = Inr (Still_connected, w')"
  shows "handle_line t cfd i pid str (w\<lparr>client_buffers := b\<rparr>) = Inr (Still_connected, w'\<lparr>client_buffers := b\<rparr>)"
    and "client_buffers w' = client_buffers w" and "poll_fds w' = poll_fds w" and "known {cfd} (logic w')"
  using assms unfolding handle_line_still_iff by (auto simp: logic_updates cong: option.case_cong)

lemma handle_line_pid:
  assumes "known {cfd} (logic w)"
  shows "handle_line t cfd i pid str w = handle_line t cfd i pid' str w"
proof (cases "createMessageWithCRLF str")
  case None
  then show ?thesis using assms by (auto simp: handle_line_def known_def player_def)
next
  case (Some m)
  show ?thesis
  proof (cases "handle_client_message t cfd m (logic w)")
    case (Inr x)
    then have "known {cfd} (snd x)"
      using okR_value [OF known_client_message [OF assms] Inr] by (simp add: split_beta)
    then show ?thesis using Some Inr by (auto simp: handle_line_def known_def player_def split_beta)
  qed (simp add: handle_line_def Some)
qed

lemma handle_line_known:
  assumes "known {cfd} (logic w)" and "handle_line t cfd i pid str w = Inr (e, w')"
  shows "e = Still_connected"
proof (cases "createMessageWithCRLF str")
  case None
  then show ?thesis using assms by (auto simp: handle_line_def known_def player_def)
next
  case (Some m)
  then obtain x where x: "handle_client_message t cfd m (logic w) = Inr x"
    using assms(2) by (cases "handle_client_message t cfd m (logic w)") (simp_all add: handle_line_def)
  then have "known {cfd} (snd x)"
    using okR_value [OF known_client_message [OF assms(1)] x] by (simp add: split_beta)
  then show ?thesis using Some x assms(2) by (auto simp: handle_line_def known_def player_def split_beta)
qed

lemma read_loop_rebuffer: "read_loop t cfd i pid buf (rebuffer cfd b w) = read_loop t cfd i pid buf w"
  by (subst (1 2) read_loop.simps) (simp split: option.split)

lemma read_loop_pid: "known {cfd} (logic w) \<Longrightarrow> read_loop t cfd i pid buf w = read_loop t cfd i pid' buf w"
proof (induction t cfd i pid buf w rule: read_loop.induct)
  case (1 t cfd i pid buf w)
  show ?case
  proof (cases "find_crlf buf")
    case (Some pos)
    let ?w = "rebuffer cfd (drop (pos + 2) buf) w"
    have same: "handle_line t cfd i pid' (take pos buf) ?w = handle_line t cfd i pid (take pos buf) ?w"
      using 1(2) by (intro handle_line_pid) simp
    show ?thesis
    proof (cases "handle_line t cfd i pid (take pos buf) ?w")
      case (Inr r)
      obtain e w' where r: "r = (e, w')" by (cases r)
      have "e = Still_connected" using handle_line_known [of cfd ?w] Inr 1(2) unfolding r by simp
      then have "known {cfd} (logic w')"
        using handle_line_still(4) [of t cfd i pid "take pos buf" ?w w'] Inr unfolding r by simp
      then show ?thesis
        using 1(1) [OF Some Inr r [symmetric]] same Inr
        by (subst (1 2) read_loop.simps) (simp add: Some r)
    next
      case (Inl e)
      then show ?thesis using same by (subst (1 2) read_loop.simps) (simp add: Some)
    qed
  qed (subst (1 2) read_loop.simps, simp)
qed

lemma read_loop_chunks:
  "read_loop t cfd i pid buf w = Inr (Still_connected, w1) \<Longrightarrow> \<not> stopping (logic w1) \<Longrightarrow>
   poll_fds w1 = poll_fds w \<and> (logic w1 = logic w \<or> known {cfd} (logic w1)) \<and>
   (\<exists>r. map_of (client_buffers w1) cfd = Some r \<and>
     read_loop t cfd i pid (r @ tail) w1 = read_loop t cfd i pid (buf @ tail) w)"
proof (induction t cfd i pid buf w rule: read_loop.induct)
  case (1 t cfd i pid buf w)
  show ?case
  proof (cases "find_crlf buf")
    case None
    then have w1: "w1 = rebuffer cfd buf w" using 1(2) by (subst (asm) read_loop.simps) simp
    show ?thesis unfolding w1 by (simp add: read_loop_rebuffer map_of_map_put)
  next
    case (Some pos)
    let ?w = "rebuffer cfd (drop (pos + 2) buf) w"
    obtain w2 where line: "handle_line t cfd i pid (take pos buf) ?w = Inr (Still_connected, w2)"
        "\<not> stopping (logic w2)" "read_loop t cfd i pid (drop (pos + 2) buf) w2 = Inr (Still_connected, w1)"
      using 1(2,3) unfolding read_loop.simps [of t cfd i pid buf w]
      by (auto simp: Some bindR_eq_Inr connected_or_removed split: if_splits)
    note l = handle_line_still [OF line(1)]
    from 1(1) [OF Some line(1) refl _ line(2) line(3) 1(3)]
    obtain r where r: "poll_fds w1 = poll_fds w2" "logic w1 = logic w2 \<or> known {cfd} (logic w1)"
        "map_of (client_buffers w1) cfd = Some r"
        "read_loop t cfd i pid (r @ tail) w1 = read_loop t cfd i pid (drop (pos + 2) buf @ tail) w2"
      by auto
    have long: "find_crlf (buf @ tail) = Some pos" "pos + 2 \<le> length buf"
      using find_crlf_append [OF Some] by auto
    have "handle_line t cfd i pid (take pos buf) (rebuffer cfd (drop (pos + 2) buf @ tail) w) =
        Inr (Still_connected, rebuffer cfd (drop (pos + 2) buf @ tail) w2)"
      using l(1) [of "map_put cfd (drop (pos + 2) buf @ tail) (client_buffers w)"] l(2) by simp
    then have "read_loop t cfd i pid (buf @ tail) w =
        read_loop t cfd i pid (drop (pos + 2) buf @ tail) (rebuffer cfd (drop (pos + 2) buf @ tail) w2)"
      using long line(2) by (subst read_loop.simps) simp
    then show ?thesis using r l(3,4) by (auto simp: read_loop_rebuffer)
  qed
qed

text \<open>
  C18: Reading from a client does not depend on how its bytes are cut into pieces, even inside a CRLF:
  when a read of \<open>b1\<close> leaves the client connected and the game running, a second read of \<open>b2\<close> has the
  same result as one read of \<open>b1\<close> and \<open>b2\<close> together would have had: the same lines are handled, in the
  same order, and the same rest stays in the buffer.
\<close>

theorem read_in_pieces:
  assumes "handle_read_from_client (inp\<lparr>received := \<lambda>_. Recv_bytes b1\<rparr>) i w = Inr (True, Still_connected, w1)"
    and "\<not> stopping (logic w1)"
  shows "handle_read_from_client (inp\<lparr>received := \<lambda>_. Recv_bytes b2\<rparr>) i w1 =
    handle_read_from_client (inp\<lparr>received := \<lambda>_. Recv_bytes (b1 @ b2)\<rparr>) i w"
proof -
  define buf where "buf = (case map_of (client_buffers w) (fd (poll_fds w ! i)) of None \<Rightarrow> [] | Some b \<Rightarrow> b)"
  let ?cfd = "fd (poll_fds w ! i)"
  obtain pid where i: "i < length (poll_fds w)" and pid: "getClientPlayerID ?cfd (logic w) = Inr pid"
      and loop: "read_loop (now inp) ?cfd i pid (buf @ b1) w = Inr (Still_connected, w1)"
    using assms(1) by (auto simp: handle_read_from_client_def bindR_eq_Inr nth_chk_eq_Inr buf_def)
  from read_loop_chunks [OF loop assms(2), of b2]
  obtain r where r: "poll_fds w1 = poll_fds w" "logic w1 = logic w \<or> known {?cfd} (logic w1)"
      "map_of (client_buffers w1) ?cfd = Some r"
      "read_loop (now inp) ?cfd i pid (r @ b2) w1 = read_loop (now inp) ?cfd i pid (buf @ b1 @ b2) w"
    by auto
  obtain pid1 where pid1: "getClientPlayerID ?cfd (logic w1) = Inr pid1"
    and same: "read_loop (now inp) ?cfd i pid1 (r @ b2) w1 = read_loop (now inp) ?cfd i pid (r @ b2) w1"
    using r(2)
  proof
    assume "logic w1 = logic w"
    then show thesis using that pid by simp
  next
    assume k: "known {?cfd} (logic w1)"
    then have "getClientPlayerID ?cfd (logic w1) \<noteq> Inl e" for e
      by (auto simp: known_def getClientPlayerID_def player_def)
    then show thesis using that read_loop_pid [OF k] by (cases "getClientPlayerID ?cfd (logic w1)") auto
  qed
  show ?thesis
    using i pid pid1 same r by (simp add: handle_read_from_client_def buf_def)
qed

definition example_inp :: inputs where
  "example_inp = \<lparr>ready = 1, re_hup = \<lambda>_. False, re_in = \<lambda>_. True, re_out = \<lambda>_. False, accepted = None,
     received = \<lambda>_. Recv_closed, send_result = \<lambda>_ _ m. int (length m), now = 0\<rparr>"

definition example_server :: Server where
  "example_server = \<lparr>logic = example_game, client_buffers = [(4, [])],
     poll_fds = [new_pollfd 3, (new_pollfd 4)\<lparr>rev_in := True\<rparr>], transmitted = []\<rparr>"

theorem read_in_pieces_witness:
  "\<exists>w1. handle_read_from_client (example_inp\<lparr>received := \<lambda>_. Recv_bytes ''X''\<rparr>) 1 example_server = Inr (True, Still_connected, w1) \<and>
     handle_read_from_client (example_inp\<lparr>received := \<lambda>_. Recv_bytes crlf\<rparr>) 1 w1 =
     handle_read_from_client (example_inp\<lparr>received := \<lambda>_. Recv_bytes (''X'' @ crlf)\<rparr>) 1 example_server"
proof -
  let ?w = "example_server\<lparr>client_buffers := [(4, ''X'')]\<rparr>"
  have first: "handle_read_from_client (example_inp\<lparr>received := \<lambda>_. Recv_bytes ''X''\<rparr>) 1 example_server = Inr (True, Still_connected, ?w)"
    by (simp add: handle_read_from_client_def example_server_def example_defs getClientPlayerID_def player_def new_pollfd_def
        read_loop.simps Let_def)
  have "\<not> stopping (logic ?w)" by (simp add: example_server_def example_defs)
  from first read_in_pieces [OF first this, of crlf] show ?thesis by blast
qed

end
