(* ===== verification/Game_Safety.thy ===== *)
theory Game_Safety
  imports Score_Bounds Server_Streams
begin

text \<open>
  The game never runs into undefined behaviour: no message it builds is null, no vector is accessed
  out of range, no operation is called for a client that has left. What this rests on: the ranges of
  the parameters, which the parser of arguments checks, and a file whose lines are messages COEFF with
  \<open>N + 1\<close> coefficients.
\<close>

section \<open>The invariant\<close>

definition line_ok :: "int \<Rightarrow> string \<Rightarrow> bool" where
  "line_ok n line = (case createMessage (line @ [CHR 0x0A]) of None \<Rightarrow> True
     | Some m \<Rightarrow> (case body m of CoeffMessage cs \<Rightarrow> int (length cs) = n + 1 | _ \<Rightarrow> False))"

text \<open>The lines that \<open>getline\<close> delivers until the end of the file.\<close>

fun file_lines :: "string \<Rightarrow> string list" where
  "file_lines [] = [[]]"
| "file_lines (c # cs) =
     (if c = CHR 0x0A then [] # file_lines cs
      else case file_lines cs of l # ls \<Rightarrow> (c # l) # ls | [] \<Rightarrow> [[c]])"

lemma file_lines_getline:
  "file_lines content = fst (getline content) #
    (if CHR 0x0A \<in> set content then file_lines (snd (getline content)) else [])"
  by (induction content) (auto simp: getline_def)

lemma getline_end: "CHR 0x0A \<notin> set content \<Longrightarrow> snd (getline content) = []"
  by (induction content) (auto simp: getline_def)

definition file_ok :: "int \<Rightarrow> string \<Rightarrow> bool" where
  "file_ok n content = list_all (line_ok n) (file_lines content)"

lemma file_ok_getline:
  assumes "file_ok n content"
  shows "line_ok n (fst (getline content))" and "file_ok n (snd (getline content))"
proof -
  have "createMessage [CHR 0x0A] = None" by (simp add: createMessage_def)
  then have "file_ok n []" by (simp add: file_ok_def line_ok_def)
  then show "line_ok n (fst (getline content))" and "file_ok n (snd (getline content))"
    using assms unfolding file_ok_def
    by (subst (asm) file_lines_getline, auto simp: file_ok_def getline_end split: if_splits)+
qed

definition config_ok :: "ServerLogic \<Rightarrow> bool" where
  "config_ok s \<longleftrightarrow> 0 \<le> K s \<and> K s \<le> 10000 \<and> 0 \<le> N s \<and> N s \<le> 8 \<and> 1 \<le> M s \<and> M s \<le> 12341234"

text \<open>
  What a client with the parameters \<open>k\<close> and \<open>n\<close> may be sent, as messages and as lines; and that what has
  been sent to it, followed by what is queued for it, are such lines.
\<close>

definition harmless :: "nat \<Rightarrow> nat \<Rightarrow> Message \<Rightarrow> bool" where
  "harmless k n m =
     (case body m of
        CoeffMessage cs \<Rightarrow> length cs \<le> n + 1
      | StateMessage vs \<Rightarrow> length vs = k + 1
      | ScoringMessage ids vs \<Rightarrow> ids \<noteq> []
      | _ \<Rightarrow> True)"

definition regular :: "int \<Rightarrow> int \<Rightarrow> string \<Rightarrow> bool" where
  "regular k n l \<longleftrightarrow> (\<exists>m. createMessage l = Some m \<and> harmless (nat k) (nat n) m)"

definition queue_ok :: "int \<Rightarrow> int \<Rightarrow> string \<Rightarrow> string list \<Rightarrow> bool" where
  "queue_ok k n snt q \<longleftrightarrow> (\<exists>whole begun. list_all (regular k n) whole \<and> snt = concat whole @ begun \<and>
     (case q of [] \<Rightarrow> begun = [] | l # ls \<Rightarrow> regular k n (begun @ l) \<and> list_all (regular k n) ls))"

lemma queue_okI:
  "list_all (regular k n) whole \<Longrightarrow> snt = concat whole @ begun \<Longrightarrow> regular k n (begun @ l) \<Longrightarrow> list_all (regular k n) ls \<Longrightarrow>
   queue_ok k n snt (l # ls)"
  unfolding queue_ok_def by auto

lemma queue_ok_emptyI: "list_all (regular k n) whole \<Longrightarrow> snt = concat whole \<Longrightarrow> queue_ok k n snt []"
  unfolding queue_ok_def by (intro exI [of _ whole] exI [of _ "[]"]) simp

lemma queue_ok_new [simp]: "queue_ok k n [] []"
  by (rule queue_ok_emptyI [of _ _ "[]"]) simp_all

lemma queue_ok_whole: "list_all (regular k n) whole \<Longrightarrow> list_all (regular k n) q \<Longrightarrow> queue_ok k n (concat whole) q"
  by (cases q) (auto intro: queue_ok_emptyI queue_okI [of _ _ whole _ "[]"])

lemma queue_okE:
  assumes "queue_ok k n snt (l # ls)"
  obtains whole begun where "list_all (regular k n) whole" and "snt = concat whole @ begun" and "regular k n (begun @ l)"
    and "list_all (regular k n) ls"
  using assms unfolding queue_ok_def by auto

lemma queue_ok_append: "queue_ok k n snt q \<Longrightarrow> regular k n l \<Longrightarrow> queue_ok k n snt (q @ [l])"
proof (cases q)
  case Nil
  assume "queue_ok k n snt q" and "regular k n l"
  then show ?thesis using queue_ok_whole [of k n _ "[l]"] Nil by (auto simp: queue_ok_def)
next
  case (Cons h t)
  assume q: "queue_ok k n snt q" and "regular k n l"
  then show ?thesis unfolding Cons by (auto elim!: queue_okE intro: queue_okI)
qed

text \<open>The first text is sent, whole or in part.\<close>

lemma queue_ok_take:
  assumes "queue_ok k n snt (l # ls)"
  shows "queue_ok k n (snt @ l) ls"
proof -
  obtain whole begun where w: "list_all (regular k n) whole" "snt = concat whole @ begun" "regular k n (begun @ l)" "list_all (regular k n) ls"
    using assms by (rule queue_okE)
  have "queue_ok k n (concat (whole @ [begun @ l])) ls" by (rule queue_ok_whole) (use w in simp_all)
  then show ?thesis using w(2) by simp
qed

lemma queue_ok_part: "queue_ok k n snt ((bs @ r) # ls) \<Longrightarrow> queue_ok k n (snt @ bs) (r # ls)"
  by (elim queue_okE) (auto intro: queue_okI)

lemma queue_ok_lines:
  assumes "queue_ok k n snt q"
  shows "\<exists>ls. list_all (regular k n) ls \<and> snt @ concat q = concat ls"
proof -
  obtain whole begun where w: "list_all (regular k n) whole" "snt = concat whole @ begun"
      "case q of [] \<Rightarrow> begun = [] | l # ls \<Rightarrow> regular k n (begun @ l) \<and> list_all (regular k n) ls"
    using assms unfolding queue_ok_def by blast
  show ?thesis
  proof (cases q)
    case Nil
    then show ?thesis using w by auto
  next
    case (Cons l ls)
    then show ?thesis using w by (intro exI [of _ "whole @ (begun @ l) # ls"]) simp
  qed
qed

definition sent_ok :: "int \<Rightarrow> int \<Rightarrow> (int \<Rightarrow> string) \<Rightarrow> bool" where
  "sent_ok k n tx \<longleftrightarrow> (\<forall>c. \<exists>ls rest. list_all (regular k n) ls \<and> tx c @ rest = concat ls)"

lemma sent_ok_put: "sent_ok k n tx \<Longrightarrow> list_all (regular k n) ls \<Longrightarrow> snt @ rest = concat ls \<Longrightarrow> sent_ok k n (tx(c := snt))"
  unfolding sent_ok_def by auto

lemma sent_ok_upd: "sent_ok k n tx \<Longrightarrow> queue_ok k n snt q \<Longrightarrow> sent_ok k n (tx(c := snt))"
  using sent_ok_put [of k n tx _ snt "concat q" c] queue_ok_lines by blast

lemma sent_ok_none [simp]: "sent_ok k n (\<lambda>c. [])"
  by (auto simp: sent_ok_def intro: exI [of _ "[]"])

definition player_safe :: "string \<Rightarrow> ServerLogic \<Rightarrow> PlayerInfo \<Rightarrow> bool" where
  "player_safe snt s p \<longleftrightarrow> queue_ok (K s) (N s) snt (messages p) \<and> (\<forall>a \<in> set (approximations p). bounded a (12 * correct_puts p)) \<and> bounded (penalty p) (2 ^ 59) \<and>
     (is_known p \<longrightarrow> int (length (coefficients p)) = N s + 1 \<and> (\<forall>c \<in> set (coefficients p). bounded c (2 ^ 7)))"

fun event_safe :: "int \<Rightarrow> int \<Rightarrow> event \<Rightarrow> bool" where
  "event_safe k n (Bad_put_response cfd pt v ip port cid) \<longleftrightarrow> - (2 ^ 31) \<le> pt \<and> pt < 2 ^ 31 \<and> is_finite v \<and> canonical v"
| "event_safe k n (State_response cfd m ip port cid) \<longleftrightarrow> regular k n m \<and> (\<exists>txt. m = ''STATE '' @ txt @ crlf)"
| "event_safe k n (Hello_timeout cfd ip port) \<longleftrightarrow> True"

text \<open>
  \<open>tx\<close> is what has been sent to each client. With \<open>b\<close>, the game is not over, or the server is stopping: false
  only inside a handler.
\<close>

definition nums_ok :: "(int \<Rightarrow> string) \<Rightarrow> bool \<Rightarrow> ServerLogic \<Rightarrow> bool" where
  "nums_ok tx b s \<longleftrightarrow> config_ok s \<and> sent_ok (K s) (N s) tx \<and> (\<forall>(cfd, p) \<in> set (players s). player_safe (tx cfd) s p) \<and>
     total_correct_puts s \<le> M s \<and> (b \<longrightarrow> total_correct_puts s < M s \<or> stopping s) \<and>
     file_ok (N s) (coeff_file s) \<and> (\<forall>(d, e) \<in> set (events s). event_safe (K s) (N s) e)"

definition safe :: "(int \<Rightarrow> string) \<Rightarrow> bool \<Rightarrow> int set \<Rightarrow> ServerLogic \<Rightarrow> bool" where
  "safe tx b F s \<longleftrightarrow> game_ok F s \<and> nums_ok tx b s"

lemma safe_game: "safe tx b F s \<Longrightarrow> game_ok F s"
  by (simp add: safe_def)

lemma safeR_okR: "safeR P r \<Longrightarrow> okR Q r \<Longrightarrow> safeR (\<lambda>x. P x \<and> Q x) r"
  by (cases r) auto

lemma safeR_safe: "safeR (nums_ok tx b) r \<Longrightarrow> okR (game_ok F) r \<Longrightarrow> safeR (safe tx b F) r"
  by (cases r) (simp_all add: safe_def)

lemma player_safe_fields [simp]:
  "player_safe snt (s\<lparr>cout := x\<rparr>) p = player_safe snt s p" "player_safe snt (s\<lparr>events := ev\<rparr>) p = player_safe snt s p"
  "player_safe snt (s\<lparr>coeff_file := f\<rparr>) p = player_safe snt s p" "player_safe snt (s\<lparr>stopping := b\<rparr>) p = player_safe snt s p"
  "player_safe snt (s\<lparr>players := ps\<rparr>) p = player_safe snt s p" "player_safe snt (s\<lparr>total_correct_puts := n\<rparr>) p = player_safe snt s p"
  by (simp_all add: player_safe_def)

lemma nums_ok_println [simp]: "nums_ok tx b (println l s) = nums_ok tx b s"
  by (simp add: nums_ok_def println_def config_ok_def)

lemma nums_ok_player: "nums_ok tx b s \<Longrightarrow> map_of (players s) cfd = Some p \<Longrightarrow> player_safe (tx cfd) s p"
  by (auto simp: nums_ok_def dest: map_of_SomeD)

lemma nums_ok_set_player:
  assumes "nums_ok tx b s" and "player_safe (tx cfd) s q"
  shows "nums_ok tx b (set_player cfd q s)"
  using assms set_map_put [of cfd q "players s"]
  by (auto simp: nums_ok_def set_player_def config_ok_def)

lemma nums_ok_event: "nums_ok tx b s \<Longrightarrow> event_safe (K s) (N s) e \<Longrightarrow> nums_ok tx b (s\<lparr>events := add_event e t (events s)\<rparr>)"
  by (auto simp: nums_ok_def config_ok_def)

lemma correct_puts_bound:
  assumes "safe tx b F s" and "map_of (players s) cfd = Some p"
  shows "0 \<le> correct_puts p" and "correct_puts p \<le> M s"
proof -
  have nonneg: "0 \<le> correct_puts q" if "(c, q) \<in> set (players s)" for c q
    using assms(1) that by (auto simp: safe_def game_ok_def player_ok_def)
  have sum: "\<forall>(c, q) \<in> set ps. 0 \<le> correct_puts q \<Longrightarrow> (cfd, p) \<in> set ps \<Longrightarrow> correct_puts p \<le> total_of correct_puts ps" for ps
  proof (induction ps)
    case (Cons x ps)
    have "0 \<le> total_of correct_puts ps" using Cons.prems(1)
      by (force simp: total_of_def intro!: sum_list_nonneg)
    with Cons show ?case by (cases x) auto
  qed simp
  show "0 \<le> correct_puts p" using nonneg map_of_SomeD [OF assms(2)] by blast
  have "correct_puts p \<le> total_correct_puts s"
    using sum [of "players s"] nonneg map_of_SomeD [OF assms(2)] assms(1) by (auto simp: safe_def game_ok_def)
  then show "correct_puts p \<le> M s" using assms(1) by (simp add: safe_def nums_ok_def)
qed

section \<open>Clients\<close>

lemma safe_member: "safe tx b F s \<Longrightarrow> cfd \<in> F \<Longrightarrow> \<exists>p. map_of (players s) cfd = Some p"
  by (auto simp: safe_def game_ok_def dest!: weak_map_of_SomeI)

lemma safe_player: "safe tx b F s \<Longrightarrow> cfd \<in> F \<Longrightarrow> (\<And>p. map_of (players s) cfd = Some p \<Longrightarrow> P p) \<Longrightarrow> safeR P (player cfd s)"
  using safe_member [of tx b F s cfd] by (auto simp: player_def)

lemma safe_upd:
  assumes "safe tx b F s" and "cfd \<in> F" and "\<And>p. player_safe (tx cfd) s p \<Longrightarrow> player_safe (tx cfd) s (f p)"
    and "\<And>p. correct_puts (f p) = correct_puts p" and "\<And>p. player_ok s p \<Longrightarrow> player_ok s (f p)"
  shows "safeR (safe tx b F) (upd_player cfd f s)"
proof (rule safeR_safe)
  show "safeR (nums_ok tx b) (upd_player cfd f s)"
    unfolding upd_player_def using assms nums_ok_player nums_ok_set_player
    by (auto intro!: safe_player [OF assms(1,2)] simp: safe_def)
  show "okR (game_ok F) (upd_player cfd f s)"
    using assms by (intro ok_upd_player) (auto simp: safe_def)
qed

lemma safe_append_back:
  "safe tx b F s \<Longrightarrow> cfd \<in> F \<Longrightarrow> regular (K s) (N s) m \<Longrightarrow> safeR (safe tx b F) (append_message_back cfd m s)"
  unfolding append_message_back_def by (rule safe_upd) (simp_all add: player_safe_def player_ok_def queue_ok_append)

text \<open>Only the clients of the game matter, and a client's bytes may move from the queue to the socket.\<close>

lemma safe_cong:
  assumes "safe tx b F s" and "sent_ok (K s) (N s) tx'" and "\<And>c. c \<in> F \<Longrightarrow> tx' c = tx c"
  shows "safe tx' b F s"
proof -
  have "player_safe (tx' c) s p" if "(c, p) \<in> set (players s)" for c p
  proof -
    have "fst (c, p) \<in> F" using assms(1) that unfolding safe_def game_ok_def by blast
    then show ?thesis using assms(1,3) that by (auto simp: safe_def nums_ok_def)
  qed
  then show ?thesis using assms(1,2) by (auto simp: safe_def nums_ok_def)
qed

lemma in_map_put:
  assumes "(c, x) \<in> set (map_put k v m)" and "sorted_keys m"
  shows "c = k \<and> x = v \<or> c \<noteq> k \<and> (c, x) \<in> set m"
  using assms sorted_map_of [OF sorted_map_put [OF assms(2)], of c x k v] sorted_map_of [OF assms(2), of c x]
  by (auto simp: map_of_map_put split: if_splits)

lemma safe_move:
  assumes "safe tx b F s" and "map_of (players s) cfd = Some p" and "queue_ok (K s) (N s) snt q"
  shows "safe (tx(cfd := snt)) b F (set_player cfd (p\<lparr>messages := q\<rparr>) s)"
proof -
  have game: "game_ok F (set_player cfd (p\<lparr>messages := q\<rparr>) s)"
    using game_okD [OF safe_game [OF assms(1)] assms(2)]
    by (intro game_ok_set_player [OF safe_game [OF assms(1)] assms(2)]) (simp_all add: player_ok_def)
  have nums: "nums_ok tx b s" using assms(1) by (simp add: safe_def)
  have "player_safe snt s (p\<lparr>messages := q\<rparr>)"
    using assms(3) nums_ok_player [OF nums assms(2)] by (simp add: player_safe_def)
  moreover have "player_safe (tx c) s x" if "(c, x) \<in> set (players s)" for c x
    using nums that by (auto simp: nums_ok_def)
  moreover have "c = cfd \<and> x = p\<lparr>messages := q\<rparr> \<or> c \<noteq> cfd \<and> (c, x) \<in> set (players s)"
    if "(c, x) \<in> set (map_put cfd (p\<lparr>messages := q\<rparr>) (players s))" for c x
    using in_map_put [OF that] assms(1) by (auto simp: safe_def game_ok_def)
  moreover have "sent_ok (K s) (N s) (tx(cfd := snt))"
    using sent_ok_upd [OF _ assms(3)] nums by (simp add: nums_ok_def)
  ultimately have "nums_ok (tx(cfd := snt)) b (set_player cfd (p\<lparr>messages := q\<rparr>) s)"
    using nums by (fastforce simp: nums_ok_def set_player_def config_ok_def)
  with game show ?thesis by (simp add: safe_def)
qed

text \<open>No operation changes the parameters.\<close>

definition same_config :: "ServerLogic \<Rightarrow> ServerLogic \<Rightarrow> bool" where
  "same_config s s' \<longleftrightarrow> K s' = K s \<and> N s' = N s"

lemma config_upd: "same_config s s' \<Longrightarrow> okR (same_config s) (upd_player cfd f s')"
  by (auto simp: upd_player_def player_def same_config_def split: option.split)

lemma config_append_back: "same_config s s' \<Longrightarrow> okR (same_config s) (append_message_back cfd m s')"
  unfolding append_message_back_def by (rule config_upd)

lemma safe_register:
  assumes "safe tx b F s" and "cfd \<notin> F" and "tx cfd = []"
  shows "safe tx b (insert cfd F) (register_new_client cfd ip port s)"
proof -
  have "game_ok (insert cfd F) (register_new_client cfd ip port s)"
    using assms by (intro game_ok_register)
      (auto simp: safe_def game_ok_def is_client_connected_def map_of_eq_None_iff)
  moreover have "nums_ok tx b (register_new_client cfd ip port s)"
    using assms unfolding register_new_client_def
    by (intro nums_ok_set_player) (auto simp: safe_def player_safe_def)
  ultimately show ?thesis by (simp add: safe_def)
qed

lemma safe_disconnect:
  assumes "safe tx b F s" and "cfd \<in> F"
  shows "safeR (safe tx b (F - {cfd})) (handle_client_disconnect cfd s)"
proof (rule safeR_safe)
  show "okR (game_ok (F - {cfd})) (handle_client_disconnect cfd s)"
    by (rule ok_disconnect [OF safe_game [OF assms(1)]])
  have "nums_ok tx b (s\<lparr>total_correct_puts := total_correct_puts s - correct_puts p, players := map_erase cfd (players s)\<rparr>)"
    if "map_of (players s) cfd = Some p" for p
    using assms(1) correct_puts_bound [OF assms(1) that]
    unfolding safe_def nums_ok_def config_ok_def by (auto simp: map_erase_def)
  then show "safeR (nums_ok tx b) (handle_client_disconnect cfd s)"
    by (auto simp: handle_client_disconnect_def intro!: safe_player [OF assms])
qed

lemma safe_reset: "safe tx b F s \<Longrightarrow> safe tx b {} (server_reset s)"
  using game_ok_reset [of s] by (auto simp: safe_def nums_ok_def server_reset_def reset_events_def config_ok_def)

lemma safe_println [simp]: "safe tx b F (println l s) = safe tx b F s"
  by (simp add: safe_def)

lemma safe_event: "safe tx b F s \<Longrightarrow> event_safe (K s) (N s) e \<Longrightarrow> safe tx b F (s\<lparr>events := add_event e t (events s)\<rparr>)"
  by (simp add: safe_def game_ok_event nums_ok_event)

section \<open>PUT\<close>

text \<open>What the parser guarantees of a message.\<close>

definition msg_safe :: "Message \<Rightarrow> bool" where
  "msg_safe m \<longleftrightarrow> msg_ok m \<and>
     (\<forall>pt v. body m = PutMessage pt v \<longrightarrow> - (2 ^ 31) \<le> pt \<and> pt < 2 ^ 31 \<and> is_finite v \<and> canonical v)"

lemma parsed_double: "parseDouble str = Some v \<Longrightarrow> is_finite v \<and> canonical v"
  unfolding parseDouble_Some decimal_double_def by (auto simp: canonical_round_ratio)

lemma createMessage_body:
  assumes "createMessage line = Some m"
  shows "\<exists>cmd ts. parseMessage cmd ts = Some (body m) \<and> raw_message m = line"
  using assms unfolding createMessage_iff by fastforce

lemma createMessage_safe:
  assumes "createMessage line = Some m"
  shows "msg_safe m"
proof -
  obtain cmd ts where "parseMessage cmd ts = Some (body m)" using createMessage_body [OF assms] by blast
  then have "\<exists>str. parseInteger str = Some pt" "\<exists>str. parseDouble str = Some v" if "body m = PutMessage pt v" for pt v
    using that
    by (auto simp: parseMessage_def parse_hello_def parse_coeff_def parse_put_def parse_state_def parse_scoring_def
        validateIntDoublePair_def split: if_splits list.splits option.splits)
  moreover have "- (2 ^ 31) \<le> pt \<and> pt < 2 ^ 31" if "parseInteger str = Some pt" for str pt
    using that by (auto simp: parseInteger_def split: if_splits option.splits prod.splits)
  ultimately show ?thesis
    using createMessage_ok [OF assms] parsed_double unfolding msg_safe_def by blast
qed

lemma coeff_loop_bounded: "coeff_loop ps = Some cs \<Longrightarrow> \<forall>c \<in> set cs. bounded c (2 ^ 7)"
proof (induction ps arbitrary: cs)
  case (Cons p ps)
  then obtain c cs' where c: "parseDouble p = Some c" "coeff_loop ps = Some cs'" "cs = c # cs'"
      "\<not> dless (dadd c eps) min_coeff" "\<not> dless max_coeff (dsub c eps)"
    by (auto split: option.splits if_splits)
  have "bounded c (real_of_int 100 + 1)"
    using parsed_double [OF c(1)] c(4,5) unfolding min_coeff_def max_coeff_def by (intro in_range_bounded) simp_all
  then have "bounded c (2 ^ 7)" by (rule bounded_mono) simp
  then show ?case using Cons.IH c by simp
qed simp

lemma coeff_message_bounded:
  assumes "createMessage line = Some m" and "body m = CoeffMessage cs"
  shows "\<forall>c \<in> set cs. bounded c (2 ^ 7)"
proof -
  obtain cmd ts where "parseMessage cmd ts = Some (CoeffMessage cs)"
    using createMessage_body [OF assms(1)] assms(2) by auto
  then have "coeff_loop ts = Some cs"
    by (auto simp: parseMessage_def parse_hello_def parse_coeff_def parse_put_def parse_state_def parse_scoring_def
        split: if_splits list.splits)
  then show ?thesis by (rule coeff_loop_bounded)
qed

lemma createMessage_raw: "createMessage line = Some m \<Longrightarrow> raw_message m = line"
  using createMessage_body by blast

lemma created_regular: "createMessageWithCRLF l = Some m \<Longrightarrow> harmless (nat k) (nat n) m \<Longrightarrow> regular k n (raw_message m)"
  by (auto simp: regular_def createMessageWithCRLF_def createMessage_raw)

lemma regular_pair:
  assumes "- (2 ^ 31) \<le> i" and "i < 2 ^ 31" and "is_finite v" and "canonical v"
  shows "\<exists>m. create_bad_put i v = Some m \<and> regular k n (raw_message m)"
    and "\<exists>m. create_penalty i v = Some m \<and> regular k n (raw_message m)"
  using create_pair_eq [OF assms] created_regular [of _ _ k n]
  unfolding create_bad_put_def create_penalty_def harmless_def by fastforce+

lemma safe_respond_with_penalty:
  assumes "safe tx b F s" and "cfd \<in> F" and "- (2 ^ 31) \<le> pt" "pt < 2 ^ 31" "is_finite v" "canonical v"
  shows "safeR (safe tx b F) (respond_with_penalty cfd pt v s)"
  unfolding respond_with_penalty_def
proof (rule safeR_bindI)
  show "safeR (safe tx b F) (upd_player cfd (\<lambda>p. p\<lparr>penalty := dadd (penalty p) (double_of_int early_put_penalty), can_put := True\<rparr>) s)"
    by (rule safe_upd [OF assms(1,2)])
      (simp_all add: player_safe_def player_ok_def dadd_stays [simplified] bounded_penalties early_put_penalty_def)
  show "safeR (safe tx b F) (bindR (deref (create_penalty pt v)) (\<lambda>m. append_message_back cfd (raw_message m) s'))"
    if "safe tx b F s'" for s'
    using safe_append_back [OF that assms(2)] regular_pair(2) [OF assms(3-6), of "K s'" "N s'"]
    by (auto simp: deref_def)
qed

lemma safe_respond_with_bad_put:
  assumes "safe tx b F s" and "cfd \<in> F" and "- (2 ^ 31) \<le> pt" "pt < 2 ^ 31" "is_finite v" "canonical v"
  shows "safeR (safe tx b F) (respond_with_bad_put t cfd pt v s)"
  unfolding respond_with_bad_put_def
proof (rule safeR_bindI)
  show "safeR (safe tx b F) (upd_player cfd (\<lambda>p. p\<lparr>penalty := dadd (penalty p) (double_of_int bad_put_penalty)\<rparr>) s)"
    by (rule safe_upd [OF assms(1,2)])
      (simp_all add: player_safe_def player_ok_def dadd_stays [simplified] bounded_penalties bad_put_penalty_def)
  show "safeR (safe tx b F) (bindR (player cfd s') (\<lambda>p.
       Inr (s'\<lparr>events := add_event (Bad_put_response cfd pt v (pl_ip p) (pl_port p) (pl_id p))
                        (t + seconds bad_put_delay) (events s')\<rparr>)))" if "safe tx b F s'" for s'
    using that assms(2-6) by (auto intro!: safe_player [OF that] safe_event)
qed

lemma safe_respond_with_state:
  assumes "safe tx b F s" and "cfd \<in> F" and "m = ''STATE '' @ txt @ crlf" and "regular (K s) (N s) m"
  shows "safeR (safe tx b F) (respond_with_state t cfd m s)"
  using assms by (auto simp: respond_with_state_def intro!: safe_player [OF assms(1)] safe_event)

lemma safe_callbacks:
  assumes "safe tx b F s"
  shows "event_safe (K s) (N s) (Bad_put_response cfd pt v ip port cid) \<Longrightarrow> safeR (safe tx b F) (bad_put_callback cfd pt v ip port cid s)"
    and "event_safe (K s) (N s) (State_response cfd m ip port cid) \<Longrightarrow> safeR (safe tx b F) (state_callback cfd m ip port cid s)"
proof -
  have F: "cfd \<in> F" if "\<not> client_gone cfd ip port cid s"
    using that assms
    by (auto simp: client_gone_def validate_client_def safe_def game_ok_def dest!: key_of_map_of split: option.splits)
  have can: "safeR (safe tx b F) (upd_player cfd (\<lambda>p. p\<lparr>can_put := True\<rparr>) s')" if "safe tx b F s'" "cfd \<in> F" for s'
    by (rule safe_upd [OF that]) (simp_all add: player_safe_def player_ok_def)
  show "safeR (safe tx b F) (bad_put_callback cfd pt v ip port cid s)" if "event_safe (K s) (N s) (Bad_put_response cfd pt v ip port cid)"
  proof (cases "client_gone cfd ip port cid s")
    case False
    have "safeR (safe tx b F) (bindR (upd_player cfd (\<lambda>p. p\<lparr>can_put := True\<rparr>) s)
        (\<lambda>s. bindR (deref (create_bad_put pt v)) (\<lambda>m. append_message_back cfd (raw_message m) s)))"
      by (rule safeR_bindI [OF can [OF assms F [OF False]]])
        (use regular_pair(1) [of pt v] that safe_append_back F [OF False] in \<open>fastforce simp: deref_def\<close>)
    then show ?thesis using False by (simp add: bad_put_callback_def)
  qed (simp add: bad_put_callback_def assms)
  show "safeR (safe tx b F) (state_callback cfd m ip port cid s)" if ev: "event_safe (K s) (N s) (State_response cfd m ip port cid)"
  proof (cases "client_gone cfd ip port cid s")
    case False
    obtain u where "m = ''STATE '' @ u @ crlf" and reg: "regular (K s) (N s) m" using ev unfolding event_safe.simps by blast
    then have "6 \<le> length (before_crlf m)" by (simp add: before_crlf_Cons)
    then have "safeR (safe tx b F) (bindR (append_message_back cfd m s) (\<lambda>s.
           bindR (substr_from 6 (before_crlf m)) (\<lambda>txt.
             upd_player cfd (\<lambda>p. p\<lparr>can_put := True\<rparr>)
               (println (''Sending state '' @ txt @ '' to '' @ cid @ ''.'') s))))"
      by (intro safeR_bindI [OF safe_append_back [OF assms F [OF False] reg]])
        (simp add: substr_from_def can F [OF False])
    then show ?thesis using False by (simp add: state_callback_def)
  qed (simp add: state_callback_def assms)
qed

section \<open>The end of the game\<close>

lemma safe_append_to_known:
  "safe tx b F s \<Longrightarrow> fst ` set ps \<subseteq> F \<Longrightarrow> regular (K s) (N s) m \<Longrightarrow> safeR (safe tx b F) (append_to_known ps m s)"
proof (induction ps arbitrary: s)
  case (Cons x ps)
  obtain cfd p where x: "x = (cfd, p)" by (cases x)
  have "safeR (\<lambda>s'. safe tx b F s' \<and> same_config s s') (append_message_back cfd m s)" if "cfd \<in> F"
    by (rule safeR_okR [OF safe_append_back [OF Cons.prems(1) that Cons.prems(3)] config_append_back]) (simp add: same_config_def)
  then have "safeR (\<lambda>s'. safeR (safe tx b F) (append_to_known ps m s')) (append_message_back cfd m s)" if "cfd \<in> F"
    by (rule safeR_mono) (use that Cons.IH Cons.prems in \<open>auto simp: same_config_def x\<close>)
  then show ?case using Cons.IH Cons.prems by (simp add: x)
qed simp

lemma safe_approx_bounded:
  assumes "safe tx b F s" and "map_of (players s) cfd = Some p"
  shows "approx_bounded p"
proof -
  have "real_of_int (12 * correct_puts p) \<le> 2 ^ 30"
    using correct_puts_bound [OF assms] assms(1) by (simp add: safe_def nums_ok_def config_ok_def)
  then show ?thesis
    using nums_ok_player [of tx b s cfd p] assms bounded_mono
    by (auto simp: approx_bounded_def player_safe_def safe_def)
qed

lemma safe_score:
  assumes "safe tx b F s" and "map_of (players s) cfd = Some p" and "is_known p"
  shows "\<exists>r. calculate_score p s = Inr r \<and> is_finite r \<and> canonical r"
proof (rule calculate_score_bounded)
  show "length (approximations p) = nat (K s + 1)"
    using game_okD [OF safe_game [OF assms(1)] assms(2)] by (simp add: player_ok_def)
qed (use assms nums_ok_player [of tx b s cfd p] safe_approx_bounded [OF assms(1,2)]
    in \<open>auto simp: safe_def player_safe_def nums_ok_def config_ok_def\<close>)

lemma safe_game_over:
  assumes "safe tx b F s" and "cfd \<in> F" and "known {cfd} s"
  shows "safeR (safe tx True F) (game_over s)"
proof -
  let ?known = "filter is_known (map snd (players s))"
  let ?f = "\<lambda>p. projr (calculate_score p s)"
  have sorted: "sorted_keys (players s)" using assms(1) by (simp add: safe_def game_ok_def)
  have mem: "\<exists>c. map_of (players s) c = Some p" if "p \<in> set ?known" for p
    using that sorted_map_of [OF sorted] by auto
  have score: "calculate_score p s = Inr (?f p) \<and> is_finite (?f p) \<and> canonical (?f p)" if k: "p \<in> set ?known" for p
  proof -
    obtain r where "calculate_score p s = Inr r" "is_finite r" "canonical r"
      using mem [OF k] safe_score [OF assms(1)] k by auto
    then show ?thesis by simp
  qed
  have ids: "isAlphanumeric (pl_id p) \<and> pl_id p \<noteq> []" if "p \<in> set ?known" for p
    using mem [OF that] game_okD [OF safe_game [OF assms(1)]] that by (auto simp: player_ok_def)
  have loop: "scores_loop s (players s) = Inr (map pl_id ?known, map ?f ?known)"
    using score by (intro scores_loop_known) simp
  have nonempty: "?known \<noteq> []"
    using assms(3) sorted_map_of [OF sorted] by (force simp: known_def filter_empty_conv)
  define ps where "ps = sort_scores (zip (map pl_id ?known) (map ?f ?known))"
  define m where "m = \<lparr>raw_message = ''SCORING '' @ join_params (score_params ps) @ crlf,
    msg_params = score_params ps, body = ScoringMessage (map fst ps) (map (reread \<circ> snd) ps)\<rparr>"
  have m: "create_scoring (map pl_id ?known) (map ?f ?known) = Some m"
    unfolding m_def ps_def using nonempty ids score by (intro create_scoring_eq) auto
  have sub: "substr_from 8 (toRawString m) = Inr (drop 8 (toRawString m))"
    by (simp add: substr_from_def toRawString_def m_def)
  have "ps \<noteq> []" using nonempty sort_scores_mset [of "zip (map pl_id ?known) (map ?f ?known)"] unfolding ps_def by force
  then have "harmless (nat (K s)) (nat (N s)) m" by (simp add: m_def harmless_def)
  then have reg: "regular (K s) (N s) (raw_message m)"
    using m unfolding create_scoring_def by (intro created_regular) (simp_all add: Let_def)
  have "fst ` set (players s) \<subseteq> F" using assms(1) by (simp add: safe_def game_ok_def)
  then have "safeR (safe tx b F) (append_to_known (players s) (raw_message m) s)"
    by (rule safe_append_to_known [OF assms(1) _ reg])
  then have "safeR (safe tx b F) (send_scoring_messages s)"
    using loop m sub by (simp add: send_scoring_messages_def)
  then show ?thesis
    unfolding game_over_def by (rule safeR_bindI) (auto simp: safe_def nums_ok_def config_ok_def)
qed

lemma safe_running: "safe tx False F s \<Longrightarrow> total_correct_puts s < M s \<Longrightarrow> safe tx True F s"
  by (simp add: safe_def nums_ok_def)

lemma safe_successful_put:
  assumes "safe tx True F s" and "cfd \<in> F" and "known {cfd} s" and "\<not> put_out_of_range pt v s" and "is_finite v" "canonical v"
    and "\<not> stopping s"
  shows "safeR (\<lambda>(r, s'). safe tx True F s') (successful_put t cfd pt v s)"
proof -
  obtain p where p: "map_of (players s) cfd = Some p" using safe_member [OF assms(1,2)] by blast
  have pk: "is_known p" using assms(3) p by (simp add: known_def)
  have pok: "player_ok s p" and ps: "player_safe (tx cfd) s p"
    using assms(1) game_okD [OF _ p] nums_ok_player [OF _ p] by (auto simp: safe_def)
  have pt: "0 \<le> pt" "nat pt < length (approximations p)"
    using assms(4) pok by (auto simp: put_out_of_range_def player_ok_def)
  define A where "A = (approximations p)[nat pt := dadd (approximations p ! nat pt) v]"
  define q where "q = p\<lparr>correct_puts := correct_puts p + 1, approximations := A\<rparr>"
  define s1 where "s1 = set_player cfd q (s\<lparr>total_correct_puts := total_correct_puts s + 1\<rparr>)"
  have v: "bounded v 6"
    using assms(4-6) in_range_bounded [of v 5]
    by (simp add: put_out_of_range_def min_put_value_def max_put_value_def)
  have cp: "0 \<le> correct_puts p" "correct_puts p \<le> 12341234"
    using correct_puts_bound [OF assms(1) p] assms(1) by (auto simp: safe_def nums_ok_def config_ok_def)
  have "bounded (dadd (approximations p ! nat pt) v) (12 * (correct_puts p + 1))"
    by (rule bounded_dadd [OF _ v, of _ "12 * correct_puts p"]) (use ps pt cp in \<open>auto simp: player_safe_def\<close>)
  then have A: "\<forall>a \<in> set A. bounded a (12 * (correct_puts p + 1))"
    using ps set_update_subset_insert [of "approximations p" "nat pt"] bounded_mono
    unfolding A_def player_safe_def by (fastforce dest!: subsetD)
  have lenA: "length A = nat (K s + 1)" using pok by (simp add: A_def player_ok_def)
  have pq: "player_safe (tx cfd) s q" using ps A by (auto simp: player_safe_def q_def)
  have state: "create_state A = Some \<lparr>raw_message = ''STATE '' @ join_params (map doubleToString A) @ crlf,
      msg_params = map doubleToString A, body = StateMessage (map reread A)\<rparr>"
    using A lenA pt pok assms(1)
    by (intro create_state_eq) (auto simp: list_all_iff bounded_def player_ok_def safe_def nums_ok_def config_ok_def)
  have nums1: "nums_ok tx False s1"
    using assms(1,7) pq unfolding s1_def
    by (intro nums_ok_set_player) (auto simp: safe_def nums_ok_def config_ok_def)
  have "player_ok s q" using pok lenA by (auto simp: player_ok_def q_def)
  then have "game_ok F s1"
    unfolding s1_def by (intro game_ok_correct_put [OF safe_game [OF assms(1)] p]) (simp_all add: q_def)
  with nums1 have s1: "safe tx False F s1" by (simp add: safe_def)
  have k1: "known {cfd} s1" unfolding s1_def using assms(3) pk by (intro known_set_player) (simp_all add: q_def)
  have resp: "safeR (\<lambda>s2. safe tx False F s2 \<and> known {cfd} s2) (respond_with_state t cfd m (println l s1))"
    if "m = ''STATE '' @ u @ crlf" "regular (K s) (N s) m" for m u l
    using s1 k1 that(2) by (intro safeR_okR safe_respond_with_state [OF _ assms(2) that(1)] known_state) (simp_all add: s1_def)
  have "length A = nat (K s) + 1" using lenA assms(1) by (simp add: safe_def nums_ok_def config_ok_def nat_add_distrib)
  then have reg: "regular (K s) (N s) (''STATE '' @ join_params (map doubleToString A) @ crlf)"
    using created_regular [of "''STATE '' @ values_string A" "\<lparr>raw_message = ''STATE '' @ join_params (map doubleToString A) @ crlf,
      msg_params = map doubleToString A, body = StateMessage (map reread A)\<rparr>" "K s" "N s"] state
    by (simp add: create_state_def harmless_def split: if_splits)
  have last: "safeR (\<lambda>(r, s'). safe tx True F s')
      (if M s2 \<le> total_correct_puts s2 then bindR (game_over s2) (\<lambda>s. Inr (True, s)) else Inr (True, s2))"
    if "safe tx False F s2 \<and> known {cfd} s2" for s2
    using that safe_game_over [of tx False F s2 cfd] assms(2) safe_running [of tx F s2] by simp
  show ?thesis
    unfolding successful_put_def
    using p pt state safeR_bindI [OF resp [OF refl reg] last]
    by (simp add: player_def A_def [symmetric] q_def [symmetric] s1_def [symmetric] deref_def substr_from_def toRawString_def
        del: safeR_bind)
qed

lemma safe_put:
  assumes "safe tx True F s" and "cfd \<in> F" and "- (2 ^ 31) \<le> pt" "pt < 2 ^ 31" and "is_finite v" "canonical v" and "\<not> stopping s"
  shows "safeR (\<lambda>(r, s'). safe tx True F s') (server_handle_put t cfd pt v s)"
proof -
  obtain p where p: "map_of (players s) cfd = Some p" using safe_member [OF assms(1,2)] by blast
  have clear: "safeR (safe tx True F) (upd_player cfd (\<lambda>p. p\<lparr>can_put := False\<rparr>) s')" if "safe tx True F s'" for s'
    by (rule safe_upd [OF that assms(2)]) (simp_all add: player_safe_def player_ok_def)
  have bad: "safeR (safe tx True F) (if b then respond_with_bad_put t cfd pt v (println l s') else Inr s')"
    if "safe tx True F s'" for b l s'
    using that safe_respond_with_bad_put [OF _ assms(2-6)] by simp
  have early: "safeR (safe tx True F) (respond_with_penalty cfd pt v (println l s))" for l
    using assms by (intro safe_respond_with_penalty) simp_all
  show ?thesis
  proof (cases "is_known p \<and> can_put p")
    case True
    let ?s = "set_player cfd (p\<lparr>can_put := False\<rparr>) s"
    have s: "safe tx True F ?s" using clear [OF assms(1)] by (simp add: upd_player_def player_def p)
    moreover have "known {cfd} ?s" using True by (simp add: known_def map_of_map_put)
    ultimately have "safeR (\<lambda>(r, s'). safe tx True F s') (successful_put t cfd pt v ?s)" if "\<not> put_out_of_range pt v s"
      using that assms by (intro safe_successful_put) simp_all
    then show ?thesis
      using bad [OF s, of True] True by (simp add: server_handle_put_def upd_player_def player_def p Let_def)
  next
    case False
    show ?thesis
      unfolding server_handle_put_def Let_def
      using False safeR_bindI [OF early safeR_bindI [OF clear safeR_mono [OF bad]]] assms(1)
      by (simp add: player_def p del: safeR_simps(3))
  qed
qed

section \<open>HELLO\<close>

lemma println_coeff_file: "println l s\<lparr>coeff_file := f\<rparr> = println l (s\<lparr>coeff_file := f\<rparr>)"
  by (simp add: println_def)

lemma safe_hello:
  assumes "safe tx b F s" and "cfd \<in> F" and "isAlphanumeric pid" "pid \<noteq> []"
  shows "safeR (\<lambda>(r, s'). safe tx b F s') (server_handle_hello cfd pid s)"
proof -
  obtain p where p: "map_of (players s) cfd = Some p" using safe_member [OF assms(1,2)] by blast
  let ?line = "fst (getline (coeff_file s)) @ [CHR 0x0A]"
  have content: "line_ok (N s) (fst (getline (coeff_file s)))" "file_ok (N s) (snd (getline (coeff_file s)))"
    using assms(1) file_ok_getline [of "N s" "coeff_file s"] by (auto simp: safe_def nums_ok_def)
  have "okR (game_ok F) (bindR (server_handle_hello cfd pid s) (\<lambda>(r, s'). Inr s'))"
    using ok_hello [OF safe_game [OF assms(1)] assms(3,4), of cfd] by (simp add: case_prod_beta')
  moreover have "safeR (nums_ok tx b) (bindR (server_handle_hello cfd pid s) (\<lambda>(r, s'). Inr s'))"
  proof (cases "is_known p \<or> createMessage ?line = None")
    case True
    then show ?thesis using assms(1)
      by (auto simp: server_handle_hello_def player_def p Let_def split_beta safe_def)
  next
    case False
    then obtain m where m: "createMessage ?line = Some m" "\<not> is_known p" by auto
    then obtain cs where cs: "body m = CoeffMessage cs" "int (length cs) = N s + 1"
      using content(1) by (auto simp: line_ok_def split: payload.splits)
    have "nums_ok tx b (s\<lparr>coeff_file := snd (getline (coeff_file s))\<rparr>)"
      using assms(1) content(2) by (auto simp: safe_def nums_ok_def config_ok_def)
    moreover have "player_safe (tx cfd) (s\<lparr>coeff_file := snd (getline (coeff_file s))\<rparr>) (p\<lparr>pl_id := pid, delay := d, is_known := True,
        can_put := True, coefficients := cs, messages := messages p @ [?line]\<rparr>)" for d
    proof -
      have "harmless (nat (K s)) (nat (N s)) m" using cs by (simp add: harmless_def)
      then have "regular (K s) (N s) ?line" using m(1) by (auto simp: regular_def)
      then show ?thesis
        using nums_ok_player [of tx b s cfd p] assms(1) p coeff_message_bounded [OF m(1) cs(1)] cs(2)
        by (simp add: player_safe_def safe_def queue_ok_append)
    qed
    ultimately show ?thesis
      using m cs(1) p createMessage_raw [OF m(1)]
      by (simp add: server_handle_hello_def player_def Let_def split_beta append_message_back_def upd_player_def
          map_of_map_put set_player_println println_coeff_file nums_ok_set_player)
  qed
  ultimately show ?thesis
    by (cases "server_handle_hello cfd pid s") (auto simp: safe_def)
qed

lemma safe_client_message:
  assumes "safe tx True F s" and "cfd \<in> F" and "msg_safe m" and "\<not> stopping s"
  shows "safeR (\<lambda>(r, s'). safe tx True F s') (handle_client_message t cfd m s)"
proof -
  obtain p where p: "map_of (players s) cfd = Some p" using safe_member [OF assms(1,2)] by blast
  show ?thesis
    using assms safe_put [OF assms(1,2) _ _ _ _ assms(4)] safe_hello [OF assms(1,2)]
    by (auto simp: handle_client_message_def player_def p msg_safe_def msg_ok_def split: payload.split)
qed

end
