(* ===== verification/Server_Safety.thy ===== *)
theory Server_Safety
  imports Game_Safety
begin

text \<open>
  The main loop of the server never runs into undefined behaviour, as long as no client sends
  anything but HELLO as its first line: then the code removes the client and goes on with a reference
  into the vector that the removal has invalidated.
\<close>

section \<open>Well-behaved inputs\<close>

text \<open>\<open>send\<close> never reports more bytes than it was given.\<close>

definition sends_ok :: "inputs \<Rightarrow> bool" where
  "sends_ok inp \<longleftrightarrow> (\<forall>cfd n m. send_result inp cfd n m \<le> int (length m))"

text \<open>The first line that is complete after this read, if there is one, is a HELLO.\<close>

definition hello_first :: "string \<Rightarrow> bool" where
  "hello_first buf = (case find_crlf buf of None \<Rightarrow> True
     | Some pos \<Rightarrow> (case createMessageWithCRLF (take pos buf) of None \<Rightarrow> False
         | Some m \<Rightarrow> (case body m of HelloMessage pid \<Rightarrow> True | _ \<Rightarrow> False)))"

definition hello_bytes :: "inputs \<Rightarrow> (int \<times> string) list \<Rightarrow> int \<Rightarrow> bool" where
  "hello_bytes inp bufs cfd = (case received inp cfd of
       Recv_bytes bytes \<Rightarrow> hello_first ((case map_of bufs cfd of None \<Rightarrow> [] | Some b \<Rightarrow> b) @ bytes)
     | _ \<Rightarrow> True)"

definition polite :: "inputs \<Rightarrow> Server \<Rightarrow> int \<Rightarrow> bool" where
  "polite inp w cfd \<longleftrightarrow> known {cfd} (logic w) \<or> hello_bytes inp (client_buffers w) cfd"

section \<open>Steps\<close>

definition server_safe :: "Server \<Rightarrow> bool" where
  "server_safe w \<longleftrightarrow> server_ok w \<and> nums_ok (stream_to w) True (logic w)"

definition ready_from :: "inputs \<Rightarrow> nat \<Rightarrow> Server \<Rightarrow> bool" where
  "ready_from inp i w \<longleftrightarrow> server_safe w \<and>
     (\<forall>j. i \<le> j \<longrightarrow> j < length (poll_fds w) \<longrightarrow> rev_in (poll_fds w ! j) \<longrightarrow> polite inp w (fd (poll_fds w ! j)))"

text \<open>What a step on behalf of the client \<open>cfd\<close> leaves to the others.\<close>

definition spares :: "int \<Rightarrow> Server \<Rightarrow> Server \<Rightarrow> bool" where
  "spares cfd w w' \<longleftrightarrow> (\<forall>c. c \<noteq> cfd \<longrightarrow> (known {c} (logic w) \<longrightarrow> known {c} (logic w')) \<and>
     map_of (client_buffers w') c = map_of (client_buffers w) c)"

lemma spares_refl [simp]: "spares cfd w w"
  by (simp add: spares_def)

lemma spares_trans: "spares cfd w w' \<Longrightarrow> spares cfd w' w'' \<Longrightarrow> spares cfd w w''"
  by (simp add: spares_def)

lemma polite_spares:
  assumes "polite inp w c" and "spares cfd w w'" and "c \<noteq> cfd"
  shows "polite inp w' c"
proof -
  have "map_of (client_buffers w') c = map_of (client_buffers w) c"
    using assms(2,3) by (simp add: spares_def)
  then have "hello_bytes inp (client_buffers w') c = hello_bytes inp (client_buffers w) c"
    unfolding hello_bytes_def by (simp only:)
  then show ?thesis using assms by (auto simp: polite_def spares_def)
qed

lemma server_safe_game: "server_safe w \<Longrightarrow> safe (stream_to w) True (client_fds w) (logic w)"
  by (simp add: server_safe_def safe_def server_ok_def)

lemma server_safe_logic: "server_safe w \<Longrightarrow> safe (stream_to w) True (client_fds w) s \<Longrightarrow> server_safe (w\<lparr>logic := s\<rparr>)"
  by (simp add: server_safe_def safe_def server_ok_logic)

lemma transmit_safe [simp]:
  "polite inp (transmit cfd bs w) = polite inp w" "spares c w (transmit cfd bs w') = spares c w w'"
  by (auto simp: polite_def spares_def fun_eq_iff)

lemma stream_to_transmit: "stream_to (transmit cfd bs w) = (stream_to w)(cfd := stream_to w cfd @ bs)"
  by (auto simp: stream_to_def transmit_def fun_eq_iff map_of_map_put)

lemma server_safe_println: "server_safe w \<Longrightarrow> server_safe (w\<lparr>logic := println l (logic w)\<rparr>)"
  by (simp add: server_safe_def server_ok_println)

lemma map_of_map_erase: "map_of (map_erase k m) x = (if x = k then None else map_of m x)"
  unfolding map_erase_def by (induction m) auto

lemma known_disconnect: "known {c} s \<Longrightarrow> c \<noteq> cfd \<Longrightarrow> okR (known {c}) (handle_client_disconnect cfd s)"
  by (auto simp: handle_client_disconnect_def known_def map_of_map_erase intro!: okR_all [of _ "player _ _"])

text \<open>
  The client goes. What it has been sent may be less than what was taken from its queue: that is so when
  \<open>send\<close> has refused the message.
\<close>

lemma safe_disconnect_cut:
  assumes "server_ok w" and "safe tx True (client_fds w) (logic w)" and "\<And>c. c \<noteq> cfd \<Longrightarrow> tx c = stream_to w c"
    and "sent_ok (K (logic w)) (N (logic w)) (stream_to w)"
    and "0 < i" and "i < length (poll_fds w)" and "fd (poll_fds w ! i) = cfd"
  shows "safeR (\<lambda>w'. server_safe w' \<and> spares cfd w w' \<and> poll_fds w' = remove_nth i (poll_fds w)) (disconnect_client cfd i pid w)"
proof -
  have cfd: "cfd \<in> client_fds w" using client_fdsI [OF assms(5,6)] assms(7) by simp
  let ?w = "\<lambda>s. w\<lparr>logic := s, poll_fds := remove_nth i (poll_fds w), client_buffers := map_erase cfd (client_buffers w)\<rparr>"
  let ?s = "println (''Disconnecting '' @ pid) (logic w)"
  obtain s where s: "handle_client_disconnect cfd ?s = Inr s" "safe tx True (client_fds w - {cfd}) s"
    using safe_disconnect [of tx True "client_fds w" ?s cfd] assms(2) cfd
    by (cases "handle_client_disconnect cfd ?s") (auto simp: handle_client_disconnect_def player_def split: option.splits)
  have "K s = K (logic w)" "N s = N (logic w)"
    using s(1) by (auto simp: handle_client_disconnect_def player_def split: option.splits)
  then have safe: "safe (stream_to w) True (client_fds w - {cfd}) s"
    using assms(3,4) by (intro safe_cong [OF s(2)]) auto
  have eq: "disconnect_client cfd i pid w = Inr (?w s)"
    using s(1) assms(6) by (simp add: disconnect_client_def)
  have "server_ok (?w s)"
    using ok_disconnect_client [of w i cfd pid] assms(1,5-7) by (simp add: eq)
  moreover have "spares cfd w (?w s)"
    using known_disconnect [of _ ?s cfd] s(1) by (auto simp: spares_def map_of_map_erase)
  ultimately show ?thesis using safe by (simp add: eq server_safe_def safe_def)
qed

lemma safe_disconnect_client:
  assumes "server_safe w" and "0 < i" and "i < length (poll_fds w)" and "fd (poll_fds w ! i) = cfd"
  shows "safeR (\<lambda>w'. server_safe w' \<and> spares cfd w w' \<and> poll_fds w' = remove_nth i (poll_fds w)) (disconnect_client cfd i pid w)"
  by (rule safe_disconnect_cut [OF _ server_safe_game [OF assms(1)] refl])
    (use assms in \<open>simp_all add: server_safe_def nums_ok_def\<close>)

lemma ready_disconnect:
  assumes "ready_from inp (Suc i) w" and "spares (fd (poll_fds w ! i)) w w'" and "poll_fds w' = remove_nth i (poll_fds w)"
    and "i < length (poll_fds w)" and "server_safe w'"
  shows "ready_from inp i w'"
  unfolding ready_from_def
proof (intro conjI allI impI)
  fix j
  assume j: "i \<le> j" "j < length (poll_fds w')" "rev_in (poll_fds w' ! j)"
  have nth: "poll_fds w' ! j = poll_fds w ! Suc j" "Suc j < length (poll_fds w)"
    using j(1,2) assms(3,4) by (simp_all add: remove_nth_def nth_append)
  have "distinct (map fd (poll_fds w))"
    using assms(1) by (simp add: ready_from_def server_safe_def server_ok_def)
  then have "fd (poll_fds w ! Suc j) \<noteq> fd (poll_fds w ! i)"
    using nth(2) assms(4) j(1) by (simp add: distinct_conv_nth)
  then show "polite inp w' (fd (poll_fds w' ! j))"
    using polite_spares [OF _ assms(2)] assms(1) nth j(1,3) by (simp add: ready_from_def)
qed (rule assms(5))

lemma ready_same:
  assumes "ready_from inp (Suc i) w" and "spares cfd w w'" and "poll_fds w' = poll_fds w" and "i < length (poll_fds w)"
    and "cfd = fd (poll_fds w ! i)" and "server_safe w'"
  shows "ready_from inp (Suc i) w'"
  unfolding ready_from_def
proof (intro conjI allI impI)
  fix j
  assume j: "Suc i \<le> j" "j < length (poll_fds w')" "rev_in (poll_fds w' ! j)"
  have "distinct (map fd (poll_fds w))"
    using assms(1) by (simp add: ready_from_def server_safe_def server_ok_def)
  then have "fd (poll_fds w ! j) \<noteq> cfd"
    using assms(3-5) j by (auto simp: distinct_conv_nth)
  then show "polite inp w' (fd (poll_fds w' ! j))"
    using polite_spares [OF _ assms(2)] assms(1,3) j by (simp add: ready_from_def)
qed (rule assms(6))

lemma ready_server_safe: "ready_from inp i w \<Longrightarrow> server_safe w"
  by (simp add: ready_from_def)

lemma ready_Suc: "ready_from inp i w \<Longrightarrow> ready_from inp (Suc i) w"
  by (simp add: ready_from_def)

section \<open>Timers\<close>

definition ready_clients :: "inputs \<Rightarrow> Server \<Rightarrow> bool" where
  "ready_clients inp w \<longleftrightarrow> server_safe w \<and> (\<forall>p \<in> set (tl (poll_fds w)). rev_in p \<longrightarrow> polite inp w (fd p))"

lemma ready_clients_iff: "ready_clients inp w \<longleftrightarrow> ready_from inp 1 w"
proof -
  have "(\<forall>p \<in> set (tl ps). P p) \<longleftrightarrow> (\<forall>j. 1 \<le> j \<longrightarrow> j < length ps \<longrightarrow> P (ps ! j))" for ps :: "pollfd list" and P
    by (cases ps) (auto simp: all_set_conv_all_nth nth_Cons' dest: spec [of _ "Suc _"])
  then show ?thesis by (simp add: ready_clients_def ready_from_def)
qed

lemma known_callbacks:
  assumes "known X s"
  shows "okR (known X) (bad_put_callback cfd pt v ip port cid s)" and "okR (known X) (state_callback cfd m ip port cid s)"
proof -
  have can: "okR (known X) (upd_player cfd (\<lambda>p. p\<lparr>can_put := True\<rparr>) s')" if "known X s'" for s'
    using that by (intro known_upd) simp_all
  have "okR (known X) (bindR (upd_player cfd (\<lambda>p. p\<lparr>can_put := True\<rparr>) s) (\<lambda>s.
           bindR (deref (create_bad_put pt v)) (\<lambda>m. append_message_back cfd (raw_message m) s)))"
    unfolding okR_bind
    by (intro okR_mono [OF can [OF assms]]) (auto intro!: okR_all [of _ "deref _"] known_append)
  then show "okR (known X) (bad_put_callback cfd pt v ip port cid s)"
    using assms by (simp add: bad_put_callback_def)
  have "okR (known X) (bindR (append_message_back cfd m s) (\<lambda>s.
           bindR (substr_from 6 (before_crlf m)) (\<lambda>u.
             upd_player cfd (\<lambda>p. p\<lparr>can_put := True\<rparr>)
               (println (''Sending state '' @ u @ '' to '' @ cid @ ''.'') s))))"
    unfolding okR_bind
    by (intro okR_mono [OF known_append [OF assms]]) (auto intro!: okR_all [of _ "substr_from _ _"] can)
  then show "okR (known X) (state_callback cfd m ip port cid s)"
    using assms by (simp add: state_callback_def)
qed

lemma ready_on_logic:
  assumes "ready_clients inp w" and "safeR (safe (stream_to w) True (client_fds w)) (f (logic w))" and "\<And>X. known X (logic w) \<Longrightarrow> okR (known X) (f (logic w))"
  shows "safeR (ready_clients inp) (on_logic f w)"
proof (cases "f (logic w)")
  case (Inr s)
  have "polite inp (w\<lparr>logic := s\<rparr>) c" if "polite inp w c" for c
    using that assms(3) [of "{c}"] by (auto simp: polite_def Inr)
  then have "ready_clients inp (w\<lparr>logic := s\<rparr>)"
    using assms(1,2) server_safe_logic [of w s] by (simp add: ready_clients_def Inr)
  then show ?thesis by (simp add: on_logic_def Inr)
next
  case (Inl e)
  then show ?thesis using assms(2) by (simp add: on_logic_def)
qed

lemma ready_hello_callback:
  assumes "ready_clients inp w"
  shows "safeR (ready_clients inp) (hello_callback cfd ip port w)"
proof (cases "validate_client cfd ip port (logic w)")
  case True
  have ok: "server_ok w" and ss: "server_safe w" using assms by (simp_all add: ready_clients_def server_safe_def)
  obtain p where p: "map_of (players (logic w)) cfd = Some p"
    using True by (auto simp: validate_client_def split: option.splits)
  then have "cfd \<in> client_fds w" using connected_iff [OF ok, of cfd] by simp
  moreover obtain l ps where lps: "poll_fds w = l # ps" using ok by (auto simp: server_ok_def neq_Nil_conv)
  ultimately have in_ps: "cfd \<in> fd ` set (poll_fds w)" and "fd l \<noteq> cfd"
    using ok by (auto simp: client_fds_def server_ok_def)
  let ?i = "index_of_fd cfd (poll_fds w)"
  have i: "0 < ?i" "?i < length (poll_fds w)" "fd (poll_fds w ! ?i) = cfd"
    using index_of_fd_spec [OF in_ps] \<open>fd l \<noteq> cfd\<close> by (auto simp: lps)
  have "server_safe (w\<lparr>logic := println m (logic w)\<rparr>)" for m using ss by (rule server_safe_println)
  then have d: "safeR (\<lambda>w'. server_safe w' \<and> spares cfd (w\<lparr>logic := println m (logic w)\<rparr>) w' \<and>
      poll_fds w' = remove_nth ?i (poll_fds w)) (disconnect_client cfd ?i pid (w\<lparr>logic := println m (logic w)\<rparr>))" for m pid
    using safe_disconnect_client [of "w\<lparr>logic := println m (logic w)\<rparr>" ?i cfd pid] i by simp
  have "safeR (ready_clients inp) (disconnect_client cfd ?i pid (w\<lparr>logic := println m (logic w)\<rparr>))" for m pid
  proof (rule safeR_mono [OF d])
    fix w'
    assume w': "server_safe w' \<and> spares cfd (w\<lparr>logic := println m (logic w)\<rparr>) w' \<and> poll_fds w' = remove_nth ?i (poll_fds w)"
    have sp: "spares cfd w w'" using w' by (simp add: spares_def)
    obtain k where k: "?i = Suc k" using i(1) gr0_conv_Suc by blast
    have "distinct (map fd ps)" using ok by (simp add: server_ok_def lps)
    then have "set (map fd (remove_nth k ps)) = set (map fd ps) - {cfd}"
      using i k unfolding map_remove_nth by (subst set_remove_nth) (simp_all add: lps)
    then have others: "fd q \<noteq> cfd" "q \<in> set ps" if "q \<in> set (remove_nth k ps)" for q
      using that by (auto simp: remove_nth_def dest: in_set_takeD in_set_dropD)
    then show "ready_clients inp w'"
      using w' assms polite_spares [OF _ sp] \<open>fd l \<noteq> cfd\<close> k by (simp add: ready_clients_def lps)
  qed
  then show ?thesis using assms True p by (simp add: hello_callback_def player_def)
qed (simp add: hello_callback_def assms)

text \<open>A callback does not change the parameters of the game.\<close>

lemma config_callbacks: "okR (same_config s) (bad_put_callback cfd pt v ip port cid s)" "okR (same_config s) (state_callback cfd m ip port cid s)"
proof -
  have s: "same_config s s" "same_config s s' \<Longrightarrow> same_config s (println l s')" for s' l by (simp_all add: same_config_def)
  have "okR (same_config s) (bindR (upd_player cfd (\<lambda>p. p\<lparr>can_put := True\<rparr>) s) (\<lambda>s.
           bindR (deref (create_bad_put pt v)) (\<lambda>m. append_message_back cfd (raw_message m) s)))"
    unfolding okR_bind
    by (intro okR_mono [OF config_upd [OF s(1)]]) (auto intro!: okR_all [of _ "deref _"] config_append_back)
  then show "okR (same_config s) (bad_put_callback cfd pt v ip port cid s)" using s(1) by (simp add: bad_put_callback_def)
  have "okR (same_config s) (bindR (append_message_back cfd m s) (\<lambda>s.
           bindR (substr_from 6 (before_crlf m)) (\<lambda>u.
             upd_player cfd (\<lambda>p. p\<lparr>can_put := True\<rparr>)
               (println (''Sending state '' @ u @ '' to '' @ cid @ ''.'') s))))"
    unfolding okR_bind
    by (intro okR_mono [OF config_append_back [OF s(1)]]) (auto intro!: okR_all [of _ "substr_from _ _"] config_upd s(2))
  then show "okR (same_config s) (state_callback cfd m ip port cid s)" using s(1) by (simp add: state_callback_def)
qed

lemma config_disconnect: "okR (\<lambda>w'. same_config (logic w) (logic w')) (disconnect_client cfd i pid w)"
  by (auto simp: disconnect_client_def handle_client_disconnect_def player_def same_config_def split: option.split)

lemma config_call_event: "okR (\<lambda>w'. same_config (logic w) (logic w')) (call_event e w)"
proof (cases e)
  case (Hello_timeout cfd ip port)
  have "okR (\<lambda>w'. same_config (logic w) (logic w')) (disconnect_client cfd i pid (w\<lparr>logic := println l (logic w)\<rparr>))" for i pid l
    using config_disconnect [of "w\<lparr>logic := println l (logic w)\<rparr>" cfd i pid] by (simp add: same_config_def)
  then show ?thesis
    using Hello_timeout by (auto simp: hello_callback_def same_config_def intro!: okR_all [of _ "player _ _"])
qed (use config_callbacks in \<open>auto simp: on_logic_def\<close>)

lemma ready_call_event:
  assumes "ready_clients inp w" and "event_safe (K (logic w)) (N (logic w)) e"
  shows "safeR (ready_clients inp) (call_event e w)"
proof (cases e)
  case (Bad_put_response cfd pt v ip port cid)
  then show ?thesis
    using assms server_safe_game [of w] by (auto simp: ready_clients_def intro!: ready_on_logic safe_callbacks known_callbacks)
next
  case (State_response cfd m ip port cid)
  then show ?thesis
    using assms server_safe_game [of w] by (auto simp: ready_clients_def intro!: ready_on_logic safe_callbacks known_callbacks)
qed (simp add: ready_hello_callback assms)

lemma ready_run_timers:
  "ready_clients inp w \<Longrightarrow> sorted_events evs \<Longrightarrow> \<forall>(d, e) \<in> set evs. event_safe (K (logic w)) (N (logic w)) e \<Longrightarrow>
   safeR (\<lambda>(w', evs'). ready_clients inp w' \<and> sorted_events evs' \<and>
     (\<forall>(d, e) \<in> set evs'. event_safe (K (logic w')) (N (logic w')) e)) (check_timers call_event t evs w)"
proof (induction evs arbitrary: w)
  case (Cons x evs)
  obtain d e where x: "x = (d, e)" by (cases x)
  show ?case
  proof (cases "d \<le> t")
    case True
    have "safeR (\<lambda>w'. ready_clients inp w' \<and> same_config (logic w) (logic w')) (call_event e w)"
      by (rule safeR_okR [OF ready_call_event config_call_event]) (use Cons.prems in \<open>auto simp: x\<close>)
    then have "safeR (\<lambda>(w', evs'). ready_clients inp w' \<and> sorted_events evs' \<and>
          (\<forall>(d, e) \<in> set evs'. event_safe (K (logic w')) (N (logic w')) e))
        (bindR (call_event e w) (check_timers call_event t evs))"
      by (rule safeR_bindI) (use Cons in \<open>auto simp: x same_config_def\<close>)
    then show ?thesis using True by (simp add: x)
  next
    case False
    then show ?thesis using Cons.prems by (simp add: x)
  qed
qed simp

lemma ready_check_timers:
  assumes "ready_clients inp w"
  shows "safeR (ready_clients inp) (server_check_timers t w)"
proof -
  have "sorted_events (events (logic w))" "\<forall>(d, e) \<in> set (events (logic w)). event_safe (K (logic w)) (N (logic w)) e"
    using assms by (auto simp: ready_clients_def server_safe_def server_ok_def game_ok_def nums_ok_def)
  from ready_run_timers [OF assms this]
  show ?thesis
    unfolding server_check_timers_def
    by (rule safeR_bindI) (auto simp: ready_clients_def server_safe_def server_ok_def game_ok_def nums_ok_def config_ok_def
        client_fds_def polite_def)
qed

section \<open>Reading\<close>

lemma handle_line_spares:
  assumes "handle_line t cfd i pid str w = Inr (Still_connected, w')"
  shows "spares cfd w w'"
proof -
  obtain s where s: "(case createMessageWithCRLF str of None \<Rightarrow> Inr (logic w)
      | Some m \<Rightarrow> bindR (handle_client_message t cfd m (logic w)) (\<lambda>(r, s). Inr s)) = Inr s" "w' = w\<lparr>logic := s\<rparr>"
    using assms unfolding handle_line_still_iff by blast
  have "known X s" if "known X (logic w)" for X
  proof (cases "createMessageWithCRLF str")
    case None
    then show ?thesis using s(1) that by simp
  next
    case (Some m)
    then obtain r where "handle_client_message t cfd m (logic w) = Inr (r, s)"
      using s(1) by (auto simp: bindR_eq_Inr)
    then show ?thesis using okR_value [OF known_client_message [OF that, of t cfd m]] by simp
  qed
  then show ?thesis by (simp add: spares_def s(2))
qed

lemma safe_handle_line:
  assumes "server_safe w" and "cfd \<in> client_fds w" and "\<not> stopping (logic w)"
    and "known {cfd} (logic w) \<or> (\<exists>m u. createMessageWithCRLF str = Some m \<and> body m = HelloMessage u)"
  shows "safeR (\<lambda>(e, w'). e = Still_connected \<and> server_safe w') (handle_line t cfd i pid str w)"
proof -
  let ?game = "case createMessageWithCRLF str of None \<Rightarrow> Inr w
        | Some msg \<Rightarrow> bindR (handle_client_message t cfd msg (logic w)) (\<lambda>(r, s). Inr (w\<lparr>logic := s\<rparr>))"
  have "safeR (\<lambda>w'. server_safe w' \<and> known {cfd} (logic w')) ?game"
  proof (cases "createMessageWithCRLF str")
    case None
    then show ?thesis using assms by simp
  next
    case (Some m)
    then have ms: "msg_safe m" by (simp add: createMessageWithCRLF_def createMessage_safe)
    have "safeR (\<lambda>(r, s). safe (stream_to w) True (client_fds w) s) (handle_client_message t cfd m (logic w))"
      by (rule safe_client_message [OF server_safe_game [OF assms(1)] assms(2) ms assms(3)])
    moreover have "okR (\<lambda>(r, s). known {cfd} s) (handle_client_message t cfd m (logic w))"
    proof (cases "known {cfd} (logic w)")
      case True
      then show ?thesis by (rule known_client_message)
    next
      case False
      then obtain u where u: "body m = HelloMessage u" using assms(4) Some by auto
      obtain p where p: "map_of (players (logic w)) cfd = Some p"
        using safe_member [OF server_safe_game [OF assms(1)] assms(2)] by blast
      then have "\<not> is_known p" using False by (simp add: known_def)
      then have "okR (\<lambda>(r, s). r) (server_handle_hello cfd u (logic w))"
        by (auto simp: server_handle_hello_def player_def p Let_def split: option.split payload.split prod.split
            intro!: okR_all [of _ "append_message_back _ _ _"])
      moreover have "okR (\<lambda>(r, s). known {} s \<and> (r \<longrightarrow> known {cfd} s)) (server_handle_hello cfd u (logic w))"
        by (rule known_hello) (simp add: known_def)
      ultimately show ?thesis
        by (cases "server_handle_hello cfd u (logic w)") (auto simp: handle_client_message_def player_def p u)
    qed
    ultimately show ?thesis
      using server_safe_logic [OF assms(1)]
      by (cases "handle_client_message t cfd m (logic w)") (auto simp: Some)
  qed
  then show ?thesis
    unfolding handle_line_def by (rule safeR_bindI) (auto simp: known_def player_def)
qed

lemma server_safe_rebuffer: "server_safe w \<Longrightarrow> cfd \<in> client_fds w \<Longrightarrow> server_safe (rebuffer cfd b w)"
  by (simp add: server_safe_def server_ok_buffers)

lemma safe_read_loop:
  "server_safe w \<Longrightarrow> cfd \<in> client_fds w \<Longrightarrow> \<not> stopping (logic w) \<Longrightarrow> known {cfd} (logic w) \<or> hello_first buf \<Longrightarrow>
   safeR (\<lambda>(e, w'). e = Still_connected \<and> server_safe w' \<and> poll_fds w' = poll_fds w \<and> spares cfd w w')
     (read_loop t cfd i pid buf w)"
proof (induction t cfd i pid buf w rule: read_loop.induct)
  case (1 t cfd i pid buf w)
  have re: "spares cfd w (rebuffer cfd b w)" for b by (simp add: spares_def map_of_map_put)
  show ?case
  proof (cases "find_crlf buf")
    case None
    then show ?thesis
      using server_safe_rebuffer 1(2,3) re by (subst read_loop.simps) simp
  next
    case (Some pos)
    let ?w = "rebuffer cfd (drop (pos + 2) buf) w"
    have line: "safeR (\<lambda>(e, w'). e = Still_connected \<and> server_safe w') (handle_line t cfd i pid (take pos buf) ?w)"
      using 1(2-5) server_safe_rebuffer [of w cfd] Some
      by (intro safe_handle_line) (auto simp: hello_first_def split: option.splits payload.splits)
    show ?thesis
    proof (cases "handle_line t cfd i pid (take pos buf) ?w")
      case (Inr r)
      obtain w' where r: "r = (Still_connected, w')" and w': "server_safe w'"
        using line unfolding Inr by auto
      note still = handle_line_still [OF Inr [unfolded r]]
      have sp: "spares cfd w w'"
        using spares_trans [OF re handle_line_spares [OF Inr [unfolded r]]] .
      have pf: "poll_fds w' = poll_fds w" "client_fds w' = client_fds w"
        using still(3) by (simp_all add: client_fds_def)
      show ?thesis
      proof (cases "stopping (logic w')")
        case True
        then show ?thesis using Inr w' sp pf by (subst read_loop.simps) (simp add: Some r)
      next
        case False
        have "safeR (\<lambda>(e, w''). e = Still_connected \<and> server_safe w'' \<and> poll_fds w'' = poll_fds w' \<and> spares cfd w' w'')
            (read_loop t cfd i pid (drop (pos + 2) buf) w')"
          using 1(1) [OF Some Inr r [symmetric] _ False] False w' pf 1(3) still(4) by simp
        then have "safeR (\<lambda>(e, w''). e = Still_connected \<and> server_safe w'' \<and> poll_fds w'' = poll_fds w \<and> spares cfd w w'')
            (read_loop t cfd i pid (drop (pos + 2) buf) w')"
          by (rule safeR_mono) (use spares_trans [OF sp] pf in auto)
        then show ?thesis using Inr False by (subst read_loop.simps) (simp add: Some r)
      qed
    next
      case (Inl e)
      then show ?thesis using line by (subst read_loop.simps) (simp add: Some)
    qed
  qed
qed

lemma safe_handle_read:
  assumes "ready_from inp i w" and "0 < i" and "i < length (poll_fds w)" and "rev_in (poll_fds w ! i)"
    and "\<not> stopping (logic w)"
  shows "safeR (\<lambda>(b, e, w'). if b then e = Still_connected \<and> server_safe w' \<and> poll_fds w' = poll_fds w \<and> spares (fd (poll_fds w ! i)) w w'
      else ready_from inp i w') (handle_read_from_client inp i w)"
proof -
  let ?cfd = "fd (poll_fds w ! i)"
  have ss: "server_safe w" and pol: "polite inp w ?cfd" using assms by (auto simp: ready_from_def)
  have cfd: "?cfd \<in> client_fds w" using client_fdsI assms(2,3) by blast
  obtain p where p: "map_of (players (logic w)) ?cfd = Some p"
    using safe_member [OF server_safe_game [OF ss] cfd] by blast
  have gone: "safeR (\<lambda>w'. ready_from inp i w') (disconnect_client ?cfd i pid w)" for pid
    by (rule safeR_mono [OF safe_disconnect_client [OF ss assms(2,3) refl]])
      (use ready_disconnect [OF ready_Suc [OF assms(1)] _ _ assms(3)] in auto)
  show ?thesis
  proof (cases "received inp ?cfd")
    case (Recv_bytes bytes)
    let ?buf = "(case map_of (client_buffers w) ?cfd of None \<Rightarrow> [] | Some b \<Rightarrow> b) @ bytes"
    have "known {?cfd} (logic w) \<or> hello_first ?buf"
      using pol by (simp add: polite_def hello_bytes_def Recv_bytes)
    from safe_read_loop [OF ss cfd assms(5) this, of "now inp" i "pl_id p"]
    show ?thesis
      using assms(3) p Recv_bytes
      by (cases "read_loop (now inp) ?cfd i (pl_id p) ?buf w")
        (auto simp: handle_read_from_client_def getClientPlayerID_def player_def Let_def)
  qed (use assms(3) p gone in \<open>auto simp: handle_read_from_client_def getClientPlayerID_def player_def\<close>)
qed

section \<open>Writing\<close>

lemma known_take_next: "known X s \<Longrightarrow> okR (\<lambda>(m, s'). known X s') (take_next_message_str cfd s)"
  by (auto simp: take_next_message_str_def known_def map_of_map_put intro!: ok_player split: list.split)

text \<open>Taking the first message, which counts as sent.\<close>

lemma safe_take_next:
  assumes "safe tx b F s" and "map_of (players s) cfd = Some p" and "messages p = m # ms"
  shows "take_next_message_str cfd s = Inr (m, set_player cfd (p\<lparr>messages := ms\<rparr>) s)"
    and "safe (tx(cfd := tx cfd @ m)) b F (set_player cfd (p\<lparr>messages := ms\<rparr>) s)"
    and "known X s \<Longrightarrow> known X (set_player cfd (p\<lparr>messages := ms\<rparr>) s)"
proof -
  show take: "take_next_message_str cfd s = Inr (m, set_player cfd (p\<lparr>messages := ms\<rparr>) s)"
    using assms(2,3) by (simp add: take_next_message_str_def player_def)
  show "safe (tx(cfd := tx cfd @ m)) b F (set_player cfd (p\<lparr>messages := ms\<rparr>) s)"
    using nums_ok_player [of tx b s cfd p] assms
    by (intro safe_move [OF assms(1,2)] queue_ok_take) (simp add: safe_def player_safe_def)
  show "known X s \<Longrightarrow> known X (set_player cfd (p\<lparr>messages := ms\<rparr>) s)"
    using known_take_next [of X s cfd] by (simp add: take)
qed

lemma known_append_front: "known X s \<Longrightarrow> okR (known X) (append_message_front cfd m s)"
  unfolding append_message_front_def by (rule known_upd) simp_all

lemma spares_logic: "(\<And>X. known X (logic w) \<Longrightarrow> known X s) \<Longrightarrow> spares cfd w (w\<lparr>logic := s\<rparr>)"
  by (simp add: spares_def)

lemma safe_handle_write:
  assumes "ready_from inp (Suc i) w" and "0 < i" and "i < length (poll_fds w)" and "sends_ok inp"
  shows "safeR (\<lambda>(b, w'). ready_from inp (if b then Suc i else i) w') (handle_write_to_client inp i w)"
proof -
  let ?cfd = "fd (poll_fds w ! i)"
  have ss: "server_safe w" using assms(1) by (simp add: ready_from_def)
  have cfd: "?cfd \<in> client_fds w" using client_fdsI assms(2,3) by blast
  note safe = server_safe_game [OF ss]
  obtain p where p: "map_of (players (logic w)) ?cfd = Some p" using safe_member [OF safe cfd] by blast
  show ?thesis
  proof (cases "messages p")
    case Nil
    let ?w = "w\<lparr>poll_fds := (poll_fds w)[i := (poll_fds w ! i)\<lparr>pollout := False\<rparr>]\<rparr>"
    have "map fd ((poll_fds w)[i := (poll_fds w ! i)\<lparr>pollout := False\<rparr>]) = map fd (poll_fds w)"
      using list_update_id [of "map fd (poll_fds w)" i] assms(3) by (simp add: map_update)
    then have "server_ok ?w" using ss by (intro server_ok_poll_fds) (simp_all add: server_safe_def)
    then have "ready_from inp (Suc i) ?w"
      using assms(1) by (auto simp: ready_from_def server_safe_def polite_def)
    then show ?thesis
      using assms(3) p Nil by (simp add: handle_write_to_client_def getClientPlayerID_def has_pending_messages_def player_def)
  next
    case (Cons m ms)
    note next1 = safe_take_next [OF safe p Cons]
    define s where "s = set_player ?cfd (p\<lparr>messages := ms\<rparr>) (logic w)"
    let ?w = "w\<lparr>logic := s\<rparr>"
    have s: "safe ((stream_to w)(?cfd := stream_to w ?cfd @ m)) True (client_fds w) s" unfolding s_def by (rule next1(2))
    have sp1: "spares ?cfd w ?w" unfolding s_def by (rule spares_logic) (rule next1(3))
    have whole: "server_safe (transmit ?cfd m ?w)"
      using s ss by (simp add: server_safe_def safe_def stream_to_transmit server_ok_logic)
    have fin: "ready_from inp (Suc i) (transmit ?cfd m ?w)"
      by (rule ready_same [OF assms(1) _ _ assms(3) refl whole]) (simp_all add: sp1)
    have none: "ready_from inp (Suc i) ?w" if "m = []"
    proof (rule ready_same [OF assms(1) sp1 _ assms(3) refl])
      show "server_safe ?w" using s ss that by (simp add: server_safe_def safe_def server_ok_logic)
    qed simp
    have gone: "safeR (ready_from inp i) (disconnect_client ?cfd i pid ?w)" for pid
    proof (rule safeR_mono [OF safe_disconnect_cut])
      show "ready_from inp i w'" if "server_safe w' \<and> spares ?cfd ?w w' \<and> poll_fds w' = remove_nth i (poll_fds ?w)" for w'
        using that by (intro ready_disconnect [OF assms(1) _ _ assms(3)]) (auto intro: spares_trans [OF sp1])
      show "server_ok ?w" using s ss by (simp add: server_safe_def safe_def server_ok_logic)
      show "safe ((stream_to w)(?cfd := stream_to w ?cfd @ m)) True (client_fds ?w) (logic ?w)" using s by (simp add: client_fds_def)
      show "sent_ok (K (logic ?w)) (N (logic ?w)) (stream_to ?w)" using ss by (simp add: server_safe_def nums_ok_def s_def)
    qed (use assms(2,3) in simp_all)
    have rest: "safeR (ready_from inp (Suc i)) (on_logic (append_message_front ?cfd r) (transmit ?cfd taken ?w))"
      if r: "m = taken @ r" for taken r
    proof -
      define s2 where "s2 = set_player ?cfd (p\<lparr>messages := r # ms\<rparr>) (logic w)"
      have eq: "append_message_front ?cfd r s = Inr s2"
        by (simp add: append_message_front_def upd_player_def player_def s_def s2_def map_of_map_put set_player_twice)
      have "queue_ok (K (logic w)) (N (logic w)) (stream_to w ?cfd @ taken) (r # ms)"
        using nums_ok_player [OF _ p] safe Cons r by (intro queue_ok_part) (auto simp: safe_def player_safe_def)
      then have "safe ((stream_to w)(?cfd := stream_to w ?cfd @ taken)) True (client_fds w) s2"
        unfolding s2_def by (rule safe_move [OF safe p])
      then have "server_safe (transmit ?cfd taken (w\<lparr>logic := s2\<rparr>))"
        using ss by (simp add: server_safe_def safe_def stream_to_transmit server_ok_logic)
      moreover have "known X s2" if "known X (logic w)" for X
        using known_append_front [of X s ?cfd r] next1(3) [OF that] eq by (simp add: s_def)
      ultimately have "ready_from inp (Suc i) (transmit ?cfd taken (w\<lparr>logic := s2\<rparr>))"
        by (intro ready_same [OF assms(1) _ _ assms(3) refl]) (simp_all add: spares_logic)
      then show ?thesis using eq by (simp add: on_logic_def transmit_logic)
    qed
    have "nat (send_result inp ?cfd 0 m) \<le> length m"
      using assms(4) by (simp add: sends_ok_def nat_le_iff)
    then show ?thesis
      using assms(3) p Cons next1(1) fin none gone [of "pl_id p"] rest [OF append_take_drop_id [symmetric]]
      by (auto simp: handle_write_to_client_def write_message_def getClientPlayerID_def has_pending_messages_def player_def Let_def
          s_def [symmetric] simp del: safeR_bind intro!: safeR_bindI)
  qed
qed

section \<open>The loop over the clients\<close>

text \<open>Removing a client and writing do not end the game.\<close>

definition same_end :: "Server \<Rightarrow> Server \<Rightarrow> bool" where
  "same_end w w' \<longleftrightarrow> stopping (logic w') = stopping (logic w)"

lemma same_end_logic: "same_end w (w\<lparr>logic := s\<rparr>) \<longleftrightarrow> stopping s = stopping (logic w)"
  and same_end_fds: "same_end w (w\<lparr>poll_fds := ps\<rparr>)"
  by (simp_all add: same_end_def)

lemma same_end_disconnect:
  "stopping s = stopping (logic w) \<Longrightarrow> okR (same_end w) (disconnect_client cfd i pid (w\<lparr>logic := s\<rparr>))"
  by (auto simp: disconnect_client_def handle_client_disconnect_def player_def same_end_def split: option.split)

lemma same_end_disconnect_now: "okR (same_end w) (disconnect_client cfd i pid w)"
  using same_end_disconnect [of "logic w" w] by (simp add: logic_updates)

lemma same_end_read: "okR (\<lambda>(b, e, w'). \<not> b \<longrightarrow> same_end w w') (handle_read_from_client inp i w)"
proof -
  have "okR (\<lambda>x. True) r" for r :: "'a res" by (rule okR_all) simp
  then show ?thesis
    using same_end_disconnect_now
    by (auto simp: handle_read_from_client_def Let_def split: recv_result.split
        intro!: okR_all [of _ "nth_chk _ _"] okR_all [of _ "getClientPlayerID _ _"] okR_all [of _ "read_loop _ _ _ _ _ _"])
qed

lemma same_end_write: "okR (\<lambda>(b, w'). same_end w w') (handle_write_to_client inp i w)"
proof -
  have took: "okR (\<lambda>(m, s). stopping s = stopping (logic w)) (take_next_message_str cfd (logic w))" for cfd
    by (auto simp: take_next_message_str_def player_def split: option.split list.split)
  have sent: "okR (\<lambda>(b, w'). same_end w w') (write_message inp cfd i pid m (w\<lparr>logic := s\<rparr>))"
    if "stopping s = stopping (logic w)" for cfd pid m s
  proof -
    have "okR (same_end w) (on_logic (append_message_front cfd r) (transmit cfd bs (w\<lparr>logic := s\<rparr>)))" for r bs
      using that by (auto simp: on_logic_def append_message_front_def upd_player_def player_def same_end_def split: option.split)
    then show ?thesis using that same_end_disconnect [OF that] by (simp add: write_message_def Let_def same_end_def [abs_def])
  qed
  have "okR (\<lambda>x. okR (\<lambda>(b, w'). same_end w w') (case x of (m, s) \<Rightarrow> write_message inp cfd i pid m (w\<lparr>logic := s\<rparr>)))
      (take_next_message_str cfd (logic w))" for pid cfd
    by (rule okR_mono [OF took]) (use sent in auto)
  then show ?thesis
    by (auto simp: handle_write_to_client_def same_end_fds intro!: okR_all [of _ "nth_chk _ _"]
        okR_all [of _ "getClientPlayerID _ _"] okR_all [of _ "has_pending_messages _ _"])
qed

lemma safe_clients_loop:
  "ready_from inp i w \<Longrightarrow> 0 < i \<Longrightarrow> sends_ok inp \<Longrightarrow> \<not> stopping (logic w) \<Longrightarrow> safeR server_safe (clients_loop inp i n w)"
proof (induction n arbitrary: i w)
  case (Suc n)
  show ?case
  proof (cases "length (poll_fds w) \<le> i")
    case False
    then have i: "i < length (poll_fds w)" by simp
    let ?cfd = "fd (poll_fds w ! i)"
    have ss: "server_safe w" by (rule ready_server_safe [OF Suc.prems(1)])
    obtain p where p: "map_of (players (logic w)) ?cfd = Some p"
      using safe_member [OF server_safe_game [OF ss] client_fdsI [OF Suc.prems(2) i]] by blast
    have hup: "safeR server_safe (bindR (disconnect_client ?cfd i pid w) (clients_loop inp i n))" for pid
    proof (rule safeR_bindI [OF safeR_okR [OF safe_disconnect_client [OF ss Suc.prems(2) i refl] same_end_disconnect_now]])
      show "safeR server_safe (clients_loop inp i n w')"
        if "(server_safe w' \<and> spares ?cfd w w' \<and> poll_fds w' = remove_nth i (poll_fds w)) \<and> same_end w w'" for w'
        using that Suc.prems ready_disconnect [OF ready_Suc [OF Suc.prems(1)] _ _ i, of w'] by (intro Suc.IH) (auto simp: same_end_def)
    qed
    have wr: "safeR server_safe (bindR (handle_write_to_client inp i w') (\<lambda>(ok, w). clients_loop inp (if ok then Suc i else i) n w))"
      if "ready_from inp (Suc i) w'" "poll_fds w' = poll_fds w" "\<not> stopping (logic w')" for w'
    proof (rule safeR_bindI [OF safeR_okR [OF safe_handle_write [OF that(1) Suc.prems(2) _ Suc.prems(3)] same_end_write]])
      show "safeR server_safe (case x of (ok, w) \<Rightarrow> clients_loop inp (if ok then Suc i else i) n w)"
        if "(case x of (b, w') \<Rightarrow> ready_from inp (if b then Suc i else i) w') \<and> (case x of (b, w'') \<Rightarrow> same_end w' w'')" for x
        using that \<open>\<not> stopping (logic w')\<close> Suc.prems(2,3) by (auto simp: same_end_def intro!: Suc.IH)
    qed (use i that(2) in simp)
    have rd: "safeR (\<lambda>(b, e, w'). (if b then e = Still_connected \<and> ready_from inp (Suc i) w' \<and> poll_fds w' = poll_fds w
          else ready_from inp i w' \<and> \<not> stopping (logic w')))
        (if rev_in (poll_fds w ! i) then handle_read_from_client inp i w else Inr (True, Still_connected, w))"
    proof (cases "rev_in (poll_fds w ! i)")
      case True
      have "safeR (\<lambda>(b, e, w'). (if b then e = Still_connected \<and> ready_from inp (Suc i) w' \<and> poll_fds w' = poll_fds w
          else ready_from inp i w' \<and> \<not> stopping (logic w'))) (handle_read_from_client inp i w)"
        by (rule safeR_mono [OF safeR_okR [OF safe_handle_read [OF Suc.prems(1,2) i True Suc.prems(4)] same_end_read]])
          (use Suc.prems(4) ready_same [OF ready_Suc [OF Suc.prems(1)] _ _ i refl] in \<open>auto simp: same_end_def split: if_splits\<close>)
      then show ?thesis using True by simp
    qed (use Suc.prems ready_Suc in simp)
    have body: "safeR server_safe (bindR (if rev_in (poll_fds w ! i) then handle_read_from_client inp i w else Inr (True, Still_connected, w))
            (\<lambda>(ok, e, w).
              if \<not> ok then clients_loop inp i n w
              else if stopping (logic w) then Inr w
              else if e = Removed then Inl Undefined
              else if rev_out (poll_fds w0 ! i)
              then bindR (handle_write_to_client inp i w) (\<lambda>(ok, w).
                     clients_loop inp (if ok then Suc i else i) n w)
              else clients_loop inp (Suc i) n w))" for w0
      by (rule safeR_bindI [OF rd])
        (use wr Suc.IH Suc.prems(2,3) ready_server_safe in \<open>auto split: if_splits simp del: safeR_bind\<close>)
    show ?thesis
    proof (cases "rev_hup (poll_fds w ! i)")
      case True
      then show ?thesis
        using hup [of "pl_id p"] p False by (simp add: Let_def getClientPlayerID_def player_def del: safeR_bind)
    next
      case nohup: False
      show ?thesis
        using body [of w] by (simp only: clients_loop.simps Let_def False nohup if_False)
    qed
  qed (use Suc.prems in \<open>simp add: ready_server_safe\<close>)
qed (simp add: ready_server_safe)

section \<open>The end of a game\<close>

text \<open>
  While the queues are flushed, what is left of a message that was sent in part is given up: the streams of
  the clients \<open>X\<close> are still whole, the others are cut.
\<close>

definition flushing :: "int set \<Rightarrow> Server \<Rightarrow> bool" where
  "flushing X w \<longleftrightarrow> server_ok w \<and> sent_ok (K (logic w)) (N (logic w)) (stream_to w) \<and>
     (\<exists>tx. safe tx True (client_fds w) (logic w) \<and> (\<forall>c \<in> X. tx c = stream_to w c))"

lemma flushing_start: "server_safe w \<Longrightarrow> flushing X w"
  using server_safe_game [of w] by (auto simp: flushing_def server_safe_def nums_ok_def)

lemma safe_flush_client:
  "flushing (insert cfd X) w \<Longrightarrow> cfd \<in> client_fds w \<Longrightarrow> cfd \<notin> X \<Longrightarrow>
   safeR (\<lambda>w'. flushing X w' \<and> poll_fds w' = poll_fds w) (flush_client inp cfd n fuel w)"
proof (induction fuel arbitrary: n w)
  case 0
  then show ?case by (auto simp: flushing_def)
next
  case (Suc fuel)
  obtain tx where tx: "safe tx True (client_fds w) (logic w)" "\<forall>c \<in> insert cfd X. tx c = stream_to w c"
    using Suc.prems(1) by (auto simp: flushing_def)
  obtain p where p: "map_of (players (logic w)) cfd = Some p" using safe_member [OF tx(1) Suc.prems(2)] by blast
  show ?case
  proof (cases "messages p")
    case Nil
    then show ?thesis using Suc.prems p by (auto simp: has_pending_messages_def player_def flushing_def)
  next
    case (Cons m ms)
    note next1 = safe_take_next [OF tx(1) p Cons]
    let ?s = "set_player cfd (p\<lparr>messages := ms\<rparr>) (logic w)"
    let ?w = "w\<lparr>logic := ?s\<rparr>"
    have ok: "server_ok ?w" using Suc.prems(1) next1(2) by (simp add: flushing_def safe_def server_ok_logic)
    have old: "sent_ok (K (logic w)) (N (logic w)) (stream_to w)" using Suc.prems(1) by (simp add: flushing_def)
    have sent: "sent_ok (K (logic w)) (N (logic w)) ((stream_to w)(cfd := stream_to w cfd @ bs))" if "m = bs @ rest" for bs rest
    proof -
      have "sent_ok (K (logic w)) (N (logic w)) (tx(cfd := tx cfd @ m))"
        using next1(2) by (simp add: safe_def nums_ok_def)
      then obtain ls u where ls: "list_all (regular (K (logic w)) (N (logic w))) ls" "(tx(cfd := tx cfd @ m)) cfd @ u = concat ls"
        unfolding sent_ok_def by blast
      show ?thesis by (rule sent_ok_put [OF old ls(1), of _ "rest @ u"]) (use ls(2) tx(2) that in simp)
    qed
    have cut: "flushing X (transmit cfd bs ?w)" if "m = bs @ rest" for bs rest
      using ok sent [OF that] next1(2) tx(2) Suc.prems(3) unfolding flushing_def
      by (auto simp: stream_to_transmit intro!: exI [of _ "tx(cfd := tx cfd @ m)"])
    have full: "flushing (insert cfd X) (transmit cfd m ?w)"
      using ok sent [of m "[]"] next1(2) tx(2) unfolding flushing_def
      by (auto simp: stream_to_transmit intro!: exI [of _ "tx(cfd := tx cfd @ m)"])
    have none: "flushing X ?w" if "m = []"
      using ok old next1(2) tx(2) that unfolding flushing_def by (auto intro!: exI [of _ "tx(cfd := tx cfd @ m)"])
    have "safeR (\<lambda>w'. flushing X w' \<and> poll_fds w' = poll_fds w) (flush_client inp cfd (Suc n) fuel (transmit cfd m ?w))"
      using Suc.IH [OF full, of "Suc n"] Suc.prems(2,3) by simp
    then show ?thesis
      using Suc.prems p Cons next1(1) none cut [OF append_take_drop_id [symmetric]]
      by (simp add: has_pending_messages_def player_def Let_def)
  qed
qed

lemma safe_flush_all:
  "flushing (fd ` set ps) w \<Longrightarrow> fd ` set ps \<subseteq> client_fds w \<Longrightarrow> distinct (map fd ps) \<Longrightarrow>
   safeR (\<lambda>w'. flushing {} w' \<and> poll_fds w' = poll_fds w) (flush_all inp ps w)"
proof (induction ps arbitrary: w)
  case (Cons p ps)
  obtain tx where "safe tx True (client_fds w) (logic w)" using Cons.prems(1) by (auto simp: flushing_def)
  then obtain q where q: "map_of (players (logic w)) (fd p) = Some q"
    using safe_member [of tx True "client_fds w" "logic w" "fd p"] Cons.prems(2) by auto
  have "safeR (\<lambda>w'. flushing {} w' \<and> poll_fds w' = poll_fds w) (bindR (flush_client inp (fd p) 0 n w) (flush_all inp ps))" for n
  proof (rule safeR_bindI [OF safe_flush_client [of "fd p" "fd ` set ps"]])
    show "safeR (\<lambda>w''. flushing {} w'' \<and> poll_fds w'' = poll_fds w) (flush_all inp ps w')"
      if "flushing (fd ` set ps) w' \<and> poll_fds w' = poll_fds w" for w'
      using Cons.IH [of w'] that Cons.prems(2,3) by (simp add: client_fds_def)
  qed (use Cons.prems in auto)
  then show ?case using q by (simp add: player_def del: safeR_bind)
qed simp

lemma safe_reset_server:
  assumes "server_safe w"
  shows "safeR server_safe (bindR (reset_server inp w) (\<lambda>w. Inr (w\<lparr>logic := server_reset (logic w)\<rparr>)))"
proof -
  let ?P = "\<lambda>w. nums_ok (stream_to w) True (logic w)"
  have "distinct (map fd (tl (poll_fds w)))" using assms by (cases "poll_fds w") (auto simp: server_safe_def server_ok_def)
  moreover have "drop 1 (poll_fds w) = tl (poll_fds w)" by (simp add: drop_Suc)
  ultimately have flushed: "safeR (\<lambda>w'. flushing {} w' \<and> poll_fds w' = poll_fds w) (flush_all inp (drop 1 (poll_fds w)) w)"
    using flushing_start [OF assms] by (intro safe_flush_all) (auto simp: client_fds_def)
  have end_ok: "?P (w'\<lparr>poll_fds := take 1 (poll_fds w'), client_buffers := [], logic := server_reset (logic w')\<rparr>)"
    if f: "flushing {} w'" for w'
  proof -
    obtain tx where tx: "safe tx True (client_fds w') (logic w')" using f by (auto simp: flushing_def)
    have "safe (stream_to w') True {} (server_reset (logic w'))"
      by (rule safe_cong [OF safe_reset [OF tx]]) (use f in \<open>simp_all add: flushing_def server_reset_def\<close>)
    then show ?thesis by (simp add: safe_def)
  qed
  have "safeR (\<lambda>w'. ?P (w'\<lparr>poll_fds := take 1 (poll_fds w'), client_buffers := [], logic := server_reset (logic w')\<rparr>))
      (flush_all inp (drop 1 (poll_fds w)) w)"
    by (rule safeR_mono [OF flushed], rule end_ok, elim conjE)
  then have "safeR ?P (bindR (reset_server inp w) (\<lambda>w. Inr (w\<lparr>logic := server_reset (logic w)\<rparr>)))"
    by (simp add: reset_server_def)
  moreover have "server_ok w" using assms by (simp add: server_safe_def)
  ultimately have "safeR (\<lambda>w. ?P w \<and> server_ok w) (bindR (reset_server inp w) (\<lambda>w. Inr (w\<lparr>logic := server_reset (logic w)\<rparr>)))"
    by (intro safeR_okR ok_reset)
  then show ?thesis by (rule safeR_mono) (simp add: server_safe_def)
qed

section \<open>Iterations\<close>

lemma safe_mark_pollout:
  "\<forall>p \<in> set ps. fd p \<in> F \<Longrightarrow> safe tx b F s \<Longrightarrow>
   safeR (\<lambda>ps'. map fd ps' = map fd ps \<and> map rev_in ps' = map rev_in ps) (mark_pollout s ps)"
proof (induction ps)
  case (Cons p ps)
  obtain q where q: "map_of (players s) (fd p) = Some q" using safe_member [of tx b F s "fd p"] Cons.prems by auto
  have "safeR (\<lambda>ps'. map fd ps' = map fd ps \<and> map rev_in ps' = map rev_in ps) (mark_pollout s ps)"
    using Cons by simp
  then show ?case using q
    by (cases "mark_pollout s ps") (auto simp: has_pending_messages_def player_def)
qed simp

lemma ready_clients_poll_fds:
  assumes "ready_clients inp w" and "map fd ps = map fd (tl (poll_fds w))" and "map rev_in ps = map rev_in (tl (poll_fds w))"
  shows "ready_clients inp (w\<lparr>poll_fds := take 1 (poll_fds w) @ ps\<rparr>)"
proof -
  have ok: "server_ok w" using assms(1) by (simp add: ready_clients_def server_safe_def)
  then obtain l qs where lqs: "poll_fds w = l # qs" by (auto simp: server_ok_def neq_Nil_conv)
  have "server_ok (w\<lparr>poll_fds := take 1 (poll_fds w) @ ps\<rparr>)"
    by (rule server_ok_poll_fds [OF ok]) (use assms(2) in \<open>simp add: lqs\<close>)
  moreover have "\<forall>p \<in> set ps. rev_in p \<longrightarrow> polite inp w (fd p)"
  proof
    fix p
    assume "p \<in> set ps"
    then obtain j where j: "j < length ps" "p = ps ! j" by (auto simp: in_set_conv_nth)
    have "length qs = length ps" using assms(2) lqs by (metis length_map list.sel(3))
    moreover have "map fd qs ! j = map fd ps ! j" "map rev_in qs ! j = map rev_in ps ! j"
      using assms(2,3) by (simp_all add: lqs)
    ultimately have "fd (qs ! j) = fd p" "rev_in (qs ! j) = rev_in p" "qs ! j \<in> set qs"
      using j by simp_all
    then show "rev_in p \<longrightarrow> polite inp w (fd p)" using assms(1) by (simp add: ready_clients_def lqs) metis
  qed
  ultimately show ?thesis
    using assms(1) by (simp add: ready_clients_def server_safe_def lqs polite_def)
qed

lemma ready_new_connection:
  assumes "ready_clients inp w" and "fresh_fd inp w"
  shows "ready_clients inp (handle_new_connection inp w)"
proof (cases "accepted inp")
  case (Some a)
  obtain cfd ip port where a: "a = (cfd, ip, port)" by (cases a)
  have ss: "server_safe w" and ok: "server_ok w" using assms(1) by (simp_all add: ready_clients_def server_safe_def)
  then obtain l ps where lps: "poll_fds w = l # ps" by (auto simp: server_ok_def neq_Nil_conv)
  have new: "cfd \<notin> client_fds w" "\<forall>p \<in> set ps. fd p \<noteq> cfd"
    using assms(2) by (auto simp: fresh_fd_def Some a client_fds_def lps)
  have ok': "server_ok (handle_new_connection inp w)" by (rule ok_new_connection [OF ok assms(2)])
  let ?tx = "(stream_to w)(cfd := [])"
  have "sent_ok (K (logic w)) (N (logic w)) ?tx"
    using ss by (intro sent_ok_put [of _ _ _ "[]" _ "[]"]) (simp_all add: server_safe_def nums_ok_def)
  then have "safe ?tx True (client_fds w) (logic w)" using new(1) by (intro safe_cong [OF server_safe_game [OF ss]]) auto
  then have "nums_ok ?tx True (register_new_client cfd ip port (logic w))"
    using safe_register [of ?tx True "client_fds w" "logic w" cfd ip port] new(1) by (simp add: safe_def)
  moreover have "stream_to (handle_new_connection inp w) = ?tx"
    by (simp add: handle_new_connection_def Some a Let_def stream_to_def map_of_map_put fun_eq_iff)
  ultimately have "nums_ok (stream_to (handle_new_connection inp w)) True (logic (handle_new_connection inp w))"
    by (simp add: handle_new_connection_def Some a Let_def nums_ok_event)
  moreover have "spares cfd w (handle_new_connection inp w)"
    by (auto simp: spares_def handle_new_connection_def Some a Let_def map_of_map_put known_def register_new_client_def)
  then have "\<forall>p \<in> set ps. rev_in p \<longrightarrow> polite inp (handle_new_connection inp w) (fd p)"
    using assms(1) new(2) polite_spares unfolding ready_clients_def lps by (metis list.sel(3))
  ultimately show ?thesis
    using ok' by (auto simp: ready_clients_def server_safe_def handle_new_connection_def Some a Let_def lps new_pollfd_def)
qed (simp add: handle_new_connection_def assms)

text \<open>
  What an iteration relies on: \<open>send\<close> and \<open>accept\<close> do as documented, and a client that is readable and
  not yet known has sent nothing before its HELLO.
\<close>

definition good_inputs :: "inputs \<Rightarrow> Server \<Rightarrow> bool" where
  "good_inputs inp w \<longleftrightarrow> sends_ok inp \<and> fresh_accept inp w \<and>
     (\<forall>p \<in> set (tl (poll_fds w)). re_in inp (fd p) \<longrightarrow> polite inp w (fd p))"

lemma ready_polled:
  assumes "server_safe w" and "good_inputs inp w"
  shows "ready_clients inp (polled inp w)"
proof -
  have "server_ok (polled inp w)" using assms(1) by (simp add: server_safe_def ok_polled)
  then show ?thesis
    using assms by (auto simp: ready_clients_def server_safe_def good_inputs_def polled_def poll_one_def polite_def map_tl [symmetric])
qed

lemma same_end_timers:
  "okR (\<lambda>(w', evs'). same_end w w') (check_timers call_event t evs w)"
proof (induction evs arbitrary: w)
  case (Cons x evs)
  obtain d e where x: "x = (d, e)" by (cases x)
  have ev: "okR (same_end w) (call_event e w)"
  proof (cases e)
    case (Bad_put_response cfd pt v ip port cid)
    then show ?thesis
      by (auto simp: on_logic_def bad_put_callback_def upd_player_def player_def append_message_back_def same_end_logic
          deref_def split: option.split)
  next
    case (State_response cfd m ip port cid)
    then show ?thesis
      by (auto simp: on_logic_def state_callback_def upd_player_def player_def append_message_back_def same_end_logic
          substr_from_def split: option.split)
  next
    case (Hello_timeout cfd ip port)
    then show ?thesis
      using same_end_disconnect by (auto simp: hello_callback_def player_def same_end_def split: option.split)
  qed
  have "okR (\<lambda>(w', evs'). same_end w w') (bindR (call_event e w) (check_timers call_event t evs))"
    unfolding okR_bind
  proof (rule okR_mono [OF ev])
    show "okR (\<lambda>(w'', evs'). same_end w w'') (check_timers call_event t evs w')" if "same_end w w'" for w'
      using Cons.IH [of w'] that by (simp add: same_end_def)
  qed
  then show ?case by (simp add: x same_end_def)
qed (simp add: same_end_def)

lemma safe_server_iteration:
  assumes "server_safe w" and "good_inputs inp w"
  shows "safeR server_safe (server_iteration inp w)"
proof -
  let ?w = "polled inp w"
  have r: "ready_clients inp ?w" by (rule ready_polled [OF assms])
  then have ss: "server_safe ?w" by (simp add: ready_clients_def)
  have fresh: "okR (fresh_fd inp) (server_check_timers (now inp) ?w)"
    using assms(2) by (simp add: good_inputs_def fresh_accept_def okR_def)
  have same: "okR (same_end ?w) (server_check_timers (now inp) ?w)"
    unfolding server_check_timers_def okR_bind
    by (rule okR_mono [OF same_end_timers]) (auto simp: same_end_def)
  have timers: "safeR (\<lambda>w'. (ready_clients inp w' \<and> fresh_fd inp w') \<and> same_end ?w w') (server_check_timers (now inp) ?w)"
    by (intro safeR_okR ready_check_timers r fresh same)
  have clients: "safeR server_safe (bindR (mark_pollout (logic w') (drop 1 (poll_fds w'))) (\<lambda>ps.
          let w = w'\<lparr>poll_fds := take 1 (poll_fds w') @ ps\<rparr> in
          if ready inp = 0 then Inr w
          else
            let w = (if rev_in (hd (poll_fds w)) then handle_new_connection inp w else w)
            in clients_loop inp 1 (length (poll_fds w)) w))"
    if w': "ready_clients inp w'" "fresh_fd inp w'" "\<not> stopping (logic w')" for w'
  proof (rule safeR_bindI [OF safe_mark_pollout])
    show "\<forall>p \<in> set (drop 1 (poll_fds w')). fd p \<in> client_fds w'" by (simp add: client_fds_def drop_Suc)
    show "safe (stream_to w') True (client_fds w') (logic w')" using w'(1) by (simp add: ready_clients_def server_safe_game)
    fix ps
    let ?v = "w'\<lparr>poll_fds := take 1 (poll_fds w') @ ps\<rparr>"
    assume ps: "map fd ps = map fd (drop 1 (poll_fds w')) \<and> map rev_in ps = map rev_in (drop 1 (poll_fds w'))"
    then have v: "ready_clients inp ?v"
      by (intro ready_clients_poll_fds [OF w'(1)]) (simp_all add: drop_Suc)
    have "map fd (take 1 (poll_fds w') @ ps) = map fd (poll_fds w')"
      using ps by (metis append_take_drop_id map_append)
    then have f: "fresh_fd inp ?v" using w'(2) fresh_fd_cong by blast
    define v where "v = (if rev_in (hd (poll_fds ?v)) then handle_new_connection inp ?v else ?v)"
    have "ready_clients inp v" unfolding v_def using v f ready_new_connection by simp
    moreover have "\<not> stopping (logic v)"
      using w'(3) by (auto simp: v_def handle_new_connection_def Let_def register_new_client_def split: option.split)
    ultimately have "safeR server_safe (clients_loop inp 1 (length (poll_fds v)) v)"
      using assms(2) by (intro safe_clients_loop) (simp_all add: ready_clients_iff good_inputs_def)
    then show "safeR server_safe (let w = ?v in
          if ready inp = 0 then Inr w
          else
            let w = (if rev_in (hd (poll_fds w)) then handle_new_connection inp w else w)
            in clients_loop inp 1 (length (poll_fds w)) w)"
      using v unfolding Let_def v_def by (simp add: ready_clients_def)
  qed
  have run: "safeR server_safe (bindR (server_check_timers (now inp) ?w) (\<lambda>w'.
        bindR (mark_pollout (logic w') (drop 1 (poll_fds w'))) (\<lambda>ps.
          let w = w'\<lparr>poll_fds := take 1 (poll_fds w') @ ps\<rparr> in
          if ready inp = 0 then Inr w
          else
            let w = (if rev_in (hd (poll_fds w)) then handle_new_connection inp w else w)
            in clients_loop inp 1 (length (poll_fds w)) w)))" if "\<not> stopping (logic ?w)"
    by (rule safeR_bindI [OF timers]) (use that clients in \<open>auto simp: same_end_def\<close>)
  show ?thesis
    unfolding server_iteration_def polled_def [symmetric] Let_def [of "polled inp w"]
    using run safe_reset_server [OF ss] by (simp del: safeR_bind)
qed

end
