(* ===== verification/Server_Theorems.thy ===== *)
theory Server_Theorems
  imports Server_Safety
begin

text \<open>
  The properties of the running server: the state it keeps, its safety over whole runs, and what goes
  wrong when a client does not start with HELLO.
\<close>

section \<open>Runs\<close>

fun server_run :: "inputs list \<Rightarrow> Server \<Rightarrow> Server res" where
  "server_run [] w = Inr w"
| "server_run (inp # inps) w = bindR (server_iteration inp w) (server_run inps)"

fun inputs_ok :: "inputs list \<Rightarrow> Server \<Rightarrow> bool" where
  "inputs_ok [] w \<longleftrightarrow> True"
| "inputs_ok (inp # inps) w \<longleftrightarrow> good_inputs inp w \<and>
     (case server_iteration inp w of Inl e \<Rightarrow> True | Inr w' \<Rightarrow> inputs_ok inps w')"

lemma safe_server_run: "server_safe w \<Longrightarrow> inputs_ok inps w \<Longrightarrow> safeR server_safe (server_run inps w)"
proof (induction inps arbitrary: w)
  case (Cons inp inps)
  have step: "safeR server_safe (server_iteration inp w)"
    using safe_server_iteration Cons.prems by simp
  then show ?case using Cons by (cases "server_iteration inp w") simp_all
qed simp

lemma stream_to_none: "transmitted w = [] \<Longrightarrow> stream_to w = (\<lambda>c. [])"
  by (simp add: stream_to_def fun_eq_iff)

lemma server_start_safe:
  assumes "server_start k n m (Some content) lfd = Inr w" and "0 \<le> k" "k \<le> 10000" and "0 \<le> n" "n \<le> 8" and "1 \<le> m" "m \<le> 12341234"
    and "file_ok n content"
  shows "server_safe w"
  using assms
  by (auto simp: server_start_def server_init_def server_safe_def server_ok_def game_ok_def nums_ok_def config_ok_def
      client_fds_def stream_to_none)

text \<open>
  C3: The server is never in undefined behaviour. Let it be started with parameters in the ranges that
  its parser of arguments admits and with a file in which every line that is a message is COEFF with
  \<open>N + 1\<close> coefficients. Then in any run, with any number of clients, any bytes, any partial writes,
  hang-ups, failed reads and any clock: no list is accessed out of range, no null message is
  dereferenced, no operation is called for a client that has left, no string is cut behind its end,
  provided that \<open>send\<close> does not report more bytes than it got, \<open>accept\<close> returns descriptors that are
  not open, and the first line of every client is a HELLO. (The server may exit, when the file has no
  more coefficients or \<open>poll\<close> fails.)
\<close>

theorem server_never_undefined:
  assumes "server_start k n m (Some content) lfd = Inr w" and "0 \<le> k" "k \<le> 10000" and "0 \<le> n" "n \<le> 8" and "1 \<le> m" "m \<le> 12341234"
    and "file_ok n content" and "inputs_ok inps w"
  shows "server_run inps w \<noteq> Inl Undefined"
  using safe_server_run [OF server_start_safe [OF assms(1-8)] assms(9)] by (rule safeR_not_undefined)

definition quiet :: inputs where
  "quiet = \<lparr>ready = 1, re_hup = \<lambda>_. False, re_in = \<lambda>_. False, re_out = \<lambda>_. False, accepted = None,
     received = \<lambda>_. Recv_closed, send_result = \<lambda>_ _ m. int (length m), now = 0\<rparr>"

definition example_inputs :: "inputs list" where
  "example_inputs = [quiet\<lparr>re_in := \<lambda>c. c = 3, accepted := Some (4, ''127.0.0.1'', 40000)\<rparr>,
     quiet\<lparr>re_in := \<lambda>c. c = 4, received := \<lambda>_. Recv_bytes ''HEL''\<rparr>]"

lemmas iteration_simps = server_iteration_def Let_def poll_one_def new_pollfd_def server_check_timers_def
  handle_new_connection_def register_new_client_def hello_wait_time_def set_player_def println_def clients_loop.simps

theorem server_never_undefined_witness:
  "\<exists>w. server_start 1 1 1 (Some '''') 3 = Inr w \<and> inputs_ok example_inputs w \<and> server_run example_inputs w \<noteq> Inl Undefined"
proof -
  define w where "w = projr (server_start 1 1 1 (Some '''') 3)"
  have start: "server_start 1 1 1 (Some '''') 3 = Inr w" by (simp add: w_def server_start_def server_init_def)
  have content: "file_ok 1 ''''" by (simp add: file_ok_def line_ok_def createMessage_def)
  have sends: "sends_ok (quiet\<lparr>re_in := r, accepted := a\<rparr>)" "sends_ok (quiet\<lparr>re_in := r, received := b\<rparr>)" for r a b
    by (simp_all add: sends_ok_def quiet_def)
  define w1 where "w1 = projr (server_iteration (hd example_inputs) w)"
  have step: "server_iteration (hd example_inputs) w = Inr w1"
    by (simp add: w1_def w_def example_inputs_def quiet_def server_start_def server_init_def iteration_simps)
  have "good_inputs (hd example_inputs) w"
    using sends by (simp add: good_inputs_def example_inputs_def w_def server_start_def server_init_def
      fresh_accept_def polled_def server_check_timers_def fresh_fd_def new_pollfd_def poll_one_def quiet_def)
  moreover have "good_inputs (hd (tl example_inputs)) w1"
    using sends by (simp add: w1_def w_def good_inputs_def example_inputs_def server_start_def server_init_def
      iteration_simps fresh_accept_def polled_def fresh_fd_def quiet_def polite_def hello_bytes_def hello_first_def seconds_def)
  ultimately have inputs: "inputs_ok example_inputs w"
    using step by (simp add: example_inputs_def split: sum.split)
  from server_never_undefined [OF start _ _ _ _ _ _ content inputs] start inputs show ?thesis by auto
qed

section \<open>The state between iterations\<close>

text \<open>
  C13: In every state between two iterations of the main loop, whatever the clients do, the first
  element of the vector of descriptors is the listening socket's, every descriptor is in it once, the
  players are exactly the clients of the vector, the number of puts of the game is the sum over the
  connected players, every player has an approximation for each point \<open>0..K\<close>, every known player an
  alphanumeric id, and the timers are in the order of their deadlines.
\<close>

theorem server_state_invariant:
  assumes "server_reachable w"
  shows "poll_fds w \<noteq> [] \<and> distinct (map fd (poll_fds w)) \<and>
    fst ` set (players (logic w)) = fd ` set (tl (poll_fds w)) \<and>
    total_correct_puts (logic w) = sum_list (map (correct_puts \<circ> snd) (players (logic w))) \<and>
    sorted (map fst (events (logic w))) \<and>
    (\<forall>(cfd, p) \<in> set (players (logic w)). length (approximations p) = nat (K (logic w) + 1) \<and>
       (is_known p \<longrightarrow> isAlphanumeric (pl_id p)))"
  using reachable_server_ok [OF assms]
  by (auto simp: server_ok_def game_ok_def client_fds_def total_of_def sorted_events_def player_ok_def)

theorem server_state_invariant_witness:
  "\<exists>w. server_reachable w \<and> distinct (map fd (poll_fds w))"
proof -
  have "server_reachable (projr (server_start 1 1 1 (Some '''') 3))"
    by (rule server_reachable.start [of 1 1 1 "Some ''''" 3]) (simp add: server_start_def server_init_def)
  with server_state_invariant [OF this] show ?thesis by blast
qed

section \<open>The range of a PUT\<close>

text \<open>
  The tolerance in the range check of a PUT is exact: a decimal with at most seven fractional digits
  is in range exactly when its value lies between -5 and 5, and the point when it is one of \<open>0..K\<close>.
\<close>

theorem put_range_exact:
  assumes "decimal_parts ds point fs" and "is_finite (decimal_double neg ds fs)"
  shows "put_out_of_range pt (decimal_double neg ds fs) s \<longleftrightarrow> pt < 0 \<or> K s < pt \<or> 5 < \<bar>decimal_value neg ds fs\<bar>"
  using range_check [of neg ds fs 5] assms
  by (auto simp: put_out_of_range_def min_put_value_def max_put_value_def decimal_parts_def)

theorem put_range_exact_witness:
  "put_out_of_range 1 (decimal_double False ''5'' ''0000001'') example_game"
proof -
  have val: "decimal_value False ''5'' ''0000001'' = 50000001 / 10 ^ 7"
    by (simp add: decimal_value_def digits_value_def digit_value_def code_def)
  have "is_finite (decimal_double False ''5'' ''0000001'')"
    using decimal_double_near [of False "''5''" "''0000001''"] small_less_half_max [of "50000001 / 10 ^ 7"]
    by (auto simp: near_def val dest: rounds_toD(1))
  moreover have "decimal_parts ''5'' True ''0000001''" by (simp add: decimal_parts_def isdigit_def code_def)
  ultimately show ?thesis
    using put_range_exact [of "''5''" True "''0000001''" False 1 example_game] by (simp add: val)
qed

section \<open>A message before HELLO\<close>

text \<open>
  C39: When a client that is not known yet sends a complete line that is no message, the server removes
  it and then reads through a reference to its place in the vector, which the removal has invalidated:
  \<open>handle_read_from_client\<close> returns true for a client that is no longer there. The iteration is
  undefined.
\<close>

theorem message_before_hello_undefined:
  assumes "server_ok w" and "0 < i" and "i < length (poll_fds w)" and "fd (poll_fds w ! i) = cfd"
    and "\<not> rev_hup (poll_fds w ! i)" and "rev_in (poll_fds w ! i)" and "\<not> stopping (logic w)"
    and "\<not> known {cfd} (logic w)" and "map_of (client_buffers w) cfd = Some []"
    and "received inp cfd = Recv_bytes (line @ crlf)" and "find_crlf (line @ crlf) = Some (length line)"
    and "createMessageWithCRLF line = None"
  shows "clients_loop inp i (Suc n) w = Inl Undefined"
proof -
  have "cfd \<in> client_fds w" using client_fdsI [OF assms(2,3)] assms(4) by simp
  then obtain p where p: "map_of (players (logic w)) cfd = Some p"
    using connected_iff [OF assms(1), of cfd] by auto
  then have "\<not> is_known p" using assms(8) by (simp add: known_def)
  then show ?thesis
    using assms p
    by (simp add: handle_read_from_client_def getClientPlayerID_def player_def Let_def read_loop.simps [of _ cfd]
        handle_line_def disconnect_client_def handle_client_disconnect_def)
qed

definition unknown_server :: Server where
  "unknown_server = example_server\<lparr>logic := register_new_client 4 ''127.0.0.1'' 40000 (example_game\<lparr>players := []\<rparr>)\<rparr>"

theorem message_before_hello_undefined_witness:
  "clients_loop (example_inp\<lparr>received := \<lambda>_. Recv_bytes (''X'' @ crlf)\<rparr>) 1 1 unknown_server = Inl Undefined"
proof -
  have "game_ok (insert 4 {}) (register_new_client 4 ''127.0.0.1'' 40000 (example_game\<lparr>players := []\<rparr>))"
    by (rule game_ok_register) (simp_all add: game_ok_def example_defs is_client_connected_def)
  then have ok: "server_ok unknown_server"
    by (simp add: server_ok_def unknown_server_def example_server_def client_fds_def new_pollfd_def)
  have "clients_loop (example_inp\<lparr>received := \<lambda>_. Recv_bytes (''X'' @ crlf)\<rparr>) 1 (Suc 0) unknown_server = Inl Undefined"
    by (rule message_before_hello_undefined [OF ok, of 1 4 _ "''X''"])
      (simp_all add: unknown_server_def example_server_def example_inp_def new_pollfd_def known_def register_new_client_def
        example_defs crlf_def createMessageWithCRLF_def createMessage_def extractCommandAndParams_def splitParams_def
        parseMessage_def)
  then show ?thesis by simp
qed

end
