(* ===== verification/Server_Sends.thy ===== *)
theory Server_Sends
  imports Server_Theorems "HOL-Library.Sublist"
begin

text \<open>
  What the server sends: the parameters of the game never change, every text in the queue of a client is a
  line that this client may be sent, and the writing loop neither loses nor repeats a byte of a queue.
\<close>

section \<open>The parameters\<close>

lemma config_refl [simp]: "same_config s s"
  by (simp add: same_config_def)

lemma config_trans: "same_config s s' \<Longrightarrow> same_config s' s'' \<Longrightarrow> same_config s s''"
  by (simp add: same_config_def)

lemma config_fields [simp]:
  "same_config s (println l s') = same_config s s'" "same_config s (set_player cfd p s') = same_config s s'"
  "same_config s (s'\<lparr>events := ev\<rparr>) = same_config s s'" "same_config s (s'\<lparr>coeff_file := f\<rparr>) = same_config s s'"
  "same_config s (s'\<lparr>stopping := b\<rparr>) = same_config s s'" "same_config s (s'\<lparr>total_correct_puts := n\<rparr>) = same_config s s'"
  "same_config s (s'\<lparr>players := ps\<rparr>) = same_config s s'"
  by (simp_all add: same_config_def)

lemma config_hello: "okR (\<lambda>(r, s'). same_config s s') (server_handle_hello cfd pid s)"
proof -
  have push: "okR (\<lambda>(r, s'). same_config s s') (bindR (append_message_back cfd m s1) (\<lambda>s. Inr (True, s)))"
    if "same_config s s1" for m s1
    unfolding okR_bind by (rule okR_mono [OF config_append_back [OF that]]) simp
  show ?thesis
    unfolding server_handle_hello_def okR_bind
    by (rule okR_all) (auto simp: Let_def simp del: okR_bind split: prod.split option.split payload.split intro!: push)
qed

lemma config_penalty: "same_config s s' \<Longrightarrow> okR (same_config s) (respond_with_penalty cfd pt v s')"
  unfolding respond_with_penalty_def okR_bind
  by (rule okR_mono [OF config_upd]) (auto intro!: okR_all [of _ "deref _"] config_append_back)

lemma config_bad_put: "same_config s s' \<Longrightarrow> okR (same_config s) (respond_with_bad_put t cfd pt v s')"
  unfolding respond_with_bad_put_def okR_bind
  by (rule okR_mono [OF config_upd]) (auto intro!: okR_all [of _ "player _ _"])

lemma config_state: "same_config s s' \<Longrightarrow> okR (same_config s) (respond_with_state t cfd m s')"
  unfolding respond_with_state_def okR_bind by (rule okR_all) simp

lemma config_append_to_known: "same_config s s' \<Longrightarrow> okR (same_config s) (append_to_known ps m s')"
proof (induction ps arbitrary: s')
  case (Cons x ps)
  obtain cfd p where x: "x = (cfd, p)" by (cases x)
  show ?case
    using Cons.IH Cons.prems okR_mono [OF config_append_back [OF Cons.prems] Cons.IH] by (simp add: x)
qed simp

lemma config_game_over:
  assumes "same_config s s'"
  shows "okR (same_config s) (game_over s')"
proof -
  have "okR (same_config s) (bindR (append_to_known ps m s') (\<lambda>s. bindR (substr_from 8 u) (\<lambda>txt. Inr (println (f txt) s))))"
    for ps m u f
    unfolding okR_bind
    by (rule okR_mono [OF config_append_to_known [OF assms]]) (auto intro!: okR_all [of _ "substr_from _ _"])
  note tail = this
  have "okR (same_config s) (send_scoring_messages s')"
    unfolding send_scoring_messages_def okR_bind [of _ "scores_loop s' (players s')"]
    by (rule okR_all) (use tail in \<open>auto simp del: okR_bind split: prod.split option.split\<close>)
  then show ?thesis unfolding game_over_def okR_bind by (rule okR_mono) simp
qed

lemma config_successful_put:
  assumes "same_config s s'"
  shows "okR (\<lambda>(r, s''). same_config s s'') (successful_put t cfd pt v s')"
  unfolding successful_put_def okR_bind Let_def
  using assms
  by (auto intro!: okR_all [of _ "player _ _"] okR_all [of _ "nth_chk _ _"] okR_all [of _ "deref _"] okR_all [of _ "substr_from _ _"]
      okR_mono [OF config_state] config_game_over simp del: okR_simps(3))

lemma config_put:
  "okR (\<lambda>(r, s'). same_config s s') (server_handle_put t cfd pt v s)"
proof -
  have early: "okR (same_config s) (if b then respond_with_penalty cfd pt v (println l s) else Inr s)" for b l
    using config_penalty by simp
  have clear: "okR (same_config s) (upd_player cfd (\<lambda>p. p\<lparr>can_put := False\<rparr>) s')" if "same_config s s'" for s'
    using that by (rule config_upd)
  have bad: "okR (same_config s) (if b then respond_with_bad_put t cfd pt v (println l s') else Inr s')" if "same_config s s'" for b l s'
    using that config_bad_put by simp
  have fin: "okR (\<lambda>(r, s''). same_config s s'') (if b then Inr (False, s') else successful_put t cfd pt v s')"
    if "same_config s s'" for b s'
    using that config_successful_put by simp
  show ?thesis
    unfolding server_handle_put_def okR_bind Let_def
    using okR_mono [OF early okR_mono [OF clear okR_mono [OF bad fin]]]
    by (auto intro!: okR_all [of _ "player _ _"] simp del: okR_simps(3))
qed

lemma config_client_message: "okR (\<lambda>(r, s'). same_config s s') (handle_client_message t cfd m s)"
  unfolding handle_client_message_def okR_bind
  by (rule okR_all) (auto simp: config_hello config_put split: payload.split)

text \<open>
  The same for the whole server; and what has been sent to a client only grows, except that it starts anew
  for a descriptor of \<open>X\<close>.
\<close>

definition same_game :: "int set \<Rightarrow> Server \<Rightarrow> Server \<Rightarrow> bool" where
  "same_game X w w' \<longleftrightarrow> same_config (logic w) (logic w') \<and> (\<forall>c. c \<notin> X \<longrightarrow> prefix (stream_to w c) (stream_to w' c))"

lemma same_game_refl [simp]: "same_game X w w"
  by (simp add: same_game_def)

lemma same_game_trans: "same_game X w w' \<Longrightarrow> same_game X w' w'' \<Longrightarrow> same_game X w w''"
  using config_trans prefix_order.trans unfolding same_game_def by meson

lemma same_game_mono: "same_game X w w' \<Longrightarrow> X \<subseteq> Y \<Longrightarrow> same_game Y w w'"
  by (auto simp: same_game_def)

lemma same_game_transmit: "same_game X w w' \<Longrightarrow> same_game X w (transmit c bs w')"
  by (auto simp: same_game_def stream_to_transmit intro: prefix_prefix)

lemma stream_disconnect: "okR (\<lambda>w'. stream_to w' = stream_to w) (disconnect_client cfd i pid w)"
  by (auto simp: disconnect_client_def intro!: okR_all [of _ "handle_client_disconnect _ _"])

lemma stream_call_event: "okR (\<lambda>w'. stream_to w' = stream_to w) (call_event e w)"
proof (cases e)
  case (Hello_timeout cfd ip port)
  have "okR (\<lambda>w'. stream_to w' = stream_to w) (disconnect_client cfd i pid (w\<lparr>logic := s\<rparr>))" for i pid s
    using stream_disconnect [of "w\<lparr>logic := s\<rparr>" cfd i pid] by simp
  then show ?thesis
    using Hello_timeout by (auto simp: hello_callback_def intro!: okR_all [of _ "player _ _"])
qed (auto simp: on_logic_def intro!: okR_all)

lemma game_disconnect: "same_game X w w' \<Longrightarrow> okR (same_game X w) (disconnect_client cfd i pid w')"
  using config_disconnect [of w' cfd i pid] stream_disconnect [of w' cfd i pid] config_trans [of "logic w" "logic w'"]
  by (cases "disconnect_client cfd i pid w'") (auto simp: same_game_def)

lemma game_line: "same_game X w w' \<Longrightarrow> okR (\<lambda>(e, w''). same_game X w w'') (handle_line t cfd i pid str w')"
proof -
  assume w: "same_game X w w'"
  have fin: "okR (\<lambda>(e, w''). same_game X w w'') (bindR (player cfd (logic w1)) (\<lambda>p.
       if \<not> is_known p
       then bindR (disconnect_client cfd i pid (w1\<lparr>logic := println l (logic w1)\<rparr>)) (\<lambda>w. Inr (Removed, w))
       else Inr (Still_connected, w1)))" if "same_game X w w1" for l w1
  proof -
    have "same_game X w (w1\<lparr>logic := println l (logic w1)\<rparr>)" using that by (simp add: same_game_def)
    from game_disconnect [OF this, of cfd i pid] show ?thesis
      using that unfolding okR_bind by (intro okR_all [of _ "player _ _"]) simp
  qed
  have "okR (same_game X w) (case createMessageWithCRLF str of None \<Rightarrow> Inr w'
            | Some msg \<Rightarrow> bindR (handle_client_message t cfd msg (logic w')) (\<lambda>(r, s). Inr (w'\<lparr>logic := s\<rparr>)))"
  proof (cases "createMessageWithCRLF str")
    case (Some msg)
    show ?thesis
      unfolding Some option.case okR_bind
      by (rule okR_mono [OF config_client_message]) (use w config_trans in \<open>auto simp: same_game_def\<close>)
  qed (use w in simp)
  then show ?thesis
    unfolding handle_line_def okR_bind by (rule okR_mono) (use fin in \<open>simp del: okR_simps(3)\<close>)
qed

lemma game_read_loop: "same_game X w0 w \<Longrightarrow> okR (\<lambda>(e, w'). same_game X w0 w') (read_loop t cfd i pid buf w)"
proof (induction t cfd i pid buf w rule: read_loop.induct)
  case (1 t cfd i pid buf w)
  show ?case
  proof (cases "find_crlf buf")
    case None
    then show ?thesis using "1.prems" by (subst read_loop.simps) (simp add: same_game_def)
  next
    case (Some pos)
    let ?w = "w\<lparr>client_buffers := map_put cfd (drop (pos + 2) buf) (client_buffers w)\<rparr>"
    have line: "okR (\<lambda>(e, w'). same_game X w0 w') (handle_line t cfd i pid (take pos buf) ?w)"
      using "1.prems" by (intro game_line) (simp add: same_game_def)
    show ?thesis
    proof (cases "handle_line t cfd i pid (take pos buf) ?w")
      case (Inr x)
      obtain e w1 where x: "x = (e, w1)" by (cases x)
      then show ?thesis
        using line "1.IH" [OF Some Inr, of e w1] Inr by (subst read_loop.simps) (simp add: Some)
    next
      case (Inl e)
      then show ?thesis by (subst read_loop.simps) (simp add: Some)
    qed
  qed
qed

lemma game_handle_read: "same_game X w0 w \<Longrightarrow> okR (\<lambda>(b, e, w'). same_game X w0 w') (handle_read_from_client inp i w)"
  using game_disconnect [of X w0 w] game_read_loop [of X w0 w]
  by (auto simp: handle_read_from_client_def Let_def case_prod_beta' split: recv_result.split
      intro!: okR_all [of _ "nth_chk _ _"] okR_all [of _ "getClientPlayerID _ _"])

lemma config_take_next: "okR (\<lambda>(m, s'). same_config s s') (take_next_message_str cfd s)"
  by (auto simp: take_next_message_str_def intro!: okR_all [of _ "player _ _"] split: list.split)

lemma game_handle_write:
  assumes "same_game X w0 w"
  shows "okR (\<lambda>(b, w'). same_game X w0 w') (handle_write_to_client inp i w)"
proof -
  have sent: "okR (\<lambda>(b, w'). same_game X w0 w') (write_message inp cfd i pid m (w\<lparr>logic := s\<rparr>))"
    if "same_config (logic w) s" for s m cfd pid
  proof -
    have w: "same_game X w0 (w\<lparr>logic := s\<rparr>)" using assms that by (auto simp: same_game_def intro: config_trans)
    have "okR (same_game X w0) (on_logic (append_message_front cfd r) (transmit cfd bs (w\<lparr>logic := s\<rparr>)))" for r bs
      using okR_mono [OF config_upd [of "logic w0" s cfd "\<lambda>p. p\<lparr>messages := r # messages p\<rparr>"]]
        same_game_transmit [OF w, of cfd bs]
      by (simp add: on_logic_def append_message_front_def same_game_def)
    then show ?thesis using w game_disconnect [OF w] same_game_transmit [OF w] by (simp add: write_message_def Let_def)
  qed
  have "okR (\<lambda>x. okR (\<lambda>(b, w'). same_game X w0 w') (case x of (m, s) \<Rightarrow> write_message inp cfd i pid m (w\<lparr>logic := s\<rparr>)))
      (take_next_message_str cfd (logic w))" for cfd pid
    by (intro okR_mono [OF config_take_next]) (use sent in auto)
  moreover have "same_game X w0 (w\<lparr>poll_fds := ps\<rparr>)" for ps using assms by (simp add: same_game_def)
  ultimately show ?thesis
    unfolding handle_write_to_client_def okR_bind
    by (intro okR_all [of _ "nth_chk _ _"] okR_all [of _ "getClientPlayerID _ _"] okR_all [of _ "has_pending_messages _ _"]) simp
qed

lemma game_clients_loop: "same_game X w0 w \<Longrightarrow> okR (same_game X w0) (clients_loop inp i n w)"
proof (induction n arbitrary: i w)
  case (Suc n)
  have hup: "okR (same_game X w0) (bindR (disconnect_client cfd i pid w) (clients_loop inp i n))" for cfd pid
    unfolding okR_bind by (rule okR_mono [OF game_disconnect [OF Suc.prems]]) (rule Suc.IH)
  have wr: "okR (same_game X w0) (bindR (handle_write_to_client inp i w') (\<lambda>(ok, w). clients_loop inp (if ok then Suc i else i) n w))"
    if "same_game X w0 w'" for w'
    unfolding okR_bind by (rule okR_mono [OF game_handle_write [OF that]]) (use Suc.IH in auto)
  have rd: "okR (\<lambda>(b, e, w'). same_game X w0 w')
      (if rev_in (poll_fds w ! i) then handle_read_from_client inp i w else Inr (True, Still_connected, w))"
    using Suc.prems game_handle_read by simp
  have body: "okR (same_game X w0) (bindR (if rev_in (poll_fds w ! i) then handle_read_from_client inp i w else Inr (True, Still_connected, w))
            (\<lambda>(ok, e, w).
              if \<not> ok then clients_loop inp i n w
              else if stopping (logic w) then Inr w
              else if e = Removed then Inl Undefined
              else if b
              then bindR (handle_write_to_client inp i w) (\<lambda>(ok, w).
                     clients_loop inp (if ok then Suc i else i) n w)
              else clients_loop inp (Suc i) n w))" for b
    unfolding okR_bind [of _ "if _ then _ else _"]
    by (rule okR_mono [OF rd]) (use wr Suc.IH in \<open>auto split: if_splits simp del: okR_bind\<close>)
  show ?case
    unfolding clients_loop.simps Let_def
    using Suc.prems hup body okR_all [of _ "getClientPlayerID _ _"]
    by (auto simp del: okR_bind simp: okR_bind [of _ "getClientPlayerID _ _"])
qed simp

lemma game_flush_client: "same_game X w0 w \<Longrightarrow> okR (same_game X w0) (flush_client inp cfd n fuel w)"
proof (induction fuel arbitrary: n w)
  case (Suc fuel)
  have "okR (\<lambda>x. okR (same_game X w0) (case x of (m, s) \<Rightarrow>
         let w = w\<lparr>logic := s\<rparr> in
         if m = [] then Inr w
         else
           let written = send_result inp cfd n m;
               w = transmit cfd (take (nat written) m) w in
           if written \<noteq> int (length m) then Inr w
           else flush_client inp cfd (Suc n) fuel w)) (take_next_message_str cfd (logic w))"
  proof (rule okR_mono [OF config_take_next], clarify)
    fix m s
    assume "same_config (logic w) s"
    then have "same_game X w0 (w\<lparr>logic := s\<rparr>)" using config_trans [of "logic w0" "logic w" s] Suc.prems by (simp add: same_game_def)
    then show "okR (same_game X w0) (let w = w\<lparr>logic := s\<rparr> in
         if m = [] then Inr w
         else
           let written = send_result inp cfd n m;
               w = transmit cfd (take (nat written) m) w in
           if written \<noteq> int (length m) then Inr w
           else flush_client inp cfd (Suc n) fuel w)" using Suc.IH same_game_transmit by (simp add: Let_def)
  qed
  then show ?case
    using Suc.prems by (auto intro!: okR_all [of _ "has_pending_messages _ _"])
qed simp

lemma game_flush_all: "same_game X w0 w \<Longrightarrow> okR (same_game X w0) (flush_all inp ps w)"
proof (induction ps arbitrary: w)
  case (Cons p ps)
  have "okR (same_game X w0) (bindR (flush_client inp (fd p) 0 n w) (flush_all inp ps))" for n
    unfolding okR_bind by (rule okR_mono [OF game_flush_client [OF Cons.prems]]) (rule Cons.IH)
  then show ?case by (auto simp del: okR_bind simp: okR_bind [of _ "player _ _"] intro!: okR_all [of _ "player _ _"])
qed simp

lemma game_timers: "same_game X w0 w \<Longrightarrow> okR (\<lambda>(w', evs'). same_game X w0 w') (check_timers call_event t evs w)"
proof (induction evs arbitrary: w)
  case (Cons x evs)
  obtain d e where x: "x = (d, e)" by (cases x)
  have "okR (\<lambda>(w', evs'). same_game X w0 w') (bindR (call_event e w) (check_timers call_event t evs))"
    unfolding okR_bind
  proof (rule okR_mono [of "\<lambda>w1. same_config (logic w) (logic w1) \<and> stream_to w1 = stream_to w"])
    show "okR (\<lambda>w1. same_config (logic w) (logic w1) \<and> stream_to w1 = stream_to w) (call_event e w)"
      using config_call_event [of w e] stream_call_event [of w e] by (cases "call_event e w") simp_all
    fix w1 :: Server
    assume "same_config (logic w) (logic w1) \<and> stream_to w1 = stream_to w"
    then have "same_game X w0 w1" using config_trans [of "logic w0" "logic w" "logic w1"] Cons.prems by (simp add: same_game_def)
    then show "okR (\<lambda>(w', evs'). same_game X w0 w') (check_timers call_event t evs w1)" by (rule Cons.IH)
  qed
  then show ?case using Cons.prems by (simp add: x)
qed simp

text \<open>The descriptors that \<open>accept\<close> may return.\<close>

definition accepted_fds :: "inputs \<Rightarrow> int set" where
  "accepted_fds inp = (case accepted inp of None \<Rightarrow> {} | Some (c, ip, port) \<Rightarrow> {c})"

lemma game_iteration: "okR (same_game (accepted_fds inp) w) (server_iteration inp w)"
proof -
  let ?X = "accepted_fds inp"
  let ?w = "w\<lparr>poll_fds := map (poll_one inp) (poll_fds w)\<rparr>"
  have w: "same_game ?X w ?w" by (simp add: same_game_def)
  have reset: "okR (same_game ?X w) (bindR (reset_server inp ?w) (\<lambda>w. Inr (w\<lparr>logic := server_reset (logic w)\<rparr>)))"
    unfolding reset_server_def okR_bind
    by (rule okR_mono [OF game_flush_all [OF w]]) (simp add: same_game_def same_config_def server_reset_def)
  have timers: "okR (same_game ?X w) (server_check_timers (now inp) ?w)"
    unfolding server_check_timers_def okR_bind
    by (rule okR_mono [OF game_timers [OF w]]) (auto simp: same_game_def)
  have new: "same_game ?X w (handle_new_connection inp w')" if "same_game ?X w w'" for w'
    using that
    by (auto simp: handle_new_connection_def Let_def register_new_client_def same_game_def accepted_fds_def stream_to_def
        map_of_map_put split: option.splits)
  have loop: "okR (same_game ?X w) (bindR (mark_pollout (logic w') (drop 1 (poll_fds w'))) (\<lambda>ps.
          let w = w'\<lparr>poll_fds := take 1 (poll_fds w') @ ps\<rparr> in
          if ready inp = 0 then Inr w
          else
            let w = (if rev_in (hd (poll_fds w)) then handle_new_connection inp w else w)
            in clients_loop inp 1 (length (poll_fds w)) w))" if "same_game ?X w w'" for w'
  proof -
    have "same_game ?X w (w'\<lparr>poll_fds := ps\<rparr>)" for ps using that by (simp add: same_game_def)
    then show ?thesis
      using new game_clients_loop by (auto simp: Let_def intro!: okR_all [of _ "mark_pollout _ _"])
  qed
  have "okR (same_game ?X w) (bindR (server_check_timers (now inp) ?w) (\<lambda>w.
        bindR (mark_pollout (logic w) (drop 1 (poll_fds w))) (\<lambda>ps.
          let w = w\<lparr>poll_fds := take 1 (poll_fds w) @ ps\<rparr> in
          if ready inp = 0 then Inr w
          else
            let w = (if rev_in (hd (poll_fds w)) then handle_new_connection inp w else w)
            in clients_loop inp 1 (length (poll_fds w)) w)))"
    unfolding okR_bind [of _ "server_check_timers _ _"] by (rule okR_mono [OF timers loop])
  then show ?thesis using reset by (simp add: server_iteration_def Let_def del: okR_bind)
qed

lemma game_run: "server_run inps w = Inr w' \<Longrightarrow> same_game UNIV w w'"
proof (induction inps arbitrary: w)
  case (Cons inp inps)
  then obtain w1 where w1: "server_iteration inp w = Inr w1" "server_run inps w1 = Inr w'" by (auto simp: bindR_eq_Inr)
  have "same_game UNIV w w1" using game_iteration [of inp w] w1(1) same_game_mono by fastforce
  then show ?case using Cons.IH [OF w1(2)] by (rule same_game_trans)
qed simp

section \<open>The queues and the streams\<close>

lemma start_config: "server_start k n m (Some content) lfd = Inr w \<Longrightarrow> K (logic w) = k \<and> N (logic w) = n"
  by (auto simp: server_start_def server_init_def)

lemma run_safe_config:
  assumes "server_start k n m (Some content) lfd = Inr w" and "0 \<le> k" "k \<le> 10000" and "0 \<le> n" "n \<le> 8" and "1 \<le> m" "m \<le> 12341234"
    and "file_ok n content" and "inputs_ok inps w" and "server_run inps w = Inr w'"
  shows "server_safe w'" and "K (logic w') = k" and "N (logic w') = n"
proof -
  show "server_safe w'"
    using safe_server_run [OF server_start_safe [OF assms(1-8)] assms(9)] assms(10) by simp
  show "K (logic w') = k" "N (logic w') = n"
    using start_config [OF assms(1)] game_run [OF assms(10)] by (simp_all add: same_game_def same_config_def)
qed

text \<open>
  C7: The server keeps to what the client relies on. In any run from a good start, with any clients that
  begin with HELLO, what \<open>send\<close> has taken for a client since it connected, followed by what is in its queue,
  is a sequence of whole lines that the parser of messages accepts and that a client with the parameters of
  this game may be sent: COEFF with at most \<open>n + 1\<close> coefficients, STATE with exactly \<open>k + 1\<close> values, SCORING
  with at least one player. Every text in the queue is such a line, the first one perhaps without its
  beginning, which is then the end of what was sent. The parameters never change.
\<close>

theorem queues_regular:
  assumes "server_start k n m (Some content) lfd = Inr w" and "0 \<le> k" "k \<le> 10000" and "0 \<le> n" "n \<le> 8" and "1 \<le> m" "m \<le> 12341234"
    and "file_ok n content" and "inputs_ok inps w" and "server_run inps w = Inr w'" and "(cfd, p) \<in> set (players (logic w'))"
  shows "K (logic w') = k \<and> N (logic w') = n \<and> queue_ok k n (stream_to w' cfd) (messages p) \<and>
    (\<exists>ls. list_all (regular k n) ls \<and> stream_to w' cfd @ concat (messages p) = concat ls)"
proof -
  note r = run_safe_config [OF assms(1-10)]
  have "queue_ok k n (stream_to w' cfd) (messages p)"
    using r assms(11) by (auto simp: server_safe_def nums_ok_def player_safe_def)
  then show ?thesis using r(2,3) queue_ok_lines by simp
qed

text \<open>Whether the client is still connected or not, it has been sent the beginning of such lines.\<close>

lemma streams_regular:
  assumes "server_start k n m (Some content) lfd = Inr w" and "0 \<le> k" "k \<le> 10000" and "0 \<le> n" "n \<le> 8" and "1 \<le> m" "m \<le> 12341234"
    and "file_ok n content" and "inputs_ok inps w" and "server_run inps w = Inr w'"
  shows "\<exists>ls rest. list_all (regular k n) ls \<and> stream_to w' cfd @ rest = concat ls"
proof -
  note r = run_safe_config [OF assms]
  then have "sent_ok k n (stream_to w')" by (auto simp: server_safe_def nums_ok_def)
  then show ?thesis by (simp add: sent_ok_def)
qed

text \<open>
  C19: Writing to a client loses nothing, repeats nothing and keeps the order: when a call of
  \<open>handle_write_to_client\<close> leaves the client connected, what \<open>send\<close> took, followed by what is queued
  afterwards, is what was queued before.
\<close>

theorem write_keeps_stream:
  assumes "i < length (poll_fds w)" and "map_of (players (logic w)) (fd (poll_fds w ! i)) = Some p"
    and "handle_write_to_client inp i w = Inr (True, w')"
  shows "\<exists>p'. map_of (players (logic w')) (fd (poll_fds w ! i)) = Some p' \<and>
    (case messages p of [] \<Rightarrow> [] | msg # _ \<Rightarrow> take (nat (send_result inp (fd (poll_fds w ! i)) 0 msg)) msg) @ concat (messages p') =
      concat (messages p)"
proof (cases "messages p")
  case Nil
  then show ?thesis
    using assms by (auto simp: handle_write_to_client_def getClientPlayerID_def has_pending_messages_def player_def)
next
  case (Cons msg ms)
  then show ?thesis
    using assms
    by (auto simp: handle_write_to_client_def write_message_def getClientPlayerID_def has_pending_messages_def
        take_next_message_str_def player_def Let_def on_logic_def append_message_front_def upd_player_def map_of_map_put bindR_eq_Inr split: if_splits)
qed

theorem write_keeps_stream_witness:
  "\<exists>w' p'. handle_write_to_client (example_inp\<lparr>send_result := \<lambda>_ _ m. 1\<rparr>) 1
      (example_server\<lparr>logic := example_game\<lparr>players := [(4, example_player\<lparr>messages := [''AB'', ''C'']\<rparr>)]\<rparr>\<rparr>) = Inr (True, w') \<and>
    map_of (players (logic w')) 4 = Some p' \<and> ''A'' @ concat (messages p') = ''ABC''"
proof -
  let ?inp = "example_inp\<lparr>send_result := \<lambda>_ _ m. 1\<rparr>"
  let ?w = "example_server\<lparr>logic := example_game\<lparr>players := [(4, example_player\<lparr>messages := [''AB'', ''C'']\<rparr>)]\<rparr>\<rparr>"
  have w: "1 < length (poll_fds ?w)" "map_of (players (logic ?w)) (fd (poll_fds ?w ! 1)) = Some (example_player\<lparr>messages := [''AB'', ''C'']\<rparr>)"
    by (simp_all add: example_server_def new_pollfd_def)
  obtain w' where "handle_write_to_client ?inp 1 ?w = Inr (True, w')"
    by (simp add: handle_write_to_client_def write_message_def example_server_def example_inp_def new_pollfd_def getClientPlayerID_def player_def
        has_pending_messages_def take_next_message_str_def on_logic_def append_message_front_def upd_player_def map_of_map_put
        set_player_def Let_def)
  with write_keeps_stream [OF w this] show ?thesis by (simp add: example_server_def example_inp_def new_pollfd_def)
qed

text \<open>A client connects and says HELLO.\<close>

definition greeting_inputs :: "inputs list" where
  "greeting_inputs = [quiet\<lparr>re_in := \<lambda>c. c = 3, accepted := Some (4, ''127.0.0.1'', 40000)\<rparr>,
     quiet\<lparr>re_in := \<lambda>c. c = 4, received := \<lambda>_. Recv_bytes (''HELLO Ann'' @ crlf)\<rparr>]"

lemma greeting_run:
  "\<exists>w w' p. server_start 1 0 1 (Some (''COEFF 1'' @ crlf)) 3 = Inr w \<and> inputs_ok greeting_inputs w \<and>
    server_run greeting_inputs w = Inr w' \<and> players (logic w') = [(4, p)] \<and> messages p = [''COEFF 1'' @ crlf] \<and>
    map fd (poll_fds w') = [3, 4] \<and> events (logic w') = [(seconds 3, Hello_timeout 4 ''127.0.0.1'' 40000)] \<and>
    \<not> stopping (logic w') \<and> transmitted w' = [(4, [])] \<and>
    (\<exists>w1. server_iteration (hd greeting_inputs) w = Inr w1 \<and> client_buffers w1 = [(4, [])])"
proof -
  obtain m x where m: "createMessage (''COEFF 1'' @ crlf) = Some m" "body m = CoeffMessage [x]"
    using example_coefficients by blast
  have raw: "raw_message m = ''COEFF 1'' @ crlf" using m(1) by (rule createMessage_raw)
  have ann: "createMessageWithCRLF ''HELLO Ann'' = Some \<lparr>raw_message = ''HELLO Ann'' @ crlf, msg_params = [''Ann''], body = HelloMessage ''Ann''\<rparr>"
    using create_hello_eq [of "''Ann''"] by (simp add: create_hello_def isAlphanumeric_def isalnum_def isalpha_def code_def)
  define w where "w = projr (server_start 1 0 1 (Some (''COEFF 1'' @ crlf)) 3)"
  have start: "server_start 1 0 1 (Some (''COEFF 1'' @ crlf)) 3 = Inr w" by (simp add: w_def server_start_def server_init_def)
  have sends: "sends_ok (quiet\<lparr>re_in := r, accepted := a\<rparr>)" "sends_ok (quiet\<lparr>re_in := r, received := b\<rparr>)" for r a b
    by (simp_all add: sends_ok_def quiet_def)
  define w1 where "w1 = projr (server_iteration (hd greeting_inputs) w)"
  have step: "server_iteration (hd greeting_inputs) w = Inr w1"
    by (simp add: w1_def w_def greeting_inputs_def quiet_def server_start_def server_init_def iteration_simps)
  have "good_inputs (hd greeting_inputs) w"
    using sends by (simp add: good_inputs_def greeting_inputs_def w_def server_start_def server_init_def
      fresh_accept_def polled_def server_check_timers_def fresh_fd_def new_pollfd_def poll_one_def quiet_def)
  moreover have "good_inputs (hd (tl greeting_inputs)) w1"
    using sends ann by (simp add: w1_def w_def good_inputs_def greeting_inputs_def server_start_def server_init_def crlf_def
      iteration_simps fresh_accept_def polled_def fresh_fd_def quiet_def polite_def hello_bytes_def hello_first_def seconds_def)
  ultimately have inputs: "inputs_ok greeting_inputs w"
    using step by (simp add: greeting_inputs_def split: sum.split)
  have "\<exists>w' p. server_iteration (hd (tl greeting_inputs)) w1 = Inr w' \<and> players (logic w') = [(4, p)] \<and> messages p = [''COEFF 1'' @ crlf] \<and>
      map fd (poll_fds w') = [3, 4] \<and> events (logic w') = [(seconds 3, Hello_timeout 4 ''127.0.0.1'' 40000)] \<and>
      \<not> stopping (logic w') \<and> transmitted w' = [(4, [])]"
    using m raw ann
    by (simp add: w1_def w_def greeting_inputs_def quiet_def server_start_def server_init_def iteration_simps crlf_def
        handle_read_from_client_def getClientPlayerID_def player_def read_loop.simps handle_line_def handle_client_message_def
        server_handle_hello_def getline_def append_message_back_def upd_player_def has_pending_messages_def seconds_def)
  moreover have "client_buffers w1 = [(4, [])]"
    by (simp add: w1_def w_def greeting_inputs_def quiet_def server_start_def server_init_def iteration_simps)
  ultimately show ?thesis using step start inputs by (auto simp: greeting_inputs_def)
qed

lemma example_content: "file_ok 0 (''COEFF 1'' @ crlf)"
proof -
  obtain m x where m: "createMessage (''COEFF 1'' @ crlf) = Some m" "body m = CoeffMessage [x]"
    using example_coefficients by blast
  then show ?thesis by (simp add: file_ok_def line_ok_def crlf_def) (simp add: createMessage_def)
qed

theorem queues_regular_witness:
  "\<exists>w w' p. server_start 1 0 1 (Some (''COEFF 1'' @ crlf)) 3 = Inr w \<and> server_run greeting_inputs w = Inr w' \<and>
    (4, p) \<in> set (players (logic w')) \<and> messages p = [''COEFF 1'' @ crlf] \<and>
    queue_ok 1 0 (stream_to w' 4) [''COEFF 1'' @ crlf]"
proof -
  obtain w w' p where w: "server_start 1 0 1 (Some (''COEFF 1'' @ crlf)) 3 = Inr w" "inputs_ok greeting_inputs w"
      "server_run greeting_inputs w = Inr w'" "players (logic w') = [(4, p)]" "messages p = [''COEFF 1'' @ crlf]"
    using greeting_run by blast
  then have p: "(4, p) \<in> set (players (logic w'))" by simp
  from queues_regular [OF w(1) _ _ _ _ _ _ example_content w(2,3) p] w(5) have "queue_ok 1 0 (stream_to w' 4) [''COEFF 1'' @ crlf]"
    by simp
  with w(1,3,5) p show ?thesis by blast
qed

text \<open>Then \<open>send\<close> takes the first five bytes of the line.\<close>

definition five_bytes :: inputs where
  "five_bytes = quiet\<lparr>re_out := \<lambda>c. c = 4, send_result := \<lambda>_ _ m. min 5 (int (length m))\<rparr>"

lemma run_more: "server_run inps w = Inr w' \<Longrightarrow> server_run (inps @ inps') w = server_run inps' w'"
  by (induction inps arbitrary: w) (auto simp: bindR_eq_Inr)

lemma inputs_more: "inputs_ok inps w \<Longrightarrow> server_run inps w = Inr w' \<Longrightarrow> inputs_ok inps' w' \<Longrightarrow> inputs_ok (inps @ inps') w"
  by (induction inps arbitrary: w) (auto simp: bindR_eq_Inr)

lemma five_bytes_run:
  "\<exists>w w'. server_start 1 0 1 (Some (''COEFF 1'' @ crlf)) 3 = Inr w \<and> inputs_ok (greeting_inputs @ [quiet, five_bytes]) w \<and>
    server_run (greeting_inputs @ [quiet, five_bytes]) w = Inr w' \<and> stream_to w' 4 = ''COEFF'' \<and>
    (\<exists>w1. server_iteration (hd greeting_inputs) w = Inr w1 \<and> client_buffers w1 = [(4, [])])"
proof -
  obtain w w1 p where w: "server_start 1 0 1 (Some (''COEFF 1'' @ crlf)) 3 = Inr w" "inputs_ok greeting_inputs w"
      "server_run greeting_inputs w = Inr w1"
    and w1: "players (logic w1) = [(4, p)]" "messages p = [''COEFF 1'' @ crlf]" "map fd (poll_fds w1) = [3, 4]"
      "events (logic w1) = [(seconds 3, Hello_timeout 4 ''127.0.0.1'' 40000)]" "\<not> stopping (logic w1)" "transmitted w1 = [(4, [])]"
    and first: "\<exists>w1. server_iteration (hd greeting_inputs) w = Inr w1 \<and> client_buffers w1 = [(4, [])]"
    using greeting_run by (elim exE conjE) (rule that, assumption+, blast)
  obtain a b where ab: "poll_fds w1 = [a, b]" "fd a = 3" "fd b = 4" using w1(3) by (auto simp: map_eq_Cons_conv)
  have sends: "sends_ok quiet" "sends_ok five_bytes" by (simp_all add: sends_ok_def quiet_def five_bytes_def)
  note run = iteration_simps fresh_accept_def polled_def fresh_fd_def quiet_def seconds_def has_pending_messages_def player_def
  define w2 where "w2 = projr (server_iteration quiet w1)"
  have step2: "server_iteration quiet w1 = Inr w2" "good_inputs quiet w1"
    using ab w1 sends by (simp_all add: w2_def good_inputs_def run)
  have w2: "players (logic w2) = [(4, p)]" "poll_fds w2 = [poll_one quiet a, (poll_one quiet b)\<lparr>pollout := True\<rparr>]"
      "events (logic w2) = events (logic w1)" "\<not> stopping (logic w2)" "transmitted w2 = [(4, [])]"
    using ab w1 by (simp_all add: w2_def run)
  define w3 where "w3 = projr (server_iteration five_bytes w2)"
  have step3: "server_iteration five_bytes w2 = Inr w3" "good_inputs five_bytes w2" "stream_to w3 4 = ''COEFF''"
    using ab w1 w2 sends by (simp_all add: w3_def good_inputs_def run five_bytes_def handle_write_to_client_def write_message_def
        getClientPlayerID_def take_next_message_str_def on_logic_def append_message_front_def upd_player_def crlf_def
        transmit_def stream_to_def)
  have run: "server_run [quiet, five_bytes] w1 = Inr w3" "inputs_ok [quiet, five_bytes] w1" using step2 step3 by simp_all
  show ?thesis
    using w(1) inputs_more [OF w(2,3) run(2)] run_more [OF w(3), of "[quiet, five_bytes]"] run(1) step3(3) first
    by (intro exI [of _ w] exI [of _ w3]) simp
qed

end
