(* ===== verification/Server_Quiet.thy ===== *)
theory Server_Quiet
  imports Server_Sends
begin

text \<open>
  The server says nothing to a client before it has read the HELLO of this client, as long as no client
  calls itself UNKNOWN: that is the id of a player without HELLO, and a delayed response to a former client
  of that name, address and descriptor would go to the new one.
\<close>

section \<open>The game\<close>

text \<open>
  \<open>tx\<close> is what has been sent to each client, \<open>f\<close> what each has written: a player is known only when its
  client has written something, and what is not known has been sent nothing and has an empty queue.
\<close>

fun named :: "event \<Rightarrow> bool" where
  "named (Bad_put_response cfd pt v ip port cid) = (cid \<noteq> ''UNKNOWN'')"
| "named (State_response cfd m ip port cid) = (cid \<noteq> ''UNKNOWN'')"
| "named (Hello_timeout cfd ip port) = True"

definition shy_player :: "string \<Rightarrow> string \<Rightarrow> PlayerInfo \<Rightarrow> bool" where
  "shy_player wrote snt p \<longleftrightarrow>
     (if is_known p then pl_id p \<noteq> ''UNKNOWN'' \<and> wrote \<noteq> []
      else pl_id p = ''UNKNOWN'' \<and> messages p = [] \<and> snt = [])"

definition shy :: "(int \<Rightarrow> string) \<Rightarrow> (int \<Rightarrow> string) \<Rightarrow> ServerLogic \<Rightarrow> bool" where
  "shy f tx s \<longleftrightarrow> sorted_keys (players s) \<and> (\<forall>c p. map_of (players s) c = Some p \<longrightarrow> shy_player (f c) (tx c) p) \<and> (\<forall>(d, e) \<in> set (events s). named e)"

lemma shy_fields [simp]:
  "shy f tx (println l s) = shy f tx s" "shy f tx (s\<lparr>coeff_file := x\<rparr>) = shy f tx s"
  "shy f tx (s\<lparr>stopping := b\<rparr>) = shy f tx s" "shy f tx (s\<lparr>total_correct_puts := n\<rparr>) = shy f tx s"
  by (simp_all add: shy_def)

lemma shy_event: "shy f tx s \<Longrightarrow> named e \<Longrightarrow> shy f tx (s\<lparr>events := add_event e t (events s)\<rparr>)"
  by (auto simp: shy_def)

lemma shyD: "shy f tx s \<Longrightarrow> map_of (players s) c = Some p \<Longrightarrow> shy_player (f c) (tx c) p"
  by (simp add: shy_def)

lemma shy_set_player: "shy f tx s \<Longrightarrow> shy_player (f c) (tx c) p \<Longrightarrow> shy f tx (set_player c p s)"
  by (auto simp: shy_def set_player_def map_of_map_put sorted_map_put)

lemma shy_upd:
  assumes "shy f tx s" and "\<And>p. shy_player (f c) (tx c) p \<Longrightarrow> shy_player (f c) (tx c) (g p)"
  shows "okR (shy f tx) (upd_player c g s)"
  using assms by (auto simp: upd_player_def shyD shy_set_player intro!: ok_player)

text \<open>What only a known client gets; \<open>shy_known\<close> is kept by every step for it.\<close>

definition shy_known :: "(int \<Rightarrow> string) \<Rightarrow> (int \<Rightarrow> string) \<Rightarrow> int \<Rightarrow> ServerLogic \<Rightarrow> bool" where
  "shy_known f tx c s \<longleftrightarrow> shy f tx s \<and> known {c} s"

lemma shy_known_fields [simp]:
  "shy_known f tx c (println l s) = shy_known f tx c s" "shy_known f tx c (s\<lparr>total_correct_puts := n\<rparr>) = shy_known f tx c s"
  "shy_known f tx c (s\<lparr>stopping := b\<rparr>) = shy_known f tx c s"
  by (simp_all add: shy_known_def)

lemma shy_known_upd:
  assumes "shy_known f tx c s" and "\<And>p. is_known (g p) = is_known p" and "\<And>p. pl_id (g p) = pl_id p"
  shows "okR (shy_known f tx c) (upd_player c g s)"
  using assms
  by (auto simp: shy_known_def upd_player_def known_def map_of_map_put shy_player_def
      intro!: ok_player shy_set_player dest: shyD)

lemma shy_known_append: "shy_known f tx c s \<Longrightarrow> okR (shy_known f tx c) (append_message_back c m s)"
  unfolding append_message_back_def by (rule shy_known_upd) simp_all

lemma shy_penalty: "shy_known f tx c s \<Longrightarrow> okR (shy_known f tx c) (respond_with_penalty c pt v s)"
  unfolding respond_with_penalty_def okR_bind
  by (rule okR_mono [OF shy_known_upd]) (auto intro!: okR_all [of _ "deref _"] shy_known_append)

lemma shy_known_event: "shy_known f tx c s \<Longrightarrow> named e \<Longrightarrow> shy_known f tx c (s\<lparr>events := add_event e t (events s)\<rparr>)"
  by (simp add: shy_known_def shy_event)

lemma shy_known_id: "shy_known f tx c s \<Longrightarrow> map_of (players s) c = Some p \<Longrightarrow> pl_id p \<noteq> ''UNKNOWN''"
  by (auto simp: shy_known_def known_def shy_player_def dest: shyD)

lemma shy_bad_put: "shy_known f tx c s \<Longrightarrow> okR (shy_known f tx c) (respond_with_bad_put t c pt v s)"
  unfolding respond_with_bad_put_def okR_bind
  by (rule okR_mono [OF shy_known_upd]) (auto intro!: ok_player shy_known_event dest: shy_known_id)

lemma shy_state: "shy_known f tx c s \<Longrightarrow> okR (shy_known f tx c) (respond_with_state t c m s)"
  unfolding respond_with_state_def by (auto intro!: ok_player shy_known_event dest: shy_known_id)

text \<open>The callbacks find their client known, since the event has its id.\<close>

lemma shy_callbacks:
  assumes "shy f tx s" and "cid \<noteq> ''UNKNOWN''"
  shows "okR (shy f tx) (bad_put_callback c pt v ip port cid s)" and "okR (shy f tx) (state_callback c m ip port cid s)"
proof -
  have k: "shy_known f tx c s" if "\<not> client_gone c ip port cid s"
    using that assms by (auto simp: client_gone_def shy_known_def known_def shy_player_def dest: shyD split: option.splits if_splits)
  have weak: "shy_known f tx c s' \<Longrightarrow> shy f tx s'" for s' by (simp add: shy_known_def)
  have can: "okR (shy_known f tx c) (upd_player c (\<lambda>p. p\<lparr>can_put := True\<rparr>) s')" if "shy_known f tx c s'" for s'
    by (rule shy_known_upd [OF that]) simp_all
  have "okR (shy_known f tx c) (bindR (upd_player c (\<lambda>p. p\<lparr>can_put := True\<rparr>) s) (\<lambda>s.
           bindR (deref (create_bad_put pt v)) (\<lambda>m. append_message_back c (raw_message m) s)))" if "shy_known f tx c s"
    unfolding okR_bind
    by (rule okR_mono [OF can [OF that]]) (auto intro!: okR_all [of _ "deref _"] shy_known_append)
  then show "okR (shy f tx) (bad_put_callback c pt v ip port cid s)"
    using assms k okR_mono [OF _ weak] unfolding bad_put_callback_def by (auto simp del: okR_bind)
  have "okR (shy_known f tx c) (bindR (append_message_back c m s) (\<lambda>s.
           bindR (substr_from 6 (before_crlf m)) (\<lambda>txt.
             upd_player c (\<lambda>p. p\<lparr>can_put := True\<rparr>)
               (println (''Sending state '' @ txt @ '' to '' @ cid @ ''.'') s))))" if "shy_known f tx c s"
    unfolding okR_bind
    by (rule okR_mono [OF shy_known_append [OF that]]) (auto intro!: okR_all [of _ "substr_from _ _"] can)
  then show "okR (shy f tx) (state_callback c m ip port cid s)"
    using assms k okR_mono [OF _ weak] unfolding state_callback_def by (auto simp del: okR_bind)
qed

lemma shy_append_to_known:
  "shy f tx s \<Longrightarrow> \<forall>(c, p) \<in> set ps. is_known p \<longrightarrow> known {c} s \<Longrightarrow> okR (shy f tx) (append_to_known ps m s)"
proof (induction ps arbitrary: s)
  case (Cons x ps)
  obtain c p where x: "x = (c, p)" by (cases x)
  have "okR (\<lambda>s'. shy f tx s' \<and> (\<forall>X. known X s \<longrightarrow> known X s')) (append_message_back c m s)" if "is_known p"
  proof -
    have "shy_known f tx c s" using Cons.prems that by (simp add: shy_known_def x)
    then show ?thesis
      using shy_known_append [of f tx c s m] known_append [of _ s c m]
      by (cases "append_message_back c m s") (simp_all add: shy_known_def)
  qed
  then have "okR (shy f tx) (bindR (append_message_back c m s) (append_to_known ps m))" if "is_known p"
    unfolding okR_bind by (rule okR_mono [OF _ Cons.IH]) (use that Cons.prems(2) in \<open>auto simp: x\<close>)
  then show ?case using Cons.IH Cons.prems by (simp add: x del: okR_bind)
qed simp

lemma shy_game_over:
  assumes "shy f tx s"
  shows "okR (shy f tx) (game_over s)"
proof -
  have "\<forall>(c, p) \<in> set (players s). is_known p \<longrightarrow> known {c} s"
    using sorted_map_of [of "players s"] assms by (auto simp: known_def shy_def)
  from shy_append_to_known [OF assms this]
  have loop: "okR (shy f tx) (bindR (append_to_known (players s) m s) (\<lambda>s.
           bindR (substr_from 8 str) (\<lambda>u. Inr (println (''Game end, scoring: '' @ u) s))))" for m str
    unfolding okR_bind by (rule okR_mono) (auto intro!: okR_all [of _ "substr_from _ _"])
  have "okR (shy f tx) (send_scoring_messages s)"
    unfolding send_scoring_messages_def okR_bind [of _ "scores_loop _ _"]
    by (rule okR_all) (use loop in \<open>auto split: option.split simp del: okR_bind\<close>)
  then show ?thesis unfolding game_over_def okR_bind by (rule okR_mono) simp
qed

lemma shy_successful_put:
  assumes "shy_known f tx c s"
  shows "okR (\<lambda>(r, s'). shy f tx s') (successful_put t c pt v s)"
  unfolding successful_put_def okR_bind
proof (rule ok_player, rule okR_all)
  fix p a
  assume p: "map_of (players s) c = Some p"
  let ?p = "p\<lparr>correct_puts := correct_puts p + 1, approximations := (approximations p)[nat pt := dadd a v]\<rparr>"
  let ?s = "set_player c ?p (s\<lparr>total_correct_puts := total_correct_puts s + 1\<rparr>)"
  have "shy_player (f c) (tx c) p" "is_known p" using assms p by (auto simp: shy_known_def known_def dest: shyD)
  then have s: "shy_known f tx c ?s"
    using assms by (auto simp: shy_known_def known_def map_of_map_put shy_player_def intro!: shy_set_player)
  have fin: "okR (\<lambda>(r, s'). shy f tx s') (if b then bindR (game_over s') (\<lambda>s. Inr (True, s)) else Inr (True, s'))"
    if "shy_known f tx c s'" for b s'
    using that okR_mono [OF shy_game_over [of f tx s']] by (simp add: shy_known_def)
  have "okR (\<lambda>(r, s'). shy f tx s') (bindR (respond_with_state t c m (println l ?s)) (\<lambda>s.
                 if M s \<le> total_correct_puts s then bindR (game_over s) (\<lambda>s. Inr (True, s)) else Inr (True, s)))" for m l
    unfolding okR_bind [of _ "respond_with_state _ _ _ _"]
    by (rule okR_mono [OF shy_state fin]) (use s in simp)
  then show "okR (\<lambda>(r, s'). shy f tx s') (let p = ?p; s = set_player c p (s\<lparr>total_correct_puts := total_correct_puts s + 1\<rparr>)
       in bindR (deref (create_state (approximations p))) (\<lambda>m.
          bindR (substr_from 6 (toRawString m)) (\<lambda>txt.
            let s = println (pl_id p @ '' puts '' @ doubleToString v @ '' in '' @ show_int pt @
                             '', current state '' @ txt) s
            in bindR (respond_with_state t c (raw_message m) s) (\<lambda>s.
                 if M s \<le> total_correct_puts s then bindR (game_over s) (\<lambda>s. Inr (True, s))
                 else Inr (True, s)))))"
    unfolding Let_def okR_bind [of _ "deref _"] okR_bind [of _ "substr_from _ _"]
    by (intro okR_all [of _ "deref _"] okR_all [of _ "substr_from _ _"])
qed

lemma shy_put:
  assumes "shy f tx s"
  shows "okR (\<lambda>(r, s'). shy f tx s') (server_handle_put t c pt v s)"
proof -
  have clear: "okR (shy_known f tx c) (upd_player c (\<lambda>p. p\<lparr>can_put := False\<rparr>) s')" if "shy_known f tx c s'" for s'
    by (rule shy_known_upd [OF that]) simp_all
  have early: "okR (shy_known f tx c) (if b then respond_with_penalty c pt v (println l s) else Inr s)"
    if "shy_known f tx c s" for b l
    using that shy_penalty by simp
  have bad: "okR (shy_known f tx c) (if b then respond_with_bad_put t c pt v (println l s') else Inr s')"
    if "shy_known f tx c s'" for b l s'
    using that shy_bad_put by simp
  have fin: "okR (\<lambda>(r, s'). shy f tx s') (if b then Inr (False, s') else successful_put t c pt v s')"
    if "shy_known f tx c s'" for b s'
    using that shy_successful_put by (simp add: shy_known_def)
  have run: ?thesis if k: "shy_known f tx c s"
    unfolding server_handle_put_def okR_bind Let_def
    using k okR_mono [OF early [OF k] okR_mono [OF clear okR_mono [OF bad fin]]]
    by (auto intro!: ok_player simp: shy_known_def simp del: okR_simps(3))
  show ?thesis
  proof (cases "known {c} s")
    case True
    then show ?thesis using run assms by (simp add: shy_known_def)
  next
    case False
    then show ?thesis using assms by (auto simp: server_handle_put_def known_def intro!: ok_player)
  qed
qed

lemma shy_hello:
  assumes "shy f tx s" and "pid \<noteq> ''UNKNOWN''" and "f c \<noteq> []"
  shows "okR (\<lambda>(r, s'). shy f tx s') (server_handle_hello c pid s)"
proof (cases "map_of (players s) c")
  case (Some p)
  have "shy f tx (set_player c q (s\<lparr>coeff_file := rest\<rparr>))" if "is_known q" "pl_id q = pid" for q rest
    using that assms by (intro shy_set_player) (simp_all add: shy_player_def)
  then show ?thesis
    using assms Some
    by (auto simp: server_handle_hello_def player_simps Let_def set_player_println println_coeff_file
        split: option.split payload.split prod.split)
qed (simp add: server_handle_hello_def player_def)

text \<open>A message from a client that is known, or a first HELLO under another name than UNKNOWN.\<close>

lemma shy_client_message:
  assumes "shy f tx s" and "known {c} s \<or> (\<exists>u. body m = HelloMessage u \<and> u \<noteq> ''UNKNOWN'' \<and> f c \<noteq> [])"
  shows "okR (\<lambda>(r, s'). shy f tx s') (handle_client_message t c m s)"
proof -
  have "okR (\<lambda>(r, s'). shy f tx s') (server_handle_hello c u s)" if "known {c} s" for u
    using that assms(1) by (auto simp: server_handle_hello_def player_def known_def)
  then show ?thesis
    using assms shy_put shy_hello
    by (auto simp: handle_client_message_def intro!: okR_all [of _ "player _ _"] split: payload.split)
qed

end
