(* ===== verification/Server_Greeted.thy ===== *)
theory Server_Greeted
  imports Server_Quiet "HOL-Library.Sublist"
begin

text \<open>
  The iterations of the server when its clients write what \<open>f\<close> says: until a client is known, what the
  server has read from it is the beginning of what the client has written, and it has been sent nothing.
\<close>

section \<open>The invariant\<close>

text \<open>Until its HELLO, the buffer of a client holds all that has been read from it.\<close>

definition heard_from :: "(int \<Rightarrow> string) \<Rightarrow> Server \<Rightarrow> int \<Rightarrow> bool" where
  "heard_from f w c \<longleftrightarrow> known {c} (logic w) \<or> (\<exists>b. map_of (client_buffers w) c = Some b \<and> prefix b (f c))"

definition quiet_but :: "int set \<Rightarrow> (int \<Rightarrow> string) \<Rightarrow> Server \<Rightarrow> bool" where
  "quiet_but X f w \<longleftrightarrow> shy f (stream_to w) (logic w) \<and> (\<forall>c. f c = [] \<longrightarrow> stream_to w c = []) \<and>
     (\<forall>c \<in> client_fds w - X. heard_from f w c)"

abbreviation quiet_ok :: "(int \<Rightarrow> string) \<Rightarrow> Server \<Rightarrow> bool" where
  "quiet_ok \<equiv> quiet_but {}"

lemma quiet_but_known: "quiet_but {c} f w \<Longrightarrow> known {c} (logic w) \<Longrightarrow> quiet_ok f w"
  by (auto simp: quiet_but_def heard_from_def)

lemma quiet_but_ok: "quiet_ok f w \<Longrightarrow> quiet_but X f w"
  by (simp add: quiet_but_def)

lemma quiet_logic:
  assumes "quiet_but X f w" and "shy f (stream_to w) s" and "\<And>c. known {c} (logic w) \<Longrightarrow> known {c} s"
  shows "quiet_but X f (w\<lparr>logic := s\<rparr>)"
  using assms by (auto simp: quiet_but_def heard_from_def)

lemma quiet_println [simp]: "quiet_but X f (w\<lparr>logic := println l (logic w)\<rparr>) = quiet_but X f w"
  by (simp add: quiet_but_def heard_from_def)

lemma quiet_fds:
  assumes "quiet_but X f w" and "map fd ps = map fd (poll_fds w)"
  shows "quiet_but X f (w\<lparr>poll_fds := ps\<rparr>)"
proof -
  have "map fd (tl ps) = map fd (tl (poll_fds w))" using assms(2) by (metis map_tl)
  then have "client_fds (w\<lparr>poll_fds := ps\<rparr>) = client_fds w" using fds_cong by (simp add: client_fds_def)
  then show ?thesis using assms(1) by (simp add: quiet_but_def heard_from_def)
qed

lemma quiet_on_logic:
  assumes "quiet_but X f w" and "okR (shy f (stream_to w)) (g (logic w))"
    and "\<And>c. known {c} (logic w) \<Longrightarrow> okR (known {c}) (g (logic w))"
  shows "okR (quiet_but X f) (on_logic g w)"
  using assms quiet_logic [OF assms(1)] by (cases "g (logic w)") (auto simp: on_logic_def)

lemma quiet_transmit:
  assumes "quiet_but X f w" and "known {c} (logic w)"
  shows "quiet_but X f (transmit c bs w)"
proof -
  have "shy_player (f d) (stream_to (transmit c bs w) d) p" if "map_of (players (logic w)) d = Some p" for d p
    using assms that by (auto simp: quiet_but_def stream_to_transmit shy_player_def known_def dest: shyD)
  moreover have "f c \<noteq> []"
    using assms by (auto simp: quiet_but_def known_def shy_player_def dest: shyD)
  ultimately show ?thesis
    using assms(1) by (auto simp: quiet_but_def shy_def heard_from_def stream_to_transmit)
qed

section \<open>Connections\<close>

lemma shy_erase: "shy f tx s \<Longrightarrow> shy f tx (s\<lparr>players := map_erase c (players s)\<rparr>)"
  by (auto simp: shy_def map_of_map_erase sorted_map_erase split: if_splits)

lemma shy_disconnect: "shy f tx s \<Longrightarrow> okR (shy f tx) (handle_client_disconnect c s)"
  using shy_erase [of f tx s c] by (auto simp: handle_client_disconnect_def shy_def intro!: okR_all [of _ "player _ _"])

lemma quiet_disconnect:
  assumes "server_ok w" and "quiet_but {c} f w" and "0 < i" and "i < length (poll_fds w)" and "fd (poll_fds w ! i) = c"
  shows "okR (quiet_ok f) (disconnect_client c i pid w)"
proof (cases "disconnect_client c i pid w")
  case (Inr w')
  let ?s = "println (''Disconnecting '' @ pid) (logic w)"
  obtain s where s: "handle_client_disconnect c ?s = Inr s"
    and w': "w' = w\<lparr>logic := s, poll_fds := remove_nth i (poll_fds w), client_buffers := map_erase c (client_buffers w)\<rparr>"
    using Inr assms(4) by (auto simp: disconnect_client_def bindR_eq_Inr)
  have ok: "server_ok w'" using ok_disconnect_client [of w i c pid] assms Inr by simp
  have ps: "players s = map_erase c (players (logic w))"
    using s by (auto simp: handle_client_disconnect_def player_def split: option.splits)
  have "shy f (stream_to w) s" using shy_disconnect [of f "stream_to w" ?s c] assms(2) s by (simp add: quiet_but_def)
  moreover have "heard_from f w' d" if "d \<in> client_fds w'" for d
  proof -
    have "map_of (players s) d \<noteq> None" using that connected_iff [OF ok, of d] by (simp add: w')
    then have d: "d \<noteq> c" "map_of (players (logic w)) d \<noteq> None" by (simp_all add: ps map_of_map_erase split: if_splits)
    then have "d \<in> client_fds w" using connected_iff [OF assms(1), of d] by blast
    then have "heard_from f w d" using assms(2) d(1) by (simp add: quiet_but_def)
    then show ?thesis using d(1) known_disconnect [of d ?s c] s by (auto simp: heard_from_def w' map_of_map_erase)
  qed
  ultimately show ?thesis using assms(2) Inr by (simp add: quiet_but_def w')
qed simp

lemma shy_register: "shy f tx s \<Longrightarrow> tx c = [] \<Longrightarrow> shy f tx (register_new_client c ip port s)"
  unfolding register_new_client_def by (intro shy_set_player) (simp_all add: shy_player_def)

text \<open>Whatever the new client has written already, nothing of it has been read.\<close>

lemma quiet_new_connection:
  assumes "quiet_ok f w" and "accepted inp = Some (c, ip, port)" and "poll_fds w \<noteq> []" and "c \<notin> client_fds w"
    and "map_of (players (logic w)) c = None"
  shows "quiet_ok (f(c := wrote)) (handle_new_connection inp w)"
proof -
  let ?w = "handle_new_connection inp w"
  have tx: "stream_to ?w = (stream_to w)(c := [])"
    by (simp add: handle_new_connection_def assms(2) Let_def stream_to_def map_of_map_put fun_eq_iff)
  have "shy (f(c := wrote)) ((stream_to w)(c := [])) (logic w)"
    using assms(1,5) by (auto simp: quiet_but_def shy_def)
  then have "shy (f(c := wrote)) ((stream_to w)(c := [])) (logic ?w)"
    by (simp add: handle_new_connection_def assms(2) Let_def shy_event shy_register)
  moreover have "heard_from (f(c := wrote)) ?w d" if "d \<in> client_fds ?w" for d
  proof (cases "d = c")
    case True
    then show ?thesis by (simp add: heard_from_def handle_new_connection_def assms(2) Let_def map_of_map_put)
  next
    case False
    then have "d \<in> client_fds w"
      using that assms(3) by (auto simp: client_fds_def handle_new_connection_def assms(2) Let_def new_pollfd_def)
    then have "heard_from f w d" using assms(1) by (simp add: quiet_but_def)
    then show ?thesis using False
      by (auto simp: heard_from_def handle_new_connection_def assms(2) Let_def map_of_map_put known_def register_new_client_def)
  qed
  ultimately show ?thesis using assms(1) by (simp add: quiet_but_def tx)
qed

section \<open>Timers\<close>

text \<open>The timers read nothing: they may remove clients and queue messages.\<close>

definition steady :: "Server \<Rightarrow> Server \<Rightarrow> bool" where
  "steady w w' \<longleftrightarrow> set (tl (poll_fds w')) \<subseteq> set (tl (poll_fds w)) \<and> hd (poll_fds w') = hd (poll_fds w) \<and>
     stream_to w' = stream_to w \<and>
     (\<forall>c \<in> client_fds w'. (known {c} (logic w) \<longrightarrow> known {c} (logic w')) \<and>
       map_of (client_buffers w') c = map_of (client_buffers w) c)"

lemma steady_refl [simp]: "steady w w"
  by (simp add: steady_def)

lemma steady_trans: "steady w w' \<Longrightarrow> steady w' w'' \<Longrightarrow> steady w w''"
  by (auto simp: steady_def client_fds_def)

lemma steady_logic: "(\<And>c. known {c} (logic w) \<Longrightarrow> known {c} s) \<Longrightarrow> steady w (w\<lparr>logic := s\<rparr>)"
  by (simp add: steady_def)

lemma steady_on_logic: "(\<And>c. known {c} (logic w) \<Longrightarrow> okR (known {c}) (g (logic w))) \<Longrightarrow> okR (steady w) (on_logic g w)"
  by (cases "g (logic w)") (auto simp: on_logic_def intro: steady_logic)

lemma steady_disconnect:
  assumes "server_ok w" and "0 < i" and "i < length (poll_fds w)" and "fd (poll_fds w ! i) = c"
  shows "okR (steady w) (disconnect_client c i pid w)"
proof (cases "disconnect_client c i pid w")
  case (Inr w')
  let ?s = "println (''Disconnecting '' @ pid) (logic w)"
  obtain s where s: "handle_client_disconnect c ?s = Inr s"
    and w': "w' = w\<lparr>logic := s, poll_fds := remove_nth i (poll_fds w), client_buffers := map_erase c (client_buffers w)\<rparr>"
    using Inr assms(3) by (auto simp: disconnect_client_def bindR_eq_Inr)
  have ok: "server_ok w'" using ok_disconnect_client [of w i c pid] assms Inr by simp
  have ps: "players s = map_erase c (players (logic w))"
    using s by (auto simp: handle_client_disconnect_def player_def split: option.splits)
  obtain l qs k where lqs: "poll_fds w = l # qs" "i = Suc k" using assms(2,3) by (cases "poll_fds w"; cases i) auto
  have "d \<noteq> c" if "d \<in> client_fds w'" for d
    using that connected_iff [OF ok, of d] by (auto simp: w' ps map_of_map_erase)
  moreover have "set (remove_nth k qs) \<subseteq> set qs" by (auto simp: remove_nth_def dest: in_set_takeD in_set_dropD)
  ultimately have "steady w w'"
    using known_disconnect [of _ ?s c] s by (auto simp: steady_def w' lqs map_of_map_erase)
  then show ?thesis by (simp add: Inr)
qed simp

text \<open>One event, and all that are due.\<close>

definition timer_ok :: "(int \<Rightarrow> string) \<Rightarrow> Server \<Rightarrow> Server \<Rightarrow> bool" where
  "timer_ok f w w' \<longleftrightarrow> server_ok w' \<and> quiet_ok f w' \<and> steady w w'"

lemma timer_hello:
  assumes "server_ok w" and "quiet_ok f w"
  shows "okR (timer_ok f w) (hello_callback c ip port w)"
proof (cases "validate_client c ip port (logic w)")
  case True
  then obtain p where p: "map_of (players (logic w)) c = Some p" by (auto simp: validate_client_def split: option.splits)
  then have "c \<in> client_fds w" using connected_iff [OF assms(1), of c] by simp
  moreover obtain l ps where lps: "poll_fds w = l # ps" using assms(1) by (auto simp: server_ok_def neq_Nil_conv)
  ultimately have in_ps: "c \<in> fd ` set (poll_fds w)" and "fd l \<noteq> c"
    using assms(1) by (auto simp: client_fds_def server_ok_def)
  let ?i = "index_of_fd c (poll_fds w)"
  have i: "0 < ?i" "?i < length (poll_fds w)" "fd (poll_fds w ! ?i) = c"
    using index_of_fd_spec [OF in_ps] \<open>fd l \<noteq> c\<close> by (auto simp: lps)
  have "okR (timer_ok f w) (disconnect_client c ?i pid (w\<lparr>logic := println m (logic w)\<rparr>))" for pid m
  proof -
    let ?w = "w\<lparr>logic := println m (logic w)\<rparr>"
    have w: "server_ok ?w" "quiet_but {c} f ?w" "steady w ?w"
      using assms server_ok_println quiet_but_ok steady_logic [of w "println m (logic w)"] by simp_all
    have "okR server_ok (disconnect_client c ?i pid ?w)" "okR (quiet_ok f) (disconnect_client c ?i pid ?w)"
      "okR (steady ?w) (disconnect_client c ?i pid ?w)"
      using w i by (simp_all add: ok_disconnect_client quiet_disconnect steady_disconnect)
    then show ?thesis using steady_trans [OF w(3)] by (cases "disconnect_client c ?i pid ?w") (simp_all add: timer_ok_def)
  qed
  then show ?thesis using assms p by (simp add: hello_callback_def player_def timer_ok_def)
qed (simp add: hello_callback_def assms timer_ok_def)

lemma timer_event:
  assumes "server_ok w" and "quiet_ok f w" and "named e"
  shows "okR (timer_ok f w) (call_event e w)"
proof -
  have shy: "shy f (stream_to w) (logic w)" using assms(2) by (simp add: quiet_but_def)
  have ok: "okR server_ok (call_event e w)" by (rule ok_call_event [OF assms(1)])
  have "okR (timer_ok f w) (on_logic g w)"
    if "call_event e w = on_logic g w" "okR (shy f (stream_to w)) (g (logic w))" "\<And>c. known {c} (logic w) \<Longrightarrow> okR (known {c}) (g (logic w))" for g
    using ok that assms(2) quiet_on_logic [of "{}" f w g] steady_on_logic [of w g]
    by (cases "on_logic g w") (auto simp: timer_ok_def)
  then show ?thesis
    using assms shy_callbacks [OF shy] known_callbacks timer_hello by (cases e) auto
qed

lemma timer_events:
  "server_ok w \<Longrightarrow> quiet_ok f w \<Longrightarrow> \<forall>(d, e) \<in> set evs. named e \<Longrightarrow>
   okR (\<lambda>(w', evs'). timer_ok f w w' \<and> set evs' \<subseteq> set evs) (check_timers call_event t evs w)"
proof (induction evs arbitrary: w)
  case (Cons x evs)
  obtain d e where x: "x = (d, e)" by (cases x)
  have "okR (\<lambda>(w', evs'). timer_ok f w w' \<and> set evs' \<subseteq> set (x # evs)) (bindR (call_event e w) (check_timers call_event t evs))"
    unfolding okR_bind
  proof (rule okR_mono [OF timer_event [OF Cons.prems(1,2)]])
    show "okR (\<lambda>(w'', evs'). timer_ok f w w'' \<and> set evs' \<subseteq> set (x # evs)) (check_timers call_event t evs w')" if "timer_ok f w w'" for w'
      by (rule okR_mono [OF Cons.IH]) (use that Cons.prems(3) steady_trans [of w w'] in \<open>auto simp: timer_ok_def\<close>)
  qed (use Cons.prems x in simp)
  then show ?case using Cons.prems by (simp add: x timer_ok_def)
qed (simp add: timer_ok_def)

lemma timers_quiet:
  assumes "server_ok w" and "quiet_ok f w"
  shows "okR (\<lambda>w'. quiet_ok f w' \<and> steady w w') (server_check_timers t w)"
proof -
  have ev: "\<forall>(d, e) \<in> set (events (logic w)). named e" using assms(2) by (simp add: quiet_but_def shy_def)
  show ?thesis
    unfolding server_check_timers_def okR_bind
  proof (rule okR_mono [OF timer_events [OF assms ev]], clarify)
    fix w' evs'
    assume w': "timer_ok f w w'" "set evs' \<subseteq> set (events (logic w))"
    then have "shy f (stream_to w') (logic w'\<lparr>events := evs'\<rparr>)" using ev by (auto simp: timer_ok_def quiet_but_def shy_def)
    then have "quiet_ok f (w'\<lparr>logic := logic w'\<lparr>events := evs'\<rparr>\<rparr>)" using w'(1) by (intro quiet_logic) (simp_all add: timer_ok_def)
    moreover have "steady w (w'\<lparr>logic := logic w'\<lparr>events := evs'\<rparr>\<rparr>)" using w'(1) by (simp add: timer_ok_def steady_def)
    ultimately show "okR (\<lambda>w'. quiet_ok f w' \<and> steady w w') (Inr (w'\<lparr>logic := logic w'\<lparr>events := evs'\<rparr>\<rparr>))" by simp
  qed
qed

section \<open>Reading\<close>

text \<open>What a client may have written that greets before anything else, and not as UNKNOWN.\<close>

definition greeting :: "string \<Rightarrow> bool" where
  "greeting buf \<longleftrightarrow> (case find_crlf buf of None \<Rightarrow> True
     | Some pos \<Rightarrow> (\<exists>m u. createMessageWithCRLF (take pos buf) = Some m \<and> body m = HelloMessage u \<and> u \<noteq> ''UNKNOWN''))"

definition well_greeted :: "string \<Rightarrow> bool" where
  "well_greeted s \<longleftrightarrow> (\<forall>b. prefix b s \<longrightarrow> greeting b)"

text \<open>What is read from a client that is not known goes on where the last read has ended.\<close>

definition fitting :: "(int \<Rightarrow> string) \<Rightarrow> inputs \<Rightarrow> Server \<Rightarrow> int \<Rightarrow> bool" where
  "fitting f inp w c \<longleftrightarrow> known {c} (logic w) \<or> (\<forall>bs. received inp c = Recv_bytes bs \<longrightarrow>
     (\<exists>b. map_of (client_buffers w) c = Some b \<and> prefix (b @ bs) (f c)))"

lemma greeting_hello: "greeting b \<Longrightarrow> hello_first b"
  by (auto simp: greeting_def hello_first_def split: option.splits)

lemma fitting_polite: "fitting f inp w c \<Longrightarrow> well_greeted (f c) \<Longrightarrow> polite inp w c"
  by (auto simp: fitting_def polite_def hello_bytes_def well_greeted_def greeting_hello split: recv_result.split)

lemma fitting_steady: "fitting f inp w c \<Longrightarrow> steady w w' \<Longrightarrow> c \<in> client_fds w' \<Longrightarrow> fitting f inp w' c"
  by (auto simp: fitting_def steady_def)

lemma fitting_spares: "fitting f inp w c \<Longrightarrow> spares cfd w w' \<Longrightarrow> c \<noteq> cfd \<Longrightarrow> fitting f inp w' c"
  by (auto simp: fitting_def spares_def)

lemma quiet_line:
  assumes "quiet_but {c} f w" and "handle_line t c i pid str w = Inr (Still_connected, w')"
    and "known {c} (logic w) \<or> (\<exists>m u. createMessageWithCRLF str = Some m \<and> body m = HelloMessage u \<and> u \<noteq> ''UNKNOWN'' \<and> f c \<noteq> [])"
  shows "quiet_ok f w' \<and> known {c} (logic w')"
proof -
  obtain s where s: "(case createMessageWithCRLF str of None \<Rightarrow> Inr (logic w)
      | Some m \<Rightarrow> bindR (handle_client_message t c m (logic w)) (\<lambda>(r, s). Inr s)) = Inr s" "known {c} s" "w' = w\<lparr>logic := s\<rparr>"
    using assms(2) unfolding handle_line_still_iff by blast
  have shy: "shy f (stream_to w) (logic w)" using assms(1) by (simp add: quiet_but_def)
  have "shy f (stream_to w) s \<and> (\<forall>X. known X (logic w) \<longrightarrow> known X s)"
  proof (cases "createMessageWithCRLF str")
    case None
    then show ?thesis using s(1) shy by simp
  next
    case (Some m)
    then obtain r where r: "handle_client_message t c m (logic w) = Inr (r, s)"
      using s(1) by (auto simp: bindR_eq_Inr)
    then show ?thesis
      using shy_client_message [OF shy, of c m t] known_client_message [of _ "logic w" t c m] assms(3) Some by auto
  qed
  then have "quiet_but {c} f w'" unfolding s(3) by (intro quiet_logic [OF assms(1)]) simp_all
  then show ?thesis using s(2,3) quiet_but_known by simp
qed

lemma quiet_rebuffer: "quiet_but {c} f w \<Longrightarrow> quiet_but {c} f (rebuffer c b w)"
  by (auto simp: quiet_but_def heard_from_def map_of_map_put)

lemma quiet_lines:
  "quiet_but {c} f w \<Longrightarrow> known {c} (logic w) \<Longrightarrow>
   okR (\<lambda>(e, w'). e = Still_connected \<longrightarrow> quiet_ok f w') (read_loop t c i pid buf w)"
proof (induction t c i pid buf w rule: read_loop.induct)
  case (1 t c i pid buf w)
  have re: "quiet_but {c} f (rebuffer c b w)" for b by (rule quiet_rebuffer [OF 1(2)])
  show ?case
  proof (cases "find_crlf buf")
    case None
    then show ?thesis using quiet_but_known [OF re] 1(3) by (subst read_loop.simps) simp
  next
    case (Some pos)
    let ?w = "rebuffer c (drop (pos + 2) buf) w"
    show ?thesis
    proof (cases "handle_line t c i pid (take pos buf) ?w")
      case (Inr r)
      obtain e w' where r: "r = (e, w')" by (cases r)
      show ?thesis
      proof (cases e)
        case Still_connected
        have "quiet_ok f w' \<and> known {c} (logic w')"
          using quiet_line [OF re] Inr 1(3) unfolding r Still_connected by simp
        then show ?thesis
          using 1(1) [OF Some Inr r [symmetric]] Inr quiet_but_ok by (subst read_loop.simps) (simp add: Some r Still_connected)
      next
        case Removed
        then show ?thesis using Inr by (subst read_loop.simps) (simp add: Some r)
      qed
    next
      case (Inl e)
      then show ?thesis by (subst read_loop.simps) (simp add: Some)
    qed
  qed
qed

lemma quiet_read_loop:
  assumes "quiet_ok f w" and "known {c} (logic w) \<or> prefix buf (f c) \<and> greeting buf"
  shows "okR (\<lambda>(e, w'). e = Still_connected \<longrightarrow> quiet_ok f w') (read_loop t c i pid buf w)"
proof (cases "known {c} (logic w)")
  case True
  then show ?thesis by (rule quiet_lines [OF quiet_but_ok [OF assms(1)]])
next
  case False
  then have buf: "prefix buf (f c)" "greeting buf" using assms(2) by simp_all
  have re: "quiet_but {c} f (rebuffer c b w)" for b by (rule quiet_rebuffer [OF quiet_but_ok [OF assms(1)]])
  show ?thesis
  proof (cases "find_crlf buf")
    case None
    have "quiet_ok f (rebuffer c buf w)" using assms(1) buf(1) by (auto simp: quiet_but_def heard_from_def map_of_map_put)
    then show ?thesis by (subst read_loop.simps) (simp add: None)
  next
    case (Some pos)
    let ?w = "rebuffer c (drop (pos + 2) buf) w"
    obtain m u where m: "createMessageWithCRLF (take pos buf) = Some m" "body m = HelloMessage u" "u \<noteq> ''UNKNOWN''"
      using buf(2) Some by (auto simp: greeting_def)
    have "f c \<noteq> []" using buf(1) Some by auto
    then have line: "quiet_ok f w' \<and> known {c} (logic w')"
      if "handle_line t c i pid (take pos buf) ?w = Inr (Still_connected, w')" for w'
      using quiet_line [OF re that] m by blast
    show ?thesis
    proof (cases "handle_line t c i pid (take pos buf) ?w")
      case (Inr r)
      obtain e w' where r: "r = (e, w')" by (cases r)
      show ?thesis
        using Inr line [of w'] quiet_lines [of c f w' t i pid "drop (pos + 2) buf"] quiet_but_ok [of f w' "{c}"]
        by (subst read_loop.simps) (cases e; simp add: Some r)
    next
      case (Inl e)
      then show ?thesis by (subst read_loop.simps) (simp add: Some)
    qed
  qed
qed

lemma quiet_handle_read:
  assumes "server_ok w" and "quiet_ok f w" and "0 < i" and "i < length (poll_fds w)"
    and "fitting f inp w (fd (poll_fds w ! i))" and "well_greeted (f (fd (poll_fds w ! i)))"
  shows "okR (\<lambda>(b, e, w'). b \<longrightarrow> e = Still_connected \<longrightarrow> quiet_ok f w') (handle_read_from_client inp i w)"
    and "okR (\<lambda>(b, e, w'). \<not> b \<longrightarrow> quiet_ok f w') (handle_read_from_client inp i w)"
proof -
  let ?c = "fd (poll_fds w ! i)"
  have gone: "okR (quiet_ok f) (disconnect_client ?c i pid w)" for pid
    using assms quiet_but_ok by (intro quiet_disconnect) simp_all
  have lines: "okR (\<lambda>(e, w'). e = Still_connected \<longrightarrow> quiet_ok f w')
      (read_loop (now inp) ?c i pid ((case map_of (client_buffers w) ?c of None \<Rightarrow> [] | Some b \<Rightarrow> b) @ bs) w)"
    if "received inp ?c = Recv_bytes bs" for bs pid
    using that assms(5,6) by (intro quiet_read_loop [OF assms(2)]) (auto simp: fitting_def well_greeted_def)
  show "okR (\<lambda>(b, e, w'). b \<longrightarrow> e = Still_connected \<longrightarrow> quiet_ok f w') (handle_read_from_client inp i w)"
    using assms(4) lines by (auto simp: handle_read_from_client_def Let_def case_prod_beta' split: recv_result.split
      intro!: okR_all [of _ "getClientPlayerID _ _"] okR_all [of _ "disconnect_client _ _ _ _"])
  show "okR (\<lambda>(b, e, w'). \<not> b \<longrightarrow> quiet_ok f w') (handle_read_from_client inp i w)"
    using assms(4) gone by (auto simp: handle_read_from_client_def Let_def split: recv_result.split
      intro!: okR_all [of _ "getClientPlayerID _ _"] okR_all [of _ "read_loop _ _ _ _ _ _"])
qed

section \<open>Writing\<close>

lemma quiet_queue:
  assumes "quiet_but X f w" and "map_of (players (logic w)) c = Some p" and "messages p \<noteq> []"
  shows "known {c} (logic w)" and "quiet_but X f (w\<lparr>logic := set_player c (p\<lparr>messages := q\<rparr>) (logic w)\<rparr>)"
    and "known {c} (set_player c (p\<lparr>messages := q\<rparr>) (logic w))"
proof -
  have shy: "shy f (stream_to w) (logic w)" using assms(1) by (simp add: quiet_but_def)
  then have p: "is_known p" using shyD [OF shy assms(2)] assms(3) by (auto simp: shy_player_def split: if_splits)
  then show k: "known {c} (logic w)" using assms(2) by (simp add: known_def)
  have "shy_player (f c) (stream_to w c) (p\<lparr>messages := q\<rparr>)" using shyD [OF shy assms(2)] p by (simp add: shy_player_def)
  then show "quiet_but X f (w\<lparr>logic := set_player c (p\<lparr>messages := q\<rparr>) (logic w)\<rparr>)"
    using p by (intro quiet_logic [OF assms(1)] shy_set_player [OF shy]) (auto simp: known_def map_of_map_put)
  show "known {c} (set_player c (p\<lparr>messages := q\<rparr>) (logic w))" using p by (simp add: known_def map_of_map_put)
qed

lemma take_next_message:
  assumes "take_next_message_str c s = Inr (m, s')"
  shows "\<exists>p ms. map_of (players s) c = Some p \<and> messages p = m # ms \<and> s' = set_player c (p\<lparr>messages := ms\<rparr>) s"
  using assms by (auto simp: take_next_message_str_def player_def split: option.splits list.splits)

lemma quiet_handle_write:
  assumes "server_ok w" and "quiet_ok f w" and "0 < i" and "i < length (poll_fds w)"
  shows "okR (\<lambda>(b, w'). quiet_ok f w') (handle_write_to_client inp i w)"
proof -
  let ?c = "fd (poll_fds w ! i)"
  have "map fd ((poll_fds w)[i := (poll_fds w ! i)\<lparr>pollout := False\<rparr>]) = map fd (poll_fds w)"
    using list_update_id [of "map fd (poll_fds w)" i] assms(4) by (simp add: map_update)
  from quiet_fds [OF assms(2) this]
  have clear: "quiet_ok f (w\<lparr>poll_fds := (poll_fds w)[i := (poll_fds w ! i)\<lparr>pollout := False\<rparr>]\<rparr>)" .
  have sent: "okR (\<lambda>(b, w'). quiet_ok f w') (write_message inp ?c i pid m (w\<lparr>logic := s\<rparr>))"
    if take: "take_next_message_str ?c (logic w) = Inr (m, s)" for m s pid
  proof -
    obtain p ms where p: "map_of (players (logic w)) ?c = Some p" "messages p = m # ms"
        "s = set_player ?c (p\<lparr>messages := ms\<rparr>) (logic w)"
      using take_next_message [OF take] by blast
    have q: "quiet_ok f (w\<lparr>logic := s\<rparr>)" "known {?c} s" using quiet_queue [OF assms(2) p(1)] p(2,3) by simp_all
    have "server_ok (w\<lparr>logic := s\<rparr>)"
      using okR_value [OF ok_take_next [OF server_ok_game [OF assms(1)]] take] server_ok_logic [OF assms(1)] by simp
    then have gone: "okR (quiet_ok f) (disconnect_client ?c i pid (w\<lparr>logic := s\<rparr>))"
      using assms(3,4) q(1) quiet_but_ok by (intro quiet_disconnect) simp_all
    have whole: "quiet_ok f (transmit ?c bs (w\<lparr>logic := s\<rparr>))" for bs using q by (intro quiet_transmit) simp_all
    have "okR (quiet_ok f) (on_logic (append_message_front ?c r) (transmit ?c bs (w\<lparr>logic := s\<rparr>)))" for r bs
    proof (rule quiet_on_logic [OF whole])
      have "shy_known f (stream_to (transmit ?c bs (w\<lparr>logic := s\<rparr>))) ?c s" using whole [of bs] q(2) by (simp add: quiet_but_def shy_known_def)
      then have "okR (shy_known f (stream_to (transmit ?c bs (w\<lparr>logic := s\<rparr>))) ?c) (append_message_front ?c r s)"
        unfolding append_message_front_def by (rule shy_known_upd) simp_all
      then show "okR (shy f (stream_to (transmit ?c bs (w\<lparr>logic := s\<rparr>)))) (append_message_front ?c r (logic (transmit ?c bs (w\<lparr>logic := s\<rparr>))))"
        by (cases "append_message_front ?c r s") (simp_all add: shy_known_def)
    qed (simp add: known_append_front)
    then show ?thesis using q(1) whole gone by (simp add: write_message_def Let_def)
  qed
  have "okR (\<lambda>x. okR (\<lambda>(b, w'). quiet_ok f w') (case x of (m, s) \<Rightarrow> write_message inp ?c i pid m (w\<lparr>logic := s\<rparr>)))
      (take_next_message_str ?c (logic w))" for pid
    using sent by (cases "take_next_message_str ?c (logic w)") auto
  then show ?thesis
    using assms(4) clear
    by (auto simp: handle_write_to_client_def intro!: okR_all [of _ "getClientPlayerID _ _"] okR_all [of _ "has_pending_messages _ _"])
qed

lemma quiet_flush_client: "quiet_ok f w \<Longrightarrow> okR (quiet_ok f) (flush_client inp c n fuel w)"
proof (induction fuel arbitrary: n w)
  case (Suc fuel)
  have "okR (quiet_ok f) (let w = w\<lparr>logic := s\<rparr> in
         if m = [] then Inr w
         else
           let written = send_result inp c n m;
               w = transmit c (take (nat written) m) w in
           if written \<noteq> int (length m) then Inr w
           else flush_client inp c (Suc n) fuel w)" if take: "take_next_message_str c (logic w) = Inr (m, s)" for m s
  proof -
    obtain p ms where p: "map_of (players (logic w)) c = Some p" "messages p = m # ms"
        "s = set_player c (p\<lparr>messages := ms\<rparr>) (logic w)"
      using take_next_message [OF take] by blast
    have q: "quiet_ok f (w\<lparr>logic := s\<rparr>)" "known {c} s" using quiet_queue [OF Suc.prems p(1)] p(2,3) by simp_all
    then have "quiet_ok f (transmit c bs (w\<lparr>logic := s\<rparr>))" for bs by (intro quiet_transmit) simp_all
    then show ?thesis using q Suc.IH by (simp add: Let_def)
  qed
  then show ?case
    using Suc.prems by (cases "take_next_message_str c (logic w)") (auto intro!: okR_all [of _ "has_pending_messages _ _"])
qed simp

lemma quiet_flush_all: "quiet_ok f w \<Longrightarrow> okR (quiet_ok f) (flush_all inp ps w)"
proof (induction ps arbitrary: w)
  case (Cons p ps)
  have "okR (quiet_ok f) (bindR (flush_client inp (fd p) 0 n w) (flush_all inp ps))" for n
    unfolding okR_bind by (rule okR_mono [OF quiet_flush_client [OF Cons.prems]]) (rule Cons.IH)
  then show ?case by (auto simp del: okR_bind simp: okR_bind [of _ "player _ _"] intro!: okR_all [of _ "player _ _"])
qed simp

lemma quiet_reset:
  assumes "quiet_ok f w"
  shows "okR (quiet_ok f) (bindR (reset_server inp w) (\<lambda>w. Inr (w\<lparr>logic := server_reset (logic w)\<rparr>)))"
proof -
  have "quiet_ok f (w'\<lparr>poll_fds := take 1 (poll_fds w'), client_buffers := [], logic := server_reset (logic w')\<rparr>)" if "quiet_ok f w'" for w'
    using that by (cases "poll_fds w'") (simp_all add: quiet_but_def shy_def server_reset_def reset_events_def client_fds_def)
  then show ?thesis
    using okR_mono [OF quiet_flush_all [OF assms, of inp "drop 1 (poll_fds w)"]] by (simp add: reset_server_def)
qed

section \<open>The loop over the clients\<close>

definition greeted_from :: "(int \<Rightarrow> string) \<Rightarrow> inputs \<Rightarrow> nat \<Rightarrow> Server \<Rightarrow> bool" where
  "greeted_from f inp i w \<longleftrightarrow> server_safe w \<and> quiet_ok f w \<and>
     (\<forall>j. i \<le> j \<longrightarrow> j < length (poll_fds w) \<longrightarrow> rev_in (poll_fds w ! j) \<longrightarrow> fitting f inp w (fd (poll_fds w ! j)))"

lemma greeted_ready: "greeted_from f inp i w \<Longrightarrow> \<forall>c. well_greeted (f c) \<Longrightarrow> ready_from inp i w"
  by (auto simp: greeted_from_def ready_from_def intro: fitting_polite)

lemma greeted_Suc: "greeted_from f inp i w \<Longrightarrow> greeted_from f inp (Suc i) w"
  by (simp add: greeted_from_def)

lemma greeted_removed:
  assumes "greeted_from f inp (Suc i) w" and "spares (fd (poll_fds w ! i)) w w'" and "poll_fds w' = remove_nth i (poll_fds w)"
    and "i < length (poll_fds w)" and "server_safe w'" and "quiet_ok f w'"
  shows "greeted_from f inp i w'"
  unfolding greeted_from_def
proof (intro conjI allI impI)
  fix j
  assume j: "i \<le> j" "j < length (poll_fds w')" "rev_in (poll_fds w' ! j)"
  have nth: "poll_fds w' ! j = poll_fds w ! Suc j" "Suc j < length (poll_fds w)"
    using j(1,2) assms(3,4) by (simp_all add: remove_nth_def nth_append)
  have "distinct (map fd (poll_fds w))"
    using assms(1) by (simp add: greeted_from_def server_safe_def server_ok_def)
  then have "fd (poll_fds w ! Suc j) \<noteq> fd (poll_fds w ! i)"
    using nth(2) assms(4) j(1) by (simp add: distinct_conv_nth)
  then show "fitting f inp w' (fd (poll_fds w' ! j))"
    using fitting_spares [OF _ assms(2)] assms(1) nth j(1,3) by (simp add: greeted_from_def)
qed (rule assms(5), rule assms(6))

text \<open>A client that stays: the flags are those that \<open>poll\<close> has set.\<close>

lemma greeted_same:
  assumes "greeted_from f inp (Suc i) w" and "spares (fd (poll_fds w ! i)) w w'"
    and "map fd (poll_fds w') = map fd (poll_fds w)" and "map rev_in (poll_fds w') = map rev_in (poll_fds w)"
    and "i < length (poll_fds w)" and "server_safe w'" and "quiet_ok f w'"
  shows "greeted_from f inp (Suc i) w'"
  unfolding greeted_from_def
proof (intro conjI allI impI)
  fix j
  assume j: "Suc i \<le> j" "j < length (poll_fds w')" "rev_in (poll_fds w' ! j)"
  have len: "j < length (poll_fds w)" using j(2) assms(3) by (metis length_map)
  then have same: "fd (poll_fds w' ! j) = fd (poll_fds w ! j)" "rev_in (poll_fds w' ! j) = rev_in (poll_fds w ! j)"
    using j(2) assms(3,4) by (metis nth_map)+
  have "distinct (map fd (poll_fds w))"
    using assms(1) by (simp add: greeted_from_def server_safe_def server_ok_def)
  then have "fd (poll_fds w ! j) \<noteq> fd (poll_fds w ! i)"
    using len assms(5) j(1) by (simp add: distinct_conv_nth)
  then show "fitting f inp w' (fd (poll_fds w' ! j))"
    using fitting_spares [OF _ assms(2)] assms(1) same j(1,3) len by (simp add: greeted_from_def)
qed (rule assms(6), rule assms(7))

text \<open>What a client's turn leaves to the others.\<close>

definition turn :: "nat \<Rightarrow> Server \<Rightarrow> bool \<Rightarrow> Server \<Rightarrow> bool" where
  "turn i w b w' \<longleftrightarrow> spares (fd (poll_fds w ! i)) w w' \<and>
     (if b then map fd (poll_fds w') = map fd (poll_fds w) \<and> map rev_in (poll_fds w') = map rev_in (poll_fds w)
      else poll_fds w' = remove_nth i (poll_fds w))"

lemma turn_disconnect: "okR (turn i w False) (disconnect_client (fd (poll_fds w ! i)) i pid w)"
  using known_disconnect [of _ "println (''Disconnecting '' @ pid) (logic w)" "fd (poll_fds w ! i)"]
  by (cases "handle_client_disconnect (fd (poll_fds w ! i)) (println (''Disconnecting '' @ pid) (logic w))")
    (auto simp: disconnect_client_def turn_def spares_def map_of_map_erase)

lemma turn_read: "okR (\<lambda>(b, e, w'). \<not> b \<longrightarrow> turn i w False w') (handle_read_from_client inp i w)"
  using turn_disconnect [of i w]
  by (auto simp: handle_read_from_client_def Let_def nth_chk_def split: recv_result.split
      intro!: okR_all [of _ "getClientPlayerID _ _"] okR_all [of _ "read_loop _ _ _ _ _ _"])

lemma turn_write:
  assumes "i < length (poll_fds w)"
  shows "okR (\<lambda>(b, w'). turn i w b w') (handle_write_to_client inp i w)"
proof -
  let ?c = "fd (poll_fds w ! i)"
  have "map fd ((poll_fds w)[i := (poll_fds w ! i)\<lparr>pollout := False\<rparr>]) = map fd (poll_fds w)"
    "map rev_in ((poll_fds w)[i := (poll_fds w ! i)\<lparr>pollout := False\<rparr>]) = map rev_in (poll_fds w)"
    using list_update_id [of "map fd (poll_fds w)" i] list_update_id [of "map rev_in (poll_fds w)" i] assms
    by (simp_all add: map_update)
  then have clear: "turn i w True (w\<lparr>poll_fds := (poll_fds w)[i := (poll_fds w ! i)\<lparr>pollout := False\<rparr>]\<rparr>)"
    by (simp add: turn_def spares_def)
  have sent: "okR (\<lambda>(b, w'). turn i w b w') (write_message inp ?c i pid m (w\<lparr>logic := s\<rparr>))"
    if take: "take_next_message_str ?c (logic w) = Inr (m, s)" for m s pid
  proof -
    have k: "known X s" if "known X (logic w)" for X
      using okR_value [OF known_take_next [OF that] take] by simp
    have gone: "okR (turn i w False) (disconnect_client ?c i pid (w\<lparr>logic := s\<rparr>))"
      using turn_disconnect [of i "w\<lparr>logic := s\<rparr>" pid] k by (auto simp: turn_def spares_def elim!: okR_mono)
    have keep: "turn i w True (transmit ?c bs (w\<lparr>logic := s'\<rparr>))" if "\<forall>X. known X (logic w) \<longrightarrow> known X s'" for bs s'
      using that by (simp add: turn_def spares_def)
    have "okR (turn i w True) (on_logic (append_message_front ?c r) (transmit ?c bs (w\<lparr>logic := s\<rparr>)))" for r bs
    proof (cases "append_message_front ?c r s")
      case (Inr s')
      then have "\<forall>X. known X (logic w) \<longrightarrow> known X s'" using k known_append_front [of _ s ?c r] by fastforce
      then show ?thesis using keep Inr by (simp add: on_logic_def transmit_logic)
    qed (simp add: on_logic_def)
    moreover have "turn i w True (w\<lparr>logic := s\<rparr>)" "turn i w True (transmit ?c bs (w\<lparr>logic := s\<rparr>))" for bs
      using k by (simp_all add: turn_def spares_def)
    ultimately show ?thesis using gone by (simp add: write_message_def Let_def)
  qed
  have "okR (\<lambda>x. okR (\<lambda>(b, w'). turn i w b w') (case x of (m, s) \<Rightarrow> write_message inp ?c i pid m (w\<lparr>logic := s\<rparr>)))
      (take_next_message_str ?c (logic w))" for pid
    using sent by (cases "take_next_message_str ?c (logic w)") auto
  then show ?thesis
    using assms clear
    by (auto simp: handle_write_to_client_def intro!: okR_all [of _ "getClientPlayerID _ _"] okR_all [of _ "has_pending_messages _ _"])
qed

lemma safeR_weak: "safeR P r \<Longrightarrow> okR P r"
  by (cases r) simp_all

lemma okR_both: "okR P r \<Longrightarrow> okR Q r \<Longrightarrow> okR (\<lambda>x. P x \<and> Q x) r"
  by (cases r) simp_all

lemma greeted_loop:
  "greeted_from f inp i w \<Longrightarrow> 0 < i \<Longrightarrow> sends_ok inp \<Longrightarrow> \<not> stopping (logic w) \<Longrightarrow> \<forall>c. well_greeted (f c) \<Longrightarrow>
   okR (quiet_ok f) (clients_loop inp i n w)"
proof (induction n arbitrary: i w)
  case 0
  then show ?case by (simp add: greeted_from_def)
next
  case (Suc n)
  note wg = Suc.prems(5)
  have ss: "server_safe w" and q: "quiet_ok f w" using Suc.prems(1) by (simp_all add: greeted_from_def)
  then have ok: "server_ok w" by (simp add: server_safe_def)
  note ready = greeted_ready [OF Suc.prems(1) wg]
  show ?case
  proof (cases "length (poll_fds w) \<le> i")
    case False
    then have i: "i < length (poll_fds w)" by simp
    let ?cfd = "fd (poll_fds w ! i)"
    have next_removed: "greeted_from f inp i w'" if "turn i w False w'" "server_safe w'" "quiet_ok f w'" for w'
      using that greeted_removed [OF greeted_Suc [OF Suc.prems(1)] _ _ i] by (simp add: turn_def)
    have hup: "okR (quiet_ok f) (bindR (disconnect_client ?cfd i pid w) (clients_loop inp i n))" for pid
    proof -
      have "okR (\<lambda>w'. (server_safe w' \<and> spares ?cfd w w' \<and> poll_fds w' = remove_nth i (poll_fds w)) \<and> quiet_ok f w' \<and>
          turn i w False w' \<and> same_end w w') (disconnect_client ?cfd i pid w)"
        using Suc.prems(2) i quiet_but_ok [OF q]
        by (intro okR_both safeR_weak [OF safe_disconnect_client [OF ss]] quiet_disconnect [OF ok] turn_disconnect same_end_disconnect_now) simp_all
      then show ?thesis
        unfolding okR_bind by (rule okR_mono) (use Suc.IH Suc.prems next_removed in \<open>auto simp: same_end_def\<close>)
    qed
    have wr: "okR (quiet_ok f) (bindR (handle_write_to_client inp i w') (\<lambda>(ok, w). clients_loop inp (if ok then Suc i else i) n w))"
      if g: "greeted_from f inp (Suc i) w'" and p: "poll_fds w' = poll_fds w" and s: "\<not> stopping (logic w')" for w'
    proof -
      have i': "i < length (poll_fds w')" using i p by simp
      have w': "server_ok w'" "quiet_ok f w'" using g by (simp_all add: greeted_from_def server_safe_def)
      have "okR (\<lambda>x. (case x of (b, w'') \<Rightarrow> ready_from inp (if b then Suc i else i) w'') \<and> (case x of (b, w'') \<Rightarrow> quiet_ok f w'') \<and>
          (case x of (b, w'') \<Rightarrow> turn i w' b w'') \<and> (case x of (b, w'') \<Rightarrow> same_end w' w'')) (handle_write_to_client inp i w')"
        using Suc.prems(2,3) i' greeted_ready [OF g wg]
        by (intro okR_both safeR_weak [OF safe_handle_write] quiet_handle_write [OF w'] turn_write same_end_write)
      then show ?thesis
        unfolding okR_bind
      proof (rule okR_mono, clarify)
        fix b w''
        assume r: "ready_from inp (if b then Suc i else i) w''" "quiet_ok f w''" "turn i w' b w''" "same_end w' w''"
        have "greeted_from f inp (if b then Suc i else i) w''"
          using r greeted_removed [OF g _ _ i'] greeted_same [OF g _ _ _ i'] ready_server_safe [OF r(1)]
          by (cases b) (simp_all add: turn_def)
        then show "okR (quiet_ok f) (clients_loop inp (if b then Suc i else i) n w'')"
          using Suc.prems(2,3,5) r(4) s by (intro Suc.IH) (simp_all add: same_end_def)
      qed
    qed
    have rd: "okR (\<lambda>(b, e, w'). (if b then e = Still_connected \<and> greeted_from f inp (Suc i) w' \<and> poll_fds w' = poll_fds w
          else greeted_from f inp i w' \<and> \<not> stopping (logic w')))
        (if rev_in (poll_fds w ! i) then handle_read_from_client inp i w else Inr (True, Still_connected, w))"
    proof (cases "rev_in (poll_fds w ! i)")
      case True
      have fit: "fitting f inp w ?cfd" using Suc.prems(1) i True by (simp add: greeted_from_def)
      have "okR (\<lambda>x. (case x of (b, e, w') \<Rightarrow> if b then e = Still_connected \<and> server_safe w' \<and> poll_fds w' = poll_fds w \<and> spares ?cfd w w'
            else ready_from inp i w') \<and> (case x of (b, e, w') \<Rightarrow> b \<longrightarrow> e = Still_connected \<longrightarrow> quiet_ok f w') \<and>
          (case x of (b, e, w') \<Rightarrow> \<not> b \<longrightarrow> quiet_ok f w') \<and> (case x of (b, e, w') \<Rightarrow> \<not> b \<longrightarrow> turn i w False w') \<and>
          (case x of (b, e, w') \<Rightarrow> \<not> b \<longrightarrow> same_end w w')) (handle_read_from_client inp i w)"
        using wg
        by (intro okR_both safeR_weak [OF safe_handle_read [OF ready Suc.prems(2) i True Suc.prems(4)]]
            quiet_handle_read [OF ok q Suc.prems(2) i fit] turn_read same_end_read) simp_all
      then have "okR (\<lambda>(b, e, w'). (if b then e = Still_connected \<and> greeted_from f inp (Suc i) w' \<and> poll_fds w' = poll_fds w
          else greeted_from f inp i w' \<and> \<not> stopping (logic w'))) (handle_read_from_client inp i w)"
      proof (rule okR_mono, clarify)
        fix b e w'
        assume r: "if b then e = Still_connected \<and> server_safe w' \<and> poll_fds w' = poll_fds w \<and> spares ?cfd w w' else ready_from inp i w'"
            "b \<longrightarrow> e = Still_connected \<longrightarrow> quiet_ok f w'" "\<not> b \<longrightarrow> quiet_ok f w'" "\<not> b \<longrightarrow> turn i w False w'" "\<not> b \<longrightarrow> same_end w w'"
        show "if b then e = Still_connected \<and> greeted_from f inp (Suc i) w' \<and> poll_fds w' = poll_fds w
            else greeted_from f inp i w' \<and> \<not> stopping (logic w')"
          using r greeted_same [OF greeted_Suc [OF Suc.prems(1)] _ _ _ i] next_removed [of w'] ready_server_safe [of inp i w'] Suc.prems(4)
          by (cases b) (simp_all add: same_end_def)
      qed
      then show ?thesis using True by simp
    next
      case False
      then show ?thesis using Suc.prems greeted_Suc by simp
    qed
    have body: "okR (quiet_ok f) (bindR (if rev_in (poll_fds w ! i) then handle_read_from_client inp i w else Inr (True, Still_connected, w))
            (\<lambda>(ok, e, w).
              if \<not> ok then clients_loop inp i n w
              else if stopping (logic w) then Inr w
              else if e = Removed then Inl Undefined
              else if rev_out (poll_fds w0 ! i)
              then bindR (handle_write_to_client inp i w) (\<lambda>(ok, w).
                     clients_loop inp (if ok then Suc i else i) n w)
              else clients_loop inp (Suc i) n w))" for w0
      unfolding okR_bind [of _ "if rev_in _ then _ else _"]
      by (rule okR_mono [OF rd])
        (use wr Suc.IH Suc.prems(2,3,5) in \<open>auto simp: greeted_from_def split: if_splits simp del: okR_bind\<close>)
    show ?thesis
    proof (cases "rev_hup (poll_fds w ! i)")
      case True
      then show ?thesis
        using hup False by (simp add: Let_def del: okR_bind add: okR_bind [of _ "getClientPlayerID _ _"] okR_all)
    next
      case nohup: False
      show ?thesis
        using body [of w] by (simp only: clients_loop.simps Let_def False nohup if_False)
    qed
  qed (use q in simp)
qed

section \<open>Iterations\<close>

definition greeted_clients :: "(int \<Rightarrow> string) \<Rightarrow> inputs \<Rightarrow> Server \<Rightarrow> bool" where
  "greeted_clients f inp w \<longleftrightarrow> server_safe w \<and> quiet_ok f w \<and> (\<forall>p \<in> set (tl (poll_fds w)). rev_in p \<longrightarrow> fitting f inp w (fd p))"

lemma greeted_clients_iff: "greeted_clients f inp w \<longleftrightarrow> greeted_from f inp 1 w"
proof -
  have "(\<forall>p \<in> set (tl ps). P p) \<longleftrightarrow> (\<forall>j. 1 \<le> j \<longrightarrow> j < length ps \<longrightarrow> P (ps ! j))" for ps :: "pollfd list" and P
    by (cases ps) (auto simp: all_set_conv_all_nth nth_Cons' dest: spec [of _ "Suc _"])
  then show ?thesis by (simp add: greeted_clients_def greeted_from_def)
qed

lemma greeted_clients_ready: "greeted_clients f inp w \<Longrightarrow> \<forall>c. well_greeted (f c) \<Longrightarrow> ready_clients inp w"
  using greeted_ready [of f inp 1 w] by (simp add: greeted_clients_iff ready_clients_iff)

lemma greeted_clients_poll_fds:
  assumes "greeted_clients f inp w" and "\<forall>c. well_greeted (f c)"
    and "map fd ps = map fd (tl (poll_fds w))" and "map rev_in ps = map rev_in (tl (poll_fds w))"
  shows "greeted_clients f inp (w\<lparr>poll_fds := take 1 (poll_fds w) @ ps\<rparr>)"
proof -
  let ?w = "w\<lparr>poll_fds := take 1 (poll_fds w) @ ps\<rparr>"
  have ss: "server_safe ?w"
    using ready_clients_poll_fds [OF greeted_clients_ready [OF assms(1,2)] assms(3,4)] by (simp add: ready_clients_def)
  obtain l qs where lqs: "poll_fds w = l # qs"
    using assms(1) by (auto simp: greeted_clients_def server_safe_def server_ok_def neq_Nil_conv)
  have quiet: "quiet_ok f ?w" using assms(1,3) by (intro quiet_fds) (simp_all add: greeted_clients_def lqs)
  have "fitting f inp ?w (fd p)" if p: "p \<in> set ps" "rev_in p" for p
  proof -
    obtain j where j: "j < length ps" "p = ps ! j" using p(1) by (auto simp: in_set_conv_nth)
    have "length qs = length ps" using assms(3) lqs by (metis length_map list.sel(3))
    moreover have "map fd qs ! j = map fd ps ! j" "map rev_in qs ! j = map rev_in ps ! j" using assms(3,4) by (simp_all add: lqs)
    ultimately have q: "fd (qs ! j) = fd p" "rev_in (qs ! j) = rev_in p" "qs ! j \<in> set qs" using j by simp_all
    have "\<forall>p \<in> set qs. rev_in p \<longrightarrow> fitting f inp w (fd p)" using assms(1) by (simp add: greeted_clients_def lqs)
    from this [rule_format, OF q(3)] show ?thesis using q(1,2) p(2) by (simp add: fitting_def)
  qed
  then show ?thesis using ss quiet by (simp add: greeted_clients_def lqs)
qed

lemma greeted_new_connection:
  assumes "greeted_clients f inp w" and "\<forall>c. well_greeted (f c)" and "fresh_fd inp w" and "accepted inp = Some (c, ip, port)"
  shows "greeted_clients (f(c := wrote)) inp (handle_new_connection inp w)"
proof -
  let ?w = "handle_new_connection inp w"
  have ss: "server_safe ?w"
    using ready_new_connection [OF greeted_clients_ready [OF assms(1,2)] assms(3)] by (simp add: ready_clients_def)
  have ok: "server_ok w" using assms(1) by (simp add: greeted_clients_def server_safe_def)
  then obtain l ps where lps: "poll_fds w = l # ps" by (auto simp: server_ok_def neq_Nil_conv)
  have new: "c \<notin> client_fds w" using assms(3,4) by (auto simp: fresh_fd_def client_fds_def lps)
  then have none: "map_of (players (logic w)) c = None" using connected_iff [OF ok, of c] by simp
  have quiet: "quiet_ok (f(c := wrote)) ?w"
    by (rule quiet_new_connection [OF _ assms(4) _ new none]) (use assms(1) lps in \<open>simp_all add: greeted_clients_def\<close>)
  have "spares c w ?w"
    by (auto simp: spares_def handle_new_connection_def assms(4) Let_def map_of_map_put known_def register_new_client_def)
  then have "fitting (f(c := wrote)) inp ?w (fd p)" if "p \<in> set ps" "rev_in p" for p
    using that assms(1) new fitting_spares [of f inp w "fd p" c ?w]
    by (auto simp: greeted_clients_def lps client_fds_def fitting_def)
  then show ?thesis
    using ss quiet by (auto simp: greeted_clients_def handle_new_connection_def assms(4) Let_def lps new_pollfd_def)
qed

text \<open>The connection that an iteration accepts.\<close>

definition accepts :: "inputs \<Rightarrow> Server \<Rightarrow> (int \<times> string \<times> int) option" where
  "accepts inp w = (if 0 < ready inp \<and> \<not> stopping (logic w) \<and> re_in inp (fd (hd (poll_fds w))) then accepted inp else None)"

lemma quiet_iteration:
  assumes "server_safe w" and "quiet_ok f w" and "\<forall>c. well_greeted (f c)" and "sends_ok inp" and "fresh_accept inp w"
    and "\<forall>p \<in> set (tl (poll_fds w)). re_in inp (fd p) \<longrightarrow> fitting f inp w (fd p)" and "well_greeted wrote"
  shows "good_inputs inp w"
    and "okR (quiet_ok (case accepts inp w of None \<Rightarrow> f | Some (c, ip, port) \<Rightarrow> f(c := wrote))) (server_iteration inp w)"
proof -
  show good: "good_inputs inp w" using assms(3-6) fitting_polite by (auto simp: good_inputs_def)
  let ?w = "polled inp w" and ?f = "case accepts inp w of None \<Rightarrow> f | Some (c, ip, port) \<Rightarrow> f(c := wrote)"
  obtain l ps where lps: "poll_fds w = l # ps" using assms(1) by (auto simp: server_safe_def server_ok_def neq_Nil_conv)
  have r: "ready_clients inp ?w" by (rule ready_polled [OF assms(1) good])
  then have ok: "server_ok ?w" by (simp add: ready_clients_def server_safe_def)
  have q: "quiet_ok f ?w" unfolding polled_def by (rule quiet_fds [OF assms(2)]) (simp add: poll_one_def comp_def)
  have fit: "fitting f inp ?w (fd p)" if "p \<in> set (tl (poll_fds ?w))" "rev_in p" for p
    using that assms(6) by (auto simp: polled_def poll_one_def lps fitting_def)
  have same: "okR (same_end ?w) (server_check_timers (now inp) ?w)"
    unfolding server_check_timers_def okR_bind
    by (rule okR_mono [OF same_end_timers]) (auto simp: same_end_def)
  have fresh: "okR (fresh_fd inp) (server_check_timers (now inp) ?w)"
    using assms(5) by (simp add: fresh_accept_def okR_def)
  have "okR (\<lambda>w1. ready_clients inp w1 \<and> (quiet_ok f w1 \<and> steady ?w w1) \<and> same_end ?w w1 \<and> fresh_fd inp w1)
      (server_check_timers (now inp) ?w)"
    by (intro okR_both safeR_weak [OF ready_check_timers [OF r]] timers_quiet [OF ok q] same fresh)
  moreover have "greeted_clients f inp w1" if "ready_clients inp w1" "quiet_ok f w1" "steady ?w w1" for w1
    using that fit fitting_steady [of f inp ?w _ w1] by (auto simp: greeted_clients_def ready_clients_def steady_def client_fds_def)
  ultimately have timers: "okR (\<lambda>w1. greeted_clients f inp w1 \<and> hd (poll_fds w1) = hd (poll_fds ?w) \<and> same_end ?w w1 \<and> fresh_fd inp w1)
      (server_check_timers (now inp) ?w)"
    by (elim okR_mono) (simp add: steady_def)
  have clients: "okR (quiet_ok ?f) (bindR (mark_pollout (logic w1) (drop 1 (poll_fds w1))) (\<lambda>ps.
          let w = w1\<lparr>poll_fds := take 1 (poll_fds w1) @ ps\<rparr> in
          if ready inp = 0 then Inr w
          else
            let w = (if rev_in (hd (poll_fds w)) then handle_new_connection inp w else w)
            in clients_loop inp 1 (length (poll_fds w)) w))"
    if g: "greeted_clients f inp w1" and h: "hd (poll_fds w1) = hd (poll_fds ?w)" and e: "same_end ?w w1" "fresh_fd inp w1"
      and c: "\<not> stopping (logic w)" "0 \<le> ready inp" for w1
    unfolding okR_bind
  proof (rule okR_mono [OF safeR_weak [OF safe_mark_pollout]])
    show "\<forall>p \<in> set (drop 1 (poll_fds w1)). fd p \<in> client_fds w1" by (simp add: client_fds_def drop_Suc)
    show "safe (stream_to w1) True (client_fds w1) (logic w1)" using g by (simp add: greeted_clients_def server_safe_game)
    fix ps
    let ?v = "w1\<lparr>poll_fds := take 1 (poll_fds w1) @ ps\<rparr>"
    assume ps: "map fd ps = map fd (drop 1 (poll_fds w1)) \<and> map rev_in ps = map rev_in (drop 1 (poll_fds w1))"
    have v: "greeted_clients f inp ?v"
      by (rule greeted_clients_poll_fds [OF g assms(3)]) (use ps in \<open>simp_all add: drop_Suc\<close>)
    have "map fd (take 1 (poll_fds w1) @ ps) = map fd (poll_fds w1)"
      using ps by (metis append_take_drop_id map_append)
    then have fv: "fresh_fd inp ?v" using e(2) fresh_fd_cong by blast
    obtain l1 qs where lqs: "poll_fds w1 = l1 # qs" using g by (auto simp: greeted_clients_def server_safe_def server_ok_def neq_Nil_conv)
    have acc: "accepts inp w = (if ready inp \<noteq> 0 \<and> rev_in (hd (poll_fds ?v)) then accepted inp else None)"
      using c h by (auto simp: accepts_def lps lqs polled_def poll_one_def)
    define v where "v = (if rev_in (hd (poll_fds ?v)) then handle_new_connection inp ?v else ?v)"
    have loop: "greeted_clients ?f inp v" if "ready inp \<noteq> 0"
      using v that greeted_new_connection [OF v assms(3) fv] unfolding v_def acc
      by (auto simp: handle_new_connection_def split: option.split)
    have "\<not> stopping (logic v)"
      using c(1) e(1) by (auto simp: v_def handle_new_connection_def Let_def register_new_client_def same_end_def polled_def split: option.split)
    then have "okR (quiet_ok ?f) (clients_loop inp 1 (length (poll_fds v)) v)" if "ready inp \<noteq> 0"
      using loop [OF that] assms(3,4,7) by (intro greeted_loop) (auto simp: greeted_clients_iff split: option.split)
    moreover have "quiet_ok ?f ?v" if "ready inp = 0" using v that by (simp add: acc greeted_clients_def)
    ultimately show "okR (quiet_ok ?f) (let w = ?v in
          if ready inp = 0 then Inr w
          else
            let w = (if rev_in (hd (poll_fds w)) then handle_new_connection inp w else w)
            in clients_loop inp 1 (length (poll_fds w)) w)"
      unfolding Let_def v_def [symmetric] by simp
  qed
  have run: "okR (quiet_ok ?f) (bindR (server_check_timers (now inp) ?w) (\<lambda>w1.
        bindR (mark_pollout (logic w1) (drop 1 (poll_fds w1))) (\<lambda>ps.
          let w = w1\<lparr>poll_fds := take 1 (poll_fds w1) @ ps\<rparr> in
          if ready inp = 0 then Inr w
          else
            let w = (if rev_in (hd (poll_fds w)) then handle_new_connection inp w else w)
            in clients_loop inp 1 (length (poll_fds w)) w)))" if "\<not> stopping (logic w)" "0 \<le> ready inp"
    unfolding okR_bind [of _ "server_check_timers _ _"]
    by (rule okR_mono [OF timers]) (use that clients in blast)
  have reset: "okR (quiet_ok ?f) (bindR (reset_server inp ?w) (\<lambda>w. Inr (w\<lparr>logic := server_reset (logic w)\<rparr>)))"
    if "stopping (logic w)"
    using quiet_reset [OF q] that by (simp add: accepts_def)
  show "okR (quiet_ok ?f) (server_iteration inp w)"
    unfolding server_iteration_def polled_def [symmetric] Let_def [of "polled inp w"]
    using run reset by (simp add: polled_def del: okR_bind)
qed

end
