(* ===== verification/Thread_Queue.thy ===== *)
theory Thread_Queue
  imports Prelude
begin

text \<open>
  The queue between the threads of the client: \<open>src/the-great-approximator/ts_queue.h\<close>. Every operation
  holds the mutex from its beginning to its end (a wait releases it, but nothing is read or changed
  before the wait ends), so an operation is one step on the list of the items, oldest first.
\<close>

section \<open>Operations\<close>

type_synonym 'a ts_queue = "'a list"

definition empty_queue :: "'a ts_queue" where
  "empty_queue = []"

definition push :: "'a \<Rightarrow> 'a ts_queue \<Rightarrow> 'a ts_queue" where
  "push item q = q @ [item]"

text \<open>\<open>None\<close> where \<open>try_pop\<close> returns false.\<close>

definition try_pop :: "'a ts_queue \<Rightarrow> 'a option \<times> 'a ts_queue" where
  "try_pop q = (case q of [] \<Rightarrow> (None, []) | item # rest \<Rightarrow> (Some item, rest))"

text \<open>
  The moment at which the wait of \<open>try_pop_for\<close> ends. Its predicate is evaluated once more after the
  time limit, so it returns false only when the queue is empty then.
\<close>

definition try_pop_for :: "'a ts_queue \<Rightarrow> 'a option \<times> 'a ts_queue" where
  "try_pop_for q = (if q \<noteq> [] then (Some (hd q), tl q) else (None, q))"

text \<open>\<open>pop\<close> waits without a limit: \<open>None\<close> means that it does not return in this state.\<close>

definition pop :: "'a ts_queue \<Rightarrow> ('a \<times> 'a ts_queue) option" where
  "pop q = (case q of [] \<Rightarrow> None | item # rest \<Rightarrow> Some (item, rest))"

section \<open>What the queue promises\<close>

text \<open>
  A queue as its users see it: \<open>items\<close> is what it holds, \<open>put\<close> appends, \<open>take_one\<close> gives the oldest
  item, or nothing exactly when the queue is empty.
\<close>

locale fifo =
  fixes put :: "'a \<Rightarrow> 'q \<Rightarrow> 'q" and take_one :: "'q \<Rightarrow> 'a option \<times> 'q" and items :: "'q \<Rightarrow> 'a list"
  assumes items_put: "items (put x q) = items q @ [x]"
    and take_none: "take_one q = (None, q') \<Longrightarrow> items q = [] \<and> items q' = []"
    and take_some: "take_one q = (Some x, q') \<Longrightarrow> items q = x # items q'"
begin

text \<open>Any interleaving of operations: \<open>Some x\<close> puts \<open>x\<close>, \<open>None\<close> takes. The results are what was taken.\<close>

fun operate :: "'a option list \<Rightarrow> 'q \<Rightarrow> 'a list \<times> 'q" where
  "operate [] q = ([], q)"
| "operate (Some x # ops) q = operate ops (put x q)"
| "operate (None # ops) q =
     (case take_one q of
        (None, q') \<Rightarrow> operate ops q'
      | (Some x, q') \<Rightarrow> (case operate ops q' of (xs, q'') \<Rightarrow> (x # xs, q'')))"

text \<open>Nothing is lost, repeated or reordered.\<close>

lemma first_in_first_out:
  "operate ops q = (taken, q') \<Longrightarrow> taken @ items q' = items q @ map the (filter (\<lambda>x. x \<noteq> None) ops)"
proof (induction ops q arbitrary: taken q' rule: operate.induct)
  case (2 x ops q)
  then show ?case by (simp add: items_put)
next
  case (3 ops q)
  show ?case
  proof (cases "take_one q")
    case (Pair r q1)
    show ?thesis
    proof (cases r)
      case None
      then show ?thesis using 3 Pair take_none [of q q1] by simp
    next
      case (Some x)
      obtain xs q2 where op: "operate ops q1 = (xs, q2)" by (cases "operate ops q1")
      then have "taken = x # xs" "q' = q2" using 3(3) Pair Some by simp_all
      then show ?thesis using 3(2) [of r q1 x xs q2] Pair Some op take_some [of q x q1] by simp
    qed
  qed
qed simp

lemma drained: "operate ops q = (taken, q') \<Longrightarrow> items q' = [] \<Longrightarrow> items q = [] \<Longrightarrow>
    taken = map the (filter (\<lambda>x. x \<noteq> None) ops)"
  using first_in_first_out by fastforce

end

text \<open>Both ways of taking from the code's queue have these laws.\<close>

interpretation tsq: fifo push try_pop id
  by unfold_locales (auto simp: push_def try_pop_def split: list.splits)

interpretation tsw: fifo push try_pop_for id
  by unfold_locales (auto simp: push_def try_pop_for_def split: if_splits)

lemma try_pop_for_eq: "try_pop_for q = try_pop q"
  by (cases q) (simp_all add: try_pop_for_def try_pop_def)

lemma pop_eq: "pop q = (case try_pop q of (None, _) \<Rightarrow> None | (Some x, r) \<Rightarrow> Some (x, r))"
  by (simp add: pop_def try_pop_def split: list.split)

lemma try_pop_simps [simp]: "try_pop [] = (None, [])" "try_pop (x # q) = (Some x, q)"
    "try_pop_for [] = (None, [])" "try_pop_for (x # q) = (Some x, q)"
  by (simp_all add: try_pop_def try_pop_for_def)

end
