(* ===== verification/Option_Parsing.thy ===== *)
theory Option_Parsing
  imports Text_Numbers
begin

text \<open>
  What the parsers of command-line arguments of both programs use of the C library. \<open>getopt\<close> is
  represented by the sequence of its results; \<open>strtoul\<close> is that of an LP64 machine, where
  \<open>unsigned long\<close> has 64 bits. A parser ends with a value, or the process ends: then the result holds
  the lines on standard error (without the text of \<open>errno\<close> that \<open>error\<close> may append).
\<close>

section \<open>Results of a parser\<close>

type_synonym 'a parsed = "string list + 'a"

definition bindP :: "'a parsed \<Rightarrow> ('a \<Rightarrow> 'b parsed) \<Rightarrow> 'b parsed" where
  "bindP r f = (case r of Inl ls \<Rightarrow> Inl ls | Inr x \<Rightarrow> f x)"

lemma bindP_simps [simp, code]: "bindP (Inl ls) f = Inl ls" "bindP (Inr x) f = f x"
  by (simp_all add: bindP_def)

lemma bindP_eq_Inr: "bindP r f = Inr y \<longleftrightarrow> (\<exists>x. r = Inr x \<and> f x = Inr y)"
  by (cases r) auto

lemma bindP_cong [fundef_cong]:
  "r = r' \<Longrightarrow> (\<And>x. r' = Inr x \<Longrightarrow> f x = g x) \<Longrightarrow> bindP r f = bindP r' g"
  by (cases r') auto

text \<open>Forgetting the lines: the process exited.\<close>

definition or_exit :: "'a parsed \<Rightarrow> 'a res" where
  "or_exit r = (case r of Inl ls \<Rightarrow> Inl Exit | Inr x \<Rightarrow> Inr x)"

lemma or_exit_simps [simp]: "or_exit (Inl ls) = Inl Exit" "or_exit (Inr x) = Inr x"
  by (simp_all add: or_exit_def)

text \<open>\<open>okP P r\<close>: if \<open>r\<close> is a value, \<open>P\<close> holds for it.\<close>

definition okP :: "('a \<Rightarrow> bool) \<Rightarrow> 'a parsed \<Rightarrow> bool" where
  "okP P r = (case r of Inl ls \<Rightarrow> True | Inr x \<Rightarrow> P x)"

lemma okP_simps [simp]:
  "okP P (Inl ls)" "okP P (Inr x) = P x"
  "okP P (if b then r else r') = (if b then okP P r else okP P r')"
  by (simp_all add: okP_def)

lemma okP_bind [simp]: "okP P (bindP r f) = okP (\<lambda>x. okP P (f x)) r"
  by (cases r) simp_all

lemma okP_mono: "okP P r \<Longrightarrow> (\<And>x. P x \<Longrightarrow> Q x) \<Longrightarrow> okP Q r"
  by (cases r) auto

section \<open>\<open>getopt\<close>\<close>

text \<open>
  An option with its argument (empty for a flag), a missing argument (\<open>:\<close>) and an unknown option
  (\<open>?\<close>), both with \<open>optopt\<close>. The value after the last result is \<open>-1\<close>.
\<close>

datatype getopt_result = Opt char string | Opt_missing int | Opt_unknown int

definition isprint :: "int \<Rightarrow> bool" where
  "isprint c \<longleftrightarrow> 32 \<le> c \<and> c \<le> 126"

text \<open>\<open>%c\<close> and \<open>%x\<close> of an \<open>int\<close>.\<close>

definition show_char :: "int \<Rightarrow> string" where
  "show_char c = [char_of (nat (c mod 256))]"

fun show_hex :: "nat \<Rightarrow> string" where
  "show_hex n =
     (if n < 16 then [''0123456789abcdef'' ! n] else show_hex (n div 16) @ [''0123456789abcdef'' ! (n mod 16)])"

declare show_hex.simps [simp del]

definition unknown_option :: "int \<Rightarrow> string" where
  "unknown_option optopt =
     (if isprint optopt then ''Unknown option -'' @ show_char optopt
      else ''Unknown option character with ASCII code 0x'' @ show_hex (nat (optopt mod 2 ^ 32)))"

definition missing_argument :: "int \<Rightarrow> string" where
  "missing_argument optopt = ''Option -'' @ show_char optopt @ '' requires an argument''"

section \<open>\<open>strtoul\<close>\<close>

text \<open>
  The value, what is left of the string (\<open>endptr\<close>) and whether \<open>errno\<close> is set (\<open>ERANGE\<close>). A negative
  number is negated in \<open>unsigned long\<close>; without digits nothing is read and the value is 0.
\<close>

definition strtoul :: "string \<Rightarrow> nat \<times> string \<times> bool" where
  "strtoul str =
     (case read_sign (dropWhile isspace str) of (neg, rest) \<Rightarrow>
      let ds = takeWhile isdigit rest; v = digits_value ds
      in if ds = [] then (0, str, False)
         else if 2 ^ 64 \<le> v then (2 ^ 64 - 1, dropWhile isdigit rest, True)
         else (if neg then (2 ^ 64 - v) mod 2 ^ 64 else v, dropWhile isdigit rest, False))"

text \<open>Numbers without white space and sign.\<close>

lemma read_sign_digits:
  assumes "list_all isdigit str" and "str \<noteq> []"
  shows "read_sign (dropWhile isspace str) = (False, str)"
proof -
  obtain c cs where c: "str = c # cs" "isdigit c" using assms by (cases str) auto
  then show ?thesis using digit_not_sign [OF c(2)] by (simp add: read_sign_def)
qed

lemma strtoul_digits:
  assumes "list_all isdigit str" and "str \<noteq> []" and "digits_value str < 2 ^ 64"
  shows "strtoul str = (digits_value str, [], False)"
proof -
  have all: "takeWhile isdigit str = str" "dropWhile isdigit str = []"
    using assms(1) by (simp_all add: takeWhile_eq_all_conv list_all_iff)
  show ?thesis
    using assms(2,3) unfolding strtoul_def read_sign_digits [OF assms(1,2)] Let_def by (simp add: all del: takeWhile_eq_all_conv)
qed

text \<open>What the callers test: the string is read to its end. This says which strings are.\<close>

lemma strtoul_complete:
  assumes "strtoul str = (v, [], False)"
  obtains "str = []" "v = 0"
  | ws neg sign ds where "str = ws @ sign @ ds" "list_all isspace ws" "list_all isdigit ds" "ds \<noteq> []"
      "sign = (if neg then ''-'' else []) \<or> (\<not> neg \<and> sign = ''+'')" "digits_value ds < 2 ^ 64"
      "v = (if neg then (2 ^ 64 - digits_value ds) mod 2 ^ 64 else digits_value ds)"
proof -
  obtain neg rest where r: "read_sign (dropWhile isspace str) = (neg, rest)" by (cases "read_sign (dropWhile isspace str)")
  define ws where "ws = takeWhile isspace str"
  have ws: "str = ws @ dropWhile isspace str" "list_all isspace ws"
    by (simp_all add: ws_def list_all_iff set_takeWhileD [of _ isspace str])
  obtain sign where s: "dropWhile isspace str = sign @ rest"
      "sign = (if neg then ''-'' else []) \<or> (\<not> neg \<and> sign = ''+'')"
    using r by (auto simp: read_sign_def split: list.splits if_splits)
  define ds where "ds = takeWhile isdigit rest"
  have dig: "list_all isdigit ds" by (auto simp: ds_def list_all_iff dest: set_takeWhileD)
  show ?thesis
  proof (cases "ds = []")
    case True
    then show ?thesis using assms r that(1) by (simp add: strtoul_def ds_def Let_def)
  next
    case False
    with assms r have "dropWhile isdigit rest = []" "digits_value ds < 2 ^ 64"
      "v = (if neg then (2 ^ 64 - digits_value ds) mod 2 ^ 64 else digits_value ds)"
      by (auto simp: strtoul_def ds_def Let_def split: if_splits)
    moreover have "rest = ds" using calculation(1) takeWhile_dropWhile_id [of isdigit rest] by (metis append_Nil2 ds_def)
    ultimately show ?thesis using that(2) ws s dig False by metis
  qed
qed

end
