(* ===== verification/Error_Reports.thy ===== *)
theory Error_Reports
  imports Option_Parsing
begin

text \<open>
  Error reports: \<open>src/the-great-approximator/err.cpp\<close>, with the formatted output that \<open>err.c\<close> of the node
  uses in the same way. The texts of \<open>strerror\<close> are a parameter; the standard error, \<open>errno\<close> and the open
  descriptors of the process are the state.
\<close>

section \<open>Formatted output\<close>

datatype fmt_arg = Text_arg string | Int_arg int

text \<open>
  \<open>vfprintf\<close> with the directives that occur in the formats of the programs. A directive without an
  argument of its type is undefined behaviour, and so is here every other one. (The format is a C string:
  it ends at a zero byte.)
\<close>

fun directive :: "char \<Rightarrow> fmt_arg \<Rightarrow> string option" where
  "directive d (Text_arg s) = (if d = CHR ''s'' then Some s else None)"
| "directive d (Int_arg i) =
     (if d = CHR ''d'' then Some (show_int i)
      else if d = CHR ''u'' then Some (show_int (i mod 2 ^ 32))
      else if d = CHR ''c'' then Some (show_char i)
      else if d = CHR ''x'' then Some (show_hex (nat (i mod 2 ^ 32)))
      else None)"

fun vprintf :: "string \<Rightarrow> fmt_arg list \<Rightarrow> string res" where
  "vprintf [] args = Inr []"
| "vprintf (ch # fmt) args =
     (if ch = CHR 0x00 then Inr []
      else if ch \<noteq> CHR ''%'' then bindR (vprintf fmt args) (\<lambda>s. Inr (ch # s))
      else case fmt of
          [] \<Rightarrow> Inl Undefined
        | d # fmt' \<Rightarrow>
            if d = CHR ''%'' then bindR (vprintf fmt' args) (\<lambda>s. Inr (d # s))
            else (case args of
                [] \<Rightarrow> Inl Undefined
              | a # args' \<Rightarrow>
                  (case directive d a of
                     None \<Rightarrow> Inl Undefined
                   | Some txt \<Rightarrow> bindR (vprintf fmt' args') (\<lambda>s. Inr (txt @ s)))))"

text \<open>A text without a percent sign is printed up to its first zero byte; one with a directive and no arguments is not safe.\<close>

definition c_str :: "string \<Rightarrow> string" where
  "c_str s = takeWhile (\<lambda>ch. ch \<noteq> CHR 0x00) s"

lemma vprintf_plain: "CHR ''%'' \<notin> set fmt \<Longrightarrow> vprintf fmt args = Inr (c_str fmt)"
  by (induction fmt) (auto simp: c_str_def)

lemma vprintf_text:
  assumes "CHR ''%'' \<notin> set fmt" and "CHR 0x00 \<notin> set fmt"
  shows "vprintf (fmt @ rest) args = bindR (vprintf rest args) (\<lambda>s. Inr (fmt @ s))"
  using assms by (induction fmt) (auto simp: bindR_def split: sum.split)

lemma vprintf_no_argument:
  assumes "CHR ''%'' \<notin> set fmt" and "CHR 0x00 \<notin> set fmt" and "d \<noteq> CHR ''%''"
  shows "vprintf (fmt @ CHR ''%'' # d # rest) [] = Inl Undefined"
  using assms by (simp add: vprintf_text)

lemma vprintf_never_exits: "vprintf fmt args \<noteq> Inl Exit"
proof (induction fmt args rule: vprintf.induct)
  case (2 ch fmt args)
  then show ?case
    by (auto simp: bindR_eq_Inl split: list.split option.split)
qed simp

section \<open>Reports of the approximator\<close>

record Process =
  stderr_text :: string
  errno :: int
  descriptors :: "int list"

text \<open>\<open>cleanup\<close>; the library may be too old for \<open>close_range\<close>.\<close>

definition cleanup :: "bool \<Rightarrow> Process \<Rightarrow> Process" where
  "cleanup has_close_range p = (if has_close_range then p\<lparr>descriptors := filter (\<lambda>d. d < 3) (descriptors p)\<rparr> else p)"

definition errno_text :: "(int \<Rightarrow> string) \<Rightarrow> int \<Rightarrow> string" where
  "errno_text strerror e = '' ('' @ show_int e @ ''; '' @ strerror e @ '')''"

text \<open>\<open>syserr\<close> and \<open>fatal\<close> do not return: the result is the process that exits with code 1.\<close>

definition syserr :: "(int \<Rightarrow> string) \<Rightarrow> bool \<Rightarrow> string \<Rightarrow> fmt_arg list \<Rightarrow> Process \<Rightarrow> Process res" where
  "syserr strerror has_close_range fmt args p =
     (let org_errno = errno p in
      bindR (vprintf fmt args) (\<lambda>msg.
        Inr (cleanup has_close_range
          (p\<lparr>stderr_text := stderr_text p @ ''ERROR: '' @ msg @ errno_text strerror org_errno @ [CHR 0x0A]\<rparr>))))"

definition fatal :: "bool \<Rightarrow> string \<Rightarrow> fmt_arg list \<Rightarrow> Process \<Rightarrow> Process res" where
  "fatal has_close_range fmt args p =
     bindR (vprintf fmt args) (\<lambda>msg.
       Inr (cleanup has_close_range (p\<lparr>stderr_text := stderr_text p @ ''ERROR: '' @ msg @ [CHR 0x0A]\<rparr>)))"

definition report :: "(int \<Rightarrow> string) \<Rightarrow> string \<Rightarrow> fmt_arg list \<Rightarrow> Process \<Rightarrow> Process res" where
  "report strerror fmt args p =
     (let org_errno = errno p in
      bindR (vprintf fmt args) (\<lambda>msg.
        Inr (p\<lparr>errno := 0, stderr_text := stderr_text p @ ''ERROR: '' @ msg @
          (if org_errno \<noteq> 0 then errno_text strerror org_errno @ [CHR 0x0A] else []) @ [CHR 0x0A]\<rparr>)))"

text \<open>
  \<open>error\<close> resets \<open>errno\<close> and keeps the descriptors, and with \<open>errno\<close> set it leaves an empty line behind.
\<close>

lemma report_effect:
  assumes "CHR ''%'' \<notin> set fmt" and "CHR 0x00 \<notin> set fmt"
  shows "\<exists>p'. report strerror fmt args p = Inr p' \<and> errno p' = 0 \<and> descriptors p' = descriptors p \<and>
    stderr_text p' = stderr_text p @ ''ERROR: '' @ fmt @
      (if errno p = 0 then [CHR 0x0A] else errno_text strerror (errno p) @ [CHR 0x0A, CHR 0x0A])"
  using assms vprintf_text [OF assms, of "[]"] by (simp add: report_def Let_def)

text \<open>What the callers of the model see: the process ends, unless the format already has no meaning.\<close>

definition fatal_stop :: "string \<Rightarrow> fmt_arg list \<Rightarrow> 'a res" where
  "fatal_stop fmt args = bindR (vprintf fmt args) (\<lambda>msg. Inl Exit)"

lemma fatal_stop_not [simp]: "fatal_stop fmt args \<noteq> Inr x"
  by (cases "vprintf fmt args") (simp_all add: fatal_stop_def)

lemma fatal_stop_plain: "CHR ''%'' \<notin> set fmt \<Longrightarrow> fatal_stop fmt args = Inl Exit"
  by (simp add: fatal_stop_def vprintf_plain)

lemma fatal_stop_iff: "fatal_stop fmt args = Inl Undefined \<longleftrightarrow> fatal b fmt args p = Inl Undefined"
  by (auto simp: fatal_stop_def fatal_def bindR_eq_Inl)

text \<open>The texts of the two parsers of arguments are what these formats give.\<close>

lemma option_formats:
  "vprintf ''Option -%c requires an argument'' [Int_arg i] = Inr (missing_argument i)"
  "vprintf (if isprint i then ''Unknown option -%c'' else ''Unknown option character with ASCII code 0x%x'') [Int_arg i] =
    Inr (unknown_option i)"
  by (simp_all add: missing_argument_def unknown_option_def)

end
