(* ===== verification/Game_Client.thy ===== *)
theory Game_Client
  imports Server_Loop Thread_Queue Error_Reports
begin

text \<open>
  The client: \<open>src/the-great-approximator/client_logic.{h,cpp}\<close>. The members of the class \<open>ClientLogic\<close> and
  the local variables of its threads are the fields of one record; each thread has a program counter,
  and a step of a thread is the piece of its code up to its next access to something that another
  thread changes: one operation of a queue, one section under a mutex, or one load or store of an atomic
  variable. What a system call returns is an input of the step. \<open>fatal\<close> and \<open>syserr\<close> are \<open>Exit\<close>; a null
  pointer that is dereferenced, an access outside a vector, signed overflow and an exception that ends
  the thread are \<open>Undefined\<close>.
\<close>

section \<open>State\<close>

text \<open>Program counters of \<open>auto_strategy\<close> and \<open>manual_strategy\<close> with \<open>send_put_message\<close>, \<open>network_receiver\<close>,
  \<open>network_sender\<close>, \<open>message_processor\<close> and \<open>log_printer\<close>.\<close>

datatype strategy_pc =
    S_check | S_wait | S_increment | S_choose | S_poll | S_lines | S_log int double | S_push "Message option" | S_ended

datatype receiver_pc = R_check | R_recv | R_lines | R_last | R_ended

datatype sender_pc = N_check | N_pop | N_write string | N_ended

datatype processor_pc =
    P_check | P_pop | P_begin Message | P_finish Message | P_report Message | P_last | P_ended

datatype logger_pc = L_check | L_pop | L_last | L_drain | L_ended

text \<open>
  \<open>hello_queued\<close> says how far the main thread is, \<open>written\<close> is what went to the socket and \<open>console\<close> what was
  printed, each line with whether it is on standard error.
\<close>

record Client =
  my_id :: string
  is_auto :: bool
  full_info :: string
  coeffs :: "double list"
  poly_N :: int
  over :: bool
  incoming :: "Message ts_queue"
  outgoing :: "Message option ts_queue"
  logs :: "(string \<times> bool) ts_queue"
  server_K :: int
  K_set :: bool
  puts_without_answer :: int
  current_approximation :: "double list"
  real_values :: "double list"
  strategy :: strategy_pc
  input_buffer :: string
  receiver :: receiver_pc
  recv_buffer :: string
  first_line :: bool
  sender :: sender_pc
  processor :: processor_pc
  first_message :: bool
  scoring_received :: bool
  logger :: logger_pc
  hello_queued :: bool
  written :: string
  console :: "(string \<times> bool) list"

definition log_stdout :: "string \<Rightarrow> Client \<Rightarrow> Client" where
  "log_stdout msg c = c\<lparr>logs := push (msg, False) (logs c)\<rparr>"

definition log_stderr :: "string \<Rightarrow> Client \<Rightarrow> Client" where
  "log_stderr msg c = c\<lparr>logs := push (msg, True) (logs c)\<rparr>"

text \<open>The constructor, \<open>register_connection\<close> and the start of the threads; \<open>N\<close> has no initial value.\<close>

definition register_connection :: "string \<Rightarrow> int \<Rightarrow> Client \<Rightarrow> Client" where
  "register_connection ip p c =
     (let info = ''['' @ ip @ '']:'' @ show_int p
      in log_stdout (''Connected to '' @ info) (c\<lparr>full_info := info @ '', '' @ my_id c\<rparr>))"

definition new_client :: "string \<Rightarrow> bool \<Rightarrow> int \<Rightarrow> Client" where
  "new_client pid auto n0 =
     \<lparr>my_id = pid, is_auto = auto, full_info = [], coeffs = [], poly_N = n0, over = False,
      incoming = empty_queue, outgoing = empty_queue, logs = empty_queue, server_K = 0, K_set = False,
      puts_without_answer = 1, current_approximation = [], real_values = [],
      strategy = S_check, input_buffer = [], receiver = R_check, recv_buffer = [], first_line = True,
      sender = N_check, processor = P_check, first_message = True, scoring_received = False,
      logger = L_check, hello_queued = False, written = [], console = []\<rparr>"

definition queue_hello_message :: "Client \<Rightarrow> Client" where
  "queue_hello_message c = c\<lparr>outgoing := push (create_hello (my_id c)) (outgoing c)\<rparr>"

section \<open>Counting unanswered PUTs\<close>

definition increment_puts_without_answer :: "Client \<Rightarrow> Client" where
  "increment_puts_without_answer c = c\<lparr>puts_without_answer := puts_without_answer c + 1\<rparr>"

definition decrement_puts_without_answer :: "Client \<Rightarrow> bool \<times> Client" where
  "decrement_puts_without_answer c =
     (if 0 < puts_without_answer c
      then (True, c\<lparr>puts_without_answer := puts_without_answer c - 1\<rparr>) else (False, c))"

text \<open>The end of the wait: the predicate holds, or the time limit has passed and it still does not.\<close>

definition wait_for_puts :: "Client \<Rightarrow> bool" where
  "wait_for_puts c \<longleftrightarrow> puts_without_answer c = 0"

section \<open>The polynomial\<close>

text \<open>\<open>x_pow\<close> is an \<open>int\<close> of 32 bits; a product that it cannot hold is undefined.\<close>

definition mult_int32 :: "int \<Rightarrow> int \<Rightarrow> int res" where
  "mult_int32 a b = (if - (2 ^ 31) \<le> a * b \<and> a * b < 2 ^ 31 then Inr (a * b) else Inl Undefined)"

fun poly_sum :: "double list \<Rightarrow> nat \<Rightarrow> nat \<Rightarrow> int \<Rightarrow> int \<Rightarrow> double \<Rightarrow> double res" where
  "poly_sum cs 0 i x x_pow result = Inr result"
| "poly_sum cs (Suc n) i x x_pow result =
     bindR (nth_chk cs i) (\<lambda>c.
     bindR (mult_int32 x_pow x) (\<lambda>x_pow'.
       poly_sum cs n (Suc i) x x_pow' (dadd result (dmul c (double_of_int x_pow)))))"

definition poly_at :: "int \<Rightarrow> Client \<Rightarrow> double res" where
  "poly_at x c = poly_sum (coeffs c) (nat (poly_N c + 1)) 0 x 1 dzero"

text \<open>The loop that fills \<open>real_values\<close>.\<close>

fun poly_values :: "nat \<Rightarrow> int \<Rightarrow> Client \<Rightarrow> double list res" where
  "poly_values 0 i c = Inr []"
| "poly_values (Suc n) i c =
     bindR (poly_at i c) (\<lambda>v. bindR (poly_values n (i + 1) c) (\<lambda>vs. Inr (v # vs)))"

definition resize :: "nat \<Rightarrow> double list \<Rightarrow> double list" where
  "resize n vs = take n vs @ replicate (n - length vs) dzero"

text \<open>\<open>std::max_element\<close>: the index of the first largest element.\<close>

fun max_from :: "double \<Rightarrow> nat \<Rightarrow> nat \<Rightarrow> double list \<Rightarrow> nat" where
  "max_from best b i [] = b"
| "max_from best b i (x # xs) = (if dless best x then max_from x i (Suc i) xs else max_from best b (Suc i) xs)"

fun max_element :: "double list \<Rightarrow> nat" where
  "max_element [] = 0"
| "max_element (x # xs) = max_from x 0 1 xs"

definition clamp :: "double \<Rightarrow> double \<Rightarrow> double \<Rightarrow> double" where
  "clamp v lo hi = (if dless v lo then lo else if dless hi v then hi else v)"

definition squared_difference :: "double \<Rightarrow> double \<Rightarrow> double" where
  "squared_difference a b = dmul (dsub a b) (dsub a b)"

definition get_best_put :: "Client \<Rightarrow> ((int \<times> double) \<times> Client) res" where
  "get_best_put c =
     (let n = nat ((if K_set c then server_K c else 1) + 1) in
      if length (current_approximation c) < n \<or> length (real_values c) < n then Inl Undefined
      else
        let squares = map2 squared_difference (take n (current_approximation c)) (take n (real_values c));
            idx = max_element squares
        in bindR (nth_chk (real_values c) idx) (\<lambda>r.
           bindR (nth_chk (current_approximation c) idx) (\<lambda>a.
             let v = clamp (dsub r a) min_put_value max_put_value
             in Inr ((int idx, v), c\<lparr>current_approximation := (current_approximation c)[idx := dadd a v]\<rparr>))))"

section \<open>The strategies\<close>

text \<open>What \<open>poll\<close> and \<open>read\<close> give; \<open>Poll_other\<close> is a descriptor that is ready, but not to be read.\<close>

datatype poll_outcome = Poll_failed | Poll_timeout | Poll_other | Poll_read "string option"

definition put_log :: "int \<Rightarrow> double \<Rightarrow> string" where
  "put_log pt v = ''Putting '' @ doubleToString v @ '' in point '' @ show_int pt"

text \<open>One line of the standard input.\<close>

definition manual_line :: "string \<Rightarrow> (int \<times> double) option" where
  "manual_line line =
     (case splitParams line of
        None \<Rightarrow> None
      | Some params \<Rightarrow>
          (case params of
             [a, b] \<Rightarrow> (case (parseInteger a, parseDouble b) of (Some pt, Some v) \<Rightarrow> Some (pt, v) | _ \<Rightarrow> None)
           | _ \<Rightarrow> None))"

definition manual_poll :: "poll_outcome \<Rightarrow> Client \<Rightarrow> Client res" where
  "manual_poll r c =
     (case r of
        Poll_failed \<Rightarrow> Inl Exit
      | Poll_timeout \<Rightarrow> Inr (c\<lparr>strategy := S_check\<rparr>)
      | Poll_other \<Rightarrow> Inr (c\<lparr>strategy := S_lines\<rparr>)
      | Poll_read None \<Rightarrow> Inr ((log_stderr ''Error reading from stdin.'' c)\<lparr>strategy := S_check\<rparr>)
      | Poll_read (Some bs) \<Rightarrow> Inr (c\<lparr>input_buffer := input_buffer c @ bs, strategy := S_lines\<rparr>))"

definition manual_lines :: "Client \<Rightarrow> Client" where
  "manual_lines c =
     (if CHR 0x0A \<notin> set (input_buffer c) then c\<lparr>strategy := S_check\<rparr>
      else case getline (input_buffer c) of (line, tail) \<Rightarrow>
        let c = c\<lparr>input_buffer := tail\<rparr> in
        (case manual_line line of
           None \<Rightarrow> log_stderr (''invalid input line '' @ line) c
         | Some (pt, v) \<Rightarrow> c\<lparr>strategy := S_log pt v\<rparr>))"

definition strategy_step :: "poll_outcome \<Rightarrow> Client \<Rightarrow> Client res" where
  "strategy_step r c =
     (case strategy c of
        S_check \<Rightarrow>
          Inr (c\<lparr>strategy := if over c then S_ended else if is_auto c then S_wait else S_poll\<rparr>)
      | S_wait \<Rightarrow> Inr (c\<lparr>strategy := if wait_for_puts c then S_increment else S_check\<rparr>)
      | S_increment \<Rightarrow> Inr ((increment_puts_without_answer c)\<lparr>strategy := S_choose\<rparr>)
      | S_choose \<Rightarrow> bindR (get_best_put c) (\<lambda>((pt, v), c). Inr (c\<lparr>strategy := S_log pt v\<rparr>))
      | S_poll \<Rightarrow> manual_poll r c
      | S_lines \<Rightarrow> Inr (manual_lines c)
      | S_log pt v \<Rightarrow> Inr ((log_stdout (put_log pt v) c)\<lparr>strategy := S_push (create_put pt v)\<rparr>)
      | S_push m \<Rightarrow>
          Inr (c\<lparr>outgoing := push m (outgoing c), strategy := if is_auto c then S_check else S_lines\<rparr>)
      | S_ended \<Rightarrow> Inr c)"

section \<open>The network\<close>

text \<open>What \<open>recv\<close> gives: bytes (none when the server closed the connection), the time limit, an error.\<close>

datatype recv_outcome = Received string | Receive_again | Receive_failed

text \<open>The text of the first bad line is the format of \<open>fatal\<close> itself.\<close>

definition receive_line :: "string \<Rightarrow> Client \<Rightarrow> Client res" where
  "receive_line line c =
     (case createMessage line of
        Some msg \<Rightarrow> Inr (c\<lparr>incoming := push msg (incoming c), first_line := False\<rparr>)
      | None \<Rightarrow>
          if first_line c
          then fatal_stop (''bad message from '' @ full_info c @ '': '' @ take (length line - 2) line) []
          else Inr ((log_stderr (''bad message from '' @ full_info c @ '': '' @ take (length line - 2) line) c)
                      \<lparr>first_line := False\<rparr>))"

definition receiver_step :: "recv_outcome \<Rightarrow> Client \<Rightarrow> Client res" where
  "receiver_step r c =
     (case receiver c of
        R_check \<Rightarrow> Inr (c\<lparr>receiver := if over c then R_last else R_recv\<rparr>)
      | R_recv \<Rightarrow>
          (case r of
             Received bs \<Rightarrow>
               if bs = [] then Inr (c\<lparr>over := True, receiver := R_check\<rparr>)
               else Inr (c\<lparr>recv_buffer := recv_buffer c @ bs, receiver := R_lines\<rparr>)
           | Receive_again \<Rightarrow> Inr (c\<lparr>receiver := R_check\<rparr>)
           | Receive_failed \<Rightarrow> Inl Exit)
      | R_lines \<Rightarrow>
          (case find_crlf (recv_buffer c) of
             None \<Rightarrow> Inr (c\<lparr>receiver := R_check\<rparr>)
           | Some pos \<Rightarrow>
               receive_line (take (pos + 2) (recv_buffer c)) (c\<lparr>recv_buffer := drop (pos + 2) (recv_buffer c)\<rparr>))
      | R_last \<Rightarrow>
          Inr ((if recv_buffer c \<noteq> []
                then log_stderr (''partial message remaining in buffer at disconnection: '' @ recv_buffer c) c
                else c)\<lparr>receiver := R_ended\<rparr>)
      | R_ended \<Rightarrow> Inr c)"

text \<open>
  What \<open>write\<close> gives: some bytes were written, or it failed with \<open>EAGAIN\<close> or with another \<open>errno\<close>. (A
  result of 0 counts as one of the failures, according to \<open>errno\<close>.)
\<close>

datatype write_outcome = Wrote nat | Write_again | Write_failed

definition sender_step :: "write_outcome \<Rightarrow> Client \<Rightarrow> Client res" where
  "sender_step r c =
     (case sender c of
        N_check \<Rightarrow> Inr (c\<lparr>sender := if over c then N_ended else N_pop\<rparr>)
      | N_pop \<Rightarrow>
          (case try_pop_for (outgoing c) of
             (None, q) \<Rightarrow> Inr (c\<lparr>outgoing := q, sender := N_check\<rparr>)
           | (Some msg, q) \<Rightarrow>
               bindR (deref msg) (\<lambda>m. Inr (c\<lparr>outgoing := q, sender := N_write (raw_message m)\<rparr>)))
      | N_write left \<Rightarrow>
          if left = [] then Inr (c\<lparr>sender := N_check\<rparr>)
          else (case r of
                  Wrote n \<Rightarrow>
                    if n = 0 then Inl Exit
                    else Inr (c\<lparr>written := written c @ take n left, sender := N_write (drop n left)\<rparr>)
                | Write_again \<Rightarrow> if over c then Inr (c\<lparr>sender := N_check\<rparr>) else Inl Exit
                | Write_failed \<Rightarrow> Inl Exit)
      | N_ended \<Rightarrow> Inr c)"

section \<open>Processing messages\<close>

text \<open>The beginning of a handler, up to its line in the log.\<close>

definition begin_coeff :: "double list \<Rightarrow> Client \<Rightarrow> Client" where
  "begin_coeff cs c =
     log_stdout (butlast (''Received coefficients: '' @ concat (map (\<lambda>b. doubleToString b @ '' '') cs)))
       (c\<lparr>coeffs := cs, poly_N := int (length cs) - 1\<rparr>)"

definition response_log :: "string \<Rightarrow> int \<Rightarrow> double \<Rightarrow> string" where
  "response_log kind pt v = ''Received '' @ kind @ '' response ('' @ doubleToString v @ '' in '' @ show_int pt @ '')''"

definition begin_message :: "Message \<Rightarrow> Client \<Rightarrow> Client res" where
  "begin_message msg c =
     (if first_message c
      then (case body msg of
              CoeffMessage cs \<Rightarrow> Inr ((begin_coeff cs (c\<lparr>first_message := False\<rparr>))\<lparr>processor := P_finish msg\<rparr>)
            | _ \<Rightarrow> Inl Exit)
      else (case body msg of
              BadPutMessage pt v \<Rightarrow> Inr ((log_stdout (response_log ''bad put'' pt v) c)\<lparr>processor := P_finish msg\<rparr>)
            | StateMessage vs \<Rightarrow>
                bindR (substr_from 6 (toRawString msg)) (\<lambda>txt.
                  Inr ((log_stdout (''Received state: '' @ txt) c)\<lparr>processor := P_finish msg\<rparr>))
            | PenaltyMessage pt v \<Rightarrow> Inr ((log_stdout (response_log ''penalty'' pt v) c)\<lparr>processor := P_finish msg\<rparr>)
            | ScoringMessage ids vs \<Rightarrow>
                bindR (substr_from 8 (toRawString msg)) (\<lambda>txt.
                  Inr ((log_stdout (''Game end, scoring: '' @ txt) c)\<lparr>processor := P_finish msg\<rparr>))
            | _ \<Rightarrow> Inr (c\<lparr>processor := P_report msg\<rparr>)))"

text \<open>The rest of \<open>processCoeffMessage\<close> and of \<open>processStateMessage\<close>, and the value that is returned.\<close>

definition finish_coeff :: "Client \<Rightarrow> (bool \<times> Client) res" where
  "finish_coeff c =
     bindR (poly_at 0 c) (\<lambda>v0.
     bindR (poly_at 1 c) (\<lambda>v1.
       Inr (True, snd (decrement_puts_without_answer
              (c\<lparr>current_approximation := [dzero, dzero], real_values := [v0, v1]\<rparr>)))))"

definition finish_state :: "double list \<Rightarrow> Client \<Rightarrow> (bool \<times> Client) res" where
  "finish_state vs c =
     (if is_auto c \<and> \<not> K_set c
      then let k = int (length vs) - 1 in
        bindR (poly_values (nat (k + 1)) 0 c) (\<lambda>rs.
          Inr (True, snd (decrement_puts_without_answer
             (c\<lparr>server_K := k, K_set := True,
                current_approximation := resize (nat (k + 1)) (current_approximation c), real_values := rs\<rparr>))))
      else if is_auto c then Inr (decrement_puts_without_answer c)
      else Inr (True, c))"

definition finish_message :: "Message \<Rightarrow> Client \<Rightarrow> (bool \<times> Client) res" where
  "finish_message msg c =
     (case body msg of
        CoeffMessage cs \<Rightarrow> finish_coeff c
      | BadPutMessage pt v \<Rightarrow> Inr (True, if is_auto c then snd (decrement_puts_without_answer c) else c)
      | StateMessage vs \<Rightarrow> finish_state vs c
      | ScoringMessage ids vs \<Rightarrow> Inr (True, c\<lparr>over := True, scoring_received := True\<rparr>)
      | _ \<Rightarrow> Inr (True, c))"

definition processor_step :: "Client \<Rightarrow> Client res" where
  "processor_step c =
     (case processor c of
        P_check \<Rightarrow> Inr (c\<lparr>processor := if over c then P_last else P_pop\<rparr>)
      | P_pop \<Rightarrow>
          (case try_pop_for (incoming c) of
             (None, q) \<Rightarrow> Inr (c\<lparr>incoming := q, processor := P_check\<rparr>)
           | (Some msg, q) \<Rightarrow> Inr (c\<lparr>incoming := q, processor := P_begin msg\<rparr>))
      | P_begin msg \<Rightarrow> begin_message msg c
      | P_finish msg \<Rightarrow>
          bindR (finish_message msg c) (\<lambda>(ok, c). Inr (c\<lparr>processor := if ok then P_check else P_report msg\<rparr>))
      | P_report msg \<Rightarrow>
          Inr ((log_stderr (''bad message from '' @ full_info c @ '': '' @ toRawString msg) c)\<lparr>processor := P_check\<rparr>)
      | P_last \<Rightarrow> if \<not> scoring_received c then Inl Exit else Inr (c\<lparr>processor := P_ended\<rparr>)
      | P_ended \<Rightarrow> Inr c)"

section \<open>Printing\<close>

definition print_log_to_console :: "string \<times> bool \<Rightarrow> Client \<Rightarrow> Client" where
  "print_log_to_console l c =
     c\<lparr>console := console c @ [if snd l then (''ERROR: '' @ fst l, True) else (fst l @ ''.'', False)]\<rparr>"

definition print_if :: "(string \<times> bool) option \<Rightarrow> Client \<Rightarrow> Client" where
  "print_if r c = (case r of None \<Rightarrow> c | Some l \<Rightarrow> print_log_to_console l c)"

definition logger_step :: "Client \<Rightarrow> Client res" where
  "logger_step c =
     (case logger c of
        L_check \<Rightarrow> Inr (c\<lparr>logger := if over c then L_last else L_pop\<rparr>)
      | L_pop \<Rightarrow> (case try_pop_for (logs c) of (r, q) \<Rightarrow> Inr ((print_if r (c\<lparr>logs := q\<rparr>))\<lparr>logger := L_check\<rparr>))
      | L_last \<Rightarrow> (case try_pop_for (logs c) of (r, q) \<Rightarrow> Inr ((print_if r (c\<lparr>logs := q\<rparr>))\<lparr>logger := L_drain\<rparr>))
      | L_drain \<Rightarrow>
          (case try_pop (logs c) of
             (r, q) \<Rightarrow> Inr ((print_if r (c\<lparr>logs := q\<rparr>))\<lparr>logger := if r = None then L_ended else L_drain\<rparr>))
      | L_ended \<Rightarrow> Inr c)"

section \<open>The threads together\<close>

text \<open>Which thread makes the next step, with what its system call returns.\<close>

datatype client_event =
    Main | Strategy poll_outcome | Receiver recv_outcome | Sender write_outcome | Processor | Logger

fun client_step :: "client_event \<Rightarrow> Client \<Rightarrow> Client res" where
  "client_step Main c = Inr (if hello_queued c then c else (queue_hello_message c)\<lparr>hello_queued := True\<rparr>)"
| "client_step (Strategy r) c = strategy_step r c"
| "client_step (Receiver r) c = receiver_step r c"
| "client_step (Sender r) c = sender_step r c"
| "client_step Processor c = processor_step c"
| "client_step Logger c = logger_step c"

fun client_run :: "client_event list \<Rightarrow> Client \<Rightarrow> Client res" where
  "client_run [] c = Inr c"
| "client_run (e # es) c = bindR (client_step e c) (client_run es)"

text \<open>\<open>join_threads\<close> returns when every thread has ended.\<close>

definition threads_joined :: "Client \<Rightarrow> bool" where
  "threads_joined c \<longleftrightarrow> processor c = P_ended \<and> sender c = N_ended \<and> receiver c = R_ended \<and>
     strategy c = S_ended \<and> logger c = L_ended"

end
