(* ===== verification/Client_Numbers.thy ===== *)
theory Client_Numbers
  imports Game_Client Game_Safety
begin

text \<open>
  The computations of the client: when its polynomial overflows an \<open>int\<close>, how large its values are, and
  what the choice of the next PUT gives.
\<close>

section \<open>Powers in an \<open>int\<close>\<close>

lemma mult_int32_nonneg:
  "0 \<le> a * b \<Longrightarrow> mult_int32 a b = (if a * b < 2 ^ 31 then Inr (a * b) else Inl Undefined)"
  by (simp add: mult_int32_def)

text \<open>The loop fails exactly when the last power does, provided that no coefficient is missing.\<close>

lemma poly_sum_overflow:
  assumes "0 \<le> x"
  shows "i + n \<le> length cs \<Longrightarrow> poly_sum cs n i x (x ^ i) r = Inl e \<longleftrightarrow>
    e = Undefined \<and> (\<exists>j \<in> {i..<i + n}. 2 ^ 31 \<le> x ^ Suc j)"
proof (induction n arbitrary: i r)
  case (Suc n)
  have i: "i < length cs" using Suc.prems by simp
  have p: "x ^ i * x = x ^ Suc i" "0 \<le> x ^ i * x" using assms by simp_all
  have split: "{i..<i + Suc n} = insert i {Suc i..<Suc i + n}" by auto
  show ?case
  proof (cases "x ^ Suc i < 2 ^ 31")
    case True
    then have m: "mult_int32 (x ^ i) x = Inr (x ^ Suc i)" unfolding mult_int32_nonneg [OF p(2)] p(1) by simp
    show ?thesis
      using Suc.IH [of "Suc i" "dadd r (dmul (cs ! i) (double_of_int (x ^ i)))"] Suc.prems i True
      unfolding split by (simp add: m not_le [symmetric])
  next
    case False
    then have m: "mult_int32 (x ^ i) x = Inl Undefined" unfolding mult_int32_nonneg [OF p(2)] p(1) by simp
    show ?thesis using False i unfolding split by (auto simp: m)
  qed
qed simp

lemma power_reaches:
  fixes x :: int
  assumes "0 \<le> x"
  shows "(\<exists>j \<in> {0..<n}. 2 ^ 31 \<le> x ^ Suc j) \<longleftrightarrow> 2 ^ 31 \<le> x ^ n"
proof (cases "2 \<le> x")
  case True
  have "x ^ Suc j \<le> x ^ n" if "j < n" for j using True that by (intro power_increasing) auto
  then show ?thesis by (cases n) (auto intro: order_trans bexI [of _ "n - 1"])
next
  case False
  then have "x = 0 \<or> x = 1" using assms by auto
  then show ?thesis by (auto simp: power_0_left split: if_splits)
qed

lemma poly_at_overflow_iff:
  assumes "0 \<le> x" and "poly_N c = int (length (coeffs c)) - 1"
  shows "poly_at x c = Inl e \<longleftrightarrow> e = Undefined \<and> 2 ^ 31 \<le> x ^ length (coeffs c)"
  using poly_sum_overflow [OF assms(1), of 0 "length (coeffs c)" "coeffs c" dzero e] assms(2)
    power_reaches [OF assms(1), of "length (coeffs c)"]
  by (simp add: poly_at_def)

lemma poly_values_overflow:
  assumes "poly_N c = int (length (coeffs c)) - 1" and "0 \<le> i"
  shows "poly_values (Suc n) i c = Inl e \<longleftrightarrow> e = Undefined \<and> 2 ^ 31 \<le> (i + int n) ^ length (coeffs c)"
  using assms(2)
proof (induction n arbitrary: i)
  case 0
  then show ?case using poly_at_overflow_iff [OF 0 assms(1), of e] by (simp add: bindR_eq_Inl)
next
  case (Suc n)
  have mono: "i ^ length (coeffs c) \<le> (i + int (Suc n)) ^ length (coeffs c)"
    using Suc.prems by (intro power_mono) auto
  note here = poly_at_overflow_iff [OF Suc.prems assms(1)]
  show ?case
  proof (cases "2 ^ 31 \<le> i ^ length (coeffs c)")
    case True
    then have "poly_at i c = Inl Undefined" using here by blast
    then show ?thesis using True mono by auto
  next
    case False
    then have "poly_at i c \<noteq> Inl a" for a using here by blast
    then obtain v where "poly_at i c = Inr v" by (cases "poly_at i c") auto
    then have "poly_values (Suc (Suc n)) i c = Inl e \<longleftrightarrow> poly_values (Suc n) (i + 1) c = Inl e"
      unfolding poly_values.simps(2) [of "Suc n" i] by (simp add: bindR_eq_Inl del: poly_values.simps)
    then show ?thesis using Suc.IH [of "i + 1"] Suc.prems by (simp add: add.assoc)
  qed
qed

section \<open>Sizes\<close>

lemma bounded_int32:
  assumes "\<bar>z\<bar> \<le> 2 ^ 31"
  shows "bounded (double_of_int z) (2 ^ 32)"
proof -
  have "real_of_int \<bar>z\<bar> \<le> real_of_int (2 ^ 31)" using assms by (simp only: of_int_le_iff)
  then have z: "\<bar>real_of_int z * 2 powi 0\<bar> \<le> 2 ^ 31" by simp
  then have "rounds_to (double_of_int z) (real_of_int z * 2 powi 0)"
    unfolding double_of_int_def by (intro round_dyadic_value below_half_max) simp
  then show ?thesis by (rule rounds_to_bounded [OF _ z]) simp
qed

lemma poly_sum_bounded:
  assumes "\<forall>c \<in> set cs. bounded c (2 ^ 7)"
  shows "poly_sum cs n i x xp r = Inr v \<Longrightarrow> \<bar>xp\<bar> \<le> 2 ^ 31 \<Longrightarrow> i + n \<le> 9 \<Longrightarrow> bounded r (real i * 2 ^ 41) \<Longrightarrow>
    bounded v (real (i + n) * 2 ^ 41)"
proof (induction n arbitrary: i xp r)
  case (Suc n)
  obtain c xp' where c: "nth_chk cs i = Inr c" "mult_int32 xp x = Inr xp'"
      "poly_sum cs n (Suc i) x xp' (dadd r (dmul c (double_of_int xp))) = Inr v"
    using Suc.prems(1) by (auto simp: bindR_eq_Inr)
  have "c \<in> set cs" using c(1) by (auto simp: nth_chk_eq_Inr)
  then have cb: "bounded c (2 ^ 7)" using assms by blast
  have xp': "\<bar>xp'\<bar> \<le> 2 ^ 31" using c(2) by (auto simp: mult_int32_def split: if_splits)
  have d: "bounded (dmul c (double_of_int xp)) (2 ^ 40)"
    by (rule bounded_dmul [OF cb bounded_int32 [OF Suc.prems(2)]]) simp_all
  have i: "real i \<le> 9" using Suc.prems(3) by simp
  have "bounded (dadd r (dmul c (double_of_int xp))) (real (Suc i) * 2 ^ 41)"
    by (rule bounded_dadd [OF Suc.prems(4) d]) (use i in simp_all)
  from Suc.IH [OF c(3) xp' _ this] Suc.prems(3) show ?case by simp
qed simp

lemma poly_at_bounded:
  assumes "poly_at x c = Inr v" and "\<forall>c \<in> set (coeffs c). bounded c (2 ^ 7)" and "poly_N c \<le> 8"
  shows "bounded v (2 ^ 45)"
proof -
  have n: "nat (poly_N c + 1) \<le> 9" using assms(3) by simp
  have "bounded v (real (0 + nat (poly_N c + 1)) * 2 ^ 41)"
    using assms(1) unfolding poly_at_def by (rule poly_sum_bounded [OF assms(2)]) (use n in simp_all)
  then show ?thesis by (rule bounded_mono) (use n in simp)
qed

lemma poly_values_safe:
  assumes "poly_N c = int (length (coeffs c)) - 1" and "length (coeffs c) \<le> 9" and "\<forall>c \<in> set (coeffs c). bounded c (2 ^ 7)"
    and "k ^ length (coeffs c) < 2 ^ 31"
  shows "0 \<le> i \<Longrightarrow> i + int n \<le> k + 1 \<Longrightarrow>
    \<exists>vs. poly_values n i c = Inr vs \<and> length vs = n \<and> (\<forall>v \<in> set vs. bounded v (2 ^ 45))"
proof (induction n arbitrary: i)
  case (Suc n)
  have "i ^ length (coeffs c) \<le> k ^ length (coeffs c)" using Suc.prems by (intro power_mono) auto
  then have "\<not> 2 ^ 31 \<le> i ^ length (coeffs c)" using assms(4) by simp
  then have "poly_at i c \<noteq> Inl e" for e using poly_at_overflow_iff [OF Suc.prems(1) assms(1)] by blast
  then obtain v where v: "poly_at i c = Inr v" by (cases "poly_at i c") auto
  moreover obtain vs where "poly_values n (i + 1) c = Inr vs" "length vs = n" "\<forall>v \<in> set vs. bounded v (2 ^ 45)"
    using Suc.IH [of "i + 1"] Suc.prems by auto
  moreover have "bounded v (2 ^ 45)" using poly_at_bounded [OF v assms(3)] assms(1,2) by simp
  ultimately show ?case by simp
qed simp

section \<open>The choice of a PUT\<close>

lemma max_from_bound: "b < i \<Longrightarrow> max_from best b i xs < i + length xs"
proof (induction xs arbitrary: best b i)
  case (Cons x xs)
  then show ?case using Cons.IH [of i "Suc i" x] Cons.IH [of b "Suc i" best] by simp
qed simp

lemma max_element_bound: "xs \<noteq> [] \<Longrightarrow> max_element xs < length xs"
  using max_from_bound [of 0 1] by (cases xs) auto

lemma put_bounds: "is_finite min_put_value" "dval min_put_value = - 5" "is_finite max_put_value" "dval max_put_value = 5"
    "canonical min_put_value" "canonical max_put_value"
proof -
  have "double_of_int (- 5) = Finite True 5629499534213120 (- 50)" "double_of_int 5 = Finite False 5629499534213120 (- 50)"
    using double_of_int_exact [of "- 5" 5629499534213120 "- 50"] double_of_int_exact [of 5 5629499534213120 "- 50"] by simp_all
  then show "is_finite min_put_value" "dval min_put_value = - 5" "is_finite max_put_value" "dval max_put_value = 5"
    "canonical min_put_value" "canonical max_put_value"
    by (simp_all add: min_put_value_def max_put_value_def power_int_minus)
qed

lemma clamp_bounded:
  assumes "is_finite v" and "canonical v"
  shows "bounded (clamp v min_put_value max_put_value) 5"
  using assms put_bounds by (auto simp: clamp_def bounded_def dless_dval not_less abs_if)

lemma clamp_in_range:
  "is_finite v \<Longrightarrow> canonical v \<Longrightarrow> \<bar>dval v\<bar> \<le> 5 \<Longrightarrow> clamp v min_put_value max_put_value = v"
  using put_bounds by (auto simp: clamp_def dless_dval abs_if split: if_splits)

text \<open>How many points the choice looks at.\<close>

definition put_size :: "bool \<Rightarrow> int \<Rightarrow> nat" where
  "put_size have_K k = nat ((if have_K then k else 1) + 1)"

lemma get_best_put_safe:
  assumes "0 < put_size (K_set c) (server_K c)" and "put_size (K_set c) (server_K c) \<le> length (current_approximation c)" and "put_size (K_set c) (server_K c) \<le> length (real_values c)"
    and "\<forall>v \<in> set (current_approximation c). bounded v (2 ^ 59)" and "\<forall>v \<in> set (real_values c). bounded v (2 ^ 45)"
  shows "\<exists>pt v. get_best_put c = Inr ((int pt, v), c\<lparr>current_approximation :=
      (current_approximation c)[pt := dadd (current_approximation c ! pt) v]\<rparr>) \<and> pt < put_size (K_set c) (server_K c) \<and> bounded v 5 \<and>
    bounded (dadd (current_approximation c ! pt) v) (2 ^ 59)"
proof -
  let ?n = "put_size (K_set c) (server_K c)"
  let ?sq = "map2 squared_difference (take ?n (current_approximation c)) (take ?n (real_values c))"
  define i where "i = max_element ?sq"
  have len: "length ?sq = ?n" using assms(2,3) by simp
  then have "?sq \<noteq> []" using assms(1) by (metis length_0_conv less_numeral_extra(3))
  then have i: "i < ?n" using max_element_bound len unfolding i_def by metis
  then have il: "i < length (current_approximation c)" "i < length (real_values c)" using assms(2,3) by simp_all
  let ?r = "real_values c ! i" and ?a = "current_approximation c ! i"
  have b: "bounded ?r (2 ^ 45)" "bounded ?a (2 ^ 59)" using assms(4,5) il by simp_all
  have "bounded (dsub ?r ?a) (2 ^ 60)" by (rule bounded_dsub [OF b]) simp_all
  then have v: "bounded (clamp (dsub ?r ?a) min_put_value max_put_value) 5"
    by (intro clamp_bounded) (simp_all add: bounded_def)
  then have "bounded (clamp (dsub ?r ?a) min_put_value max_put_value) 20" by (rule bounded_mono) simp
  with b(2) have s: "bounded (dadd ?a (clamp (dsub ?r ?a) min_put_value max_put_value)) (2 ^ 59)"
    by (rule dadd_stays)
  have "get_best_put c = Inr ((int i, clamp (dsub ?r ?a) min_put_value max_put_value), c\<lparr>current_approximation :=
      (current_approximation c)[i := dadd ?a (clamp (dsub ?r ?a) min_put_value max_put_value)]\<rparr>)"
    using assms(2,3) il i_def unfolding get_best_put_def put_size_def [symmetric] by (simp add: Let_def not_less)
  then show ?thesis using i v s by blast
qed

section \<open>What the server makes of it\<close>

lemma reread_in_range:
  assumes "bounded v 5"
  shows "\<not> dless (dadd (reread v) eps) min_put_value" and "\<not> dless max_put_value (dsub (reread v) eps)"
  using reread_check [of v 5] assms by (simp_all add: bounded_def min_put_value_def max_put_value_def)

end
