(* ===== verification/Client_Invariants.thy ===== *)
theory Client_Invariants
  imports Client_Numbers
begin

text \<open>
  The invariant of the client's threads, under any scheduling, when the lines that the server sends are
  what a server with parameters \<open>k\<close> and \<open>n\<close> may send: at most \<open>n + 1\<close> coefficients, states of \<open>k + 1\<close>
  values, scorings with a player. Every step keeps it, except for the step in which the power of
  \<open>poly_at\<close> overflows, which is the only one with undefined behaviour.
\<close>

section \<open>Messages\<close>

definition good_message :: "nat \<Rightarrow> nat \<Rightarrow> Message \<Rightarrow> bool" where
  "good_message k n m \<longleftrightarrow> createMessage (raw_message m) = Some m \<and> harmless k n m"

text \<open>A PUT that may be queued: its text can be read, and that of the automatic strategy is in range.\<close>

definition put_ok :: "nat \<Rightarrow> bool \<Rightarrow> int \<Rightarrow> double \<Rightarrow> bool" where
  "put_ok k auto pt v \<longleftrightarrow> - (2 ^ 31) \<le> pt \<and> pt < 2 ^ 31 \<and> is_finite v \<and> canonical v \<and>
     (auto \<longrightarrow> 0 \<le> pt \<and> pt \<le> int k \<and> bounded v 5)"

definition out_ok :: "nat \<Rightarrow> bool \<Rightarrow> Message option \<Rightarrow> bool" where
  "out_ok k auto m \<longleftrightarrow> (\<exists>p. m = create_hello p \<and> isAlphanumeric p \<and> p \<noteq> []) \<or>
     (\<exists>pt v. m = create_put pt v \<and> put_ok k auto pt v)"

lemma out_ok_put: "put_ok k auto pt v \<Longrightarrow> out_ok k auto (create_put pt v)"
  by (auto simp: out_ok_def)

lemma out_ok_not_null: "out_ok k auto m \<Longrightarrow> \<exists>x. m = Some x"
  using create_hello_eq create_pair_eq(1) by (fastforce simp: out_ok_def put_ok_def)

lemma good_state:
  assumes "good_message k n m" and "body m = StateMessage vs"
  shows "6 \<le> length (toRawString m)" and "length vs = k + 1"
proof -
  obtain cmd ts where m: "list_all param_ok ts" "raw_message m = command_line cmd ts @ crlf"
      "parseMessage cmd ts = Some (body m)"
    using assms(1) unfolding good_message_def createMessage_iff by auto
  then have "cmd = ''STATE''" "ts \<noteq> []"
    using assms(2) by (auto simp: parseMessage_def parse_hello_def parse_coeff_def parse_put_def parse_state_def parse_scoring_def
        split: if_splits list.splits option.splits)
  then show "6 \<le> length (toRawString m)"
    using toRawString_crlf [OF m(2)] by (simp add: command_line_def)
  show "length vs = k + 1" using assms by (simp add: good_message_def harmless_def)
qed

lemma good_scoring:
  assumes "good_message k n m" and "body m = ScoringMessage ids vs"
  shows "8 \<le> length (toRawString m)"
proof -
  obtain cmd ts where m: "list_all param_ok ts" "raw_message m = command_line cmd ts @ crlf"
      "parseMessage cmd ts = Some (body m)"
    using assms(1) unfolding good_message_def createMessage_iff by auto
  have "ids \<noteq> []" using assms by (simp add: good_message_def harmless_def)
  then have "cmd = ''SCORING''" "ts \<noteq> []"
    using assms(2) m(3) by (auto simp: parseMessage_def parse_hello_def parse_coeff_def parse_put_def parse_state_def parse_scoring_def
        split: if_splits list.splits option.splits)
  then show ?thesis
    using toRawString_crlf [OF m(2)] by (simp add: command_line_def)
qed

lemma coeff_loop_length: "coeff_loop ps = Some cs \<Longrightarrow> length cs = length ps"
  by (induction ps arbitrary: cs) (auto split: option.splits if_splits)

lemma good_coeff:
  assumes "good_message k n m" and "body m = CoeffMessage cs"
  shows "1 \<le> length cs" and "length cs \<le> 9" and "length cs \<le> n + 1" and "\<forall>c \<in> set cs. bounded c (2 ^ 7)"
proof -
  have m: "createMessage (raw_message m) = Some m" using assms(1) by (simp add: good_message_def)
  obtain cmd ts where ts: "parseMessage cmd ts = Some (CoeffMessage cs)"
    using createMessage_body [OF m] assms(2) by auto
  then show "1 \<le> length cs" "length cs \<le> 9"
    by (auto simp: parseMessage_def parse_hello_def parse_coeff_def parse_put_def parse_state_def parse_scoring_def max_n_def
        not_less Suc_le_eq dest!: coeff_loop_length split: if_splits list.splits)
  show "length cs \<le> n + 1" using assms by (simp add: good_message_def harmless_def)
  show "\<forall>c \<in> set cs. bounded c (2 ^ 7)" by (rule coeff_message_bounded [OF m assms(2)])
qed

section \<open>The invariant\<close>

text \<open>The coefficients have not been taken over completely.\<close>

fun is_coeff :: "payload \<Rightarrow> bool" where
  "is_coeff (CoeffMessage cs) = True"
| "is_coeff _ = False"

fun before_coeff :: "bool \<Rightarrow> processor_pc \<Rightarrow> bool" where
  "before_coeff first (P_finish m) = (first \<or> is_coeff (body m))"
| "before_coeff first _ = first"

definition coeffs_ok :: "nat \<Rightarrow> int \<Rightarrow> double list \<Rightarrow> bool" where
  "coeffs_ok n deg cs \<longleftrightarrow> deg = int (length cs) - 1 \<and> length cs \<le> 9 \<and> length cs \<le> n + 1 \<and>
     (\<forall>x \<in> set cs. bounded x (2 ^ 7))"

definition values_ok :: "nat \<Rightarrow> bool \<Rightarrow> int \<Rightarrow> double list \<Rightarrow> double list \<Rightarrow> bool" where
  "values_ok k have_K sk cur vals \<longleftrightarrow> (have_K \<longrightarrow> sk = int k) \<and>
     put_size have_K sk \<le> length cur \<and> put_size have_K sk \<le> length vals \<and>
     (\<forall>v \<in> set cur. bounded v (2 ^ 59)) \<and> (\<forall>v \<in> set vals. bounded v (2 ^ 45))"

fun strategy_ok :: "nat \<Rightarrow> bool \<Rightarrow> bool \<Rightarrow> int \<Rightarrow> strategy_pc \<Rightarrow> bool" where
  "strategy_ok k auto before puts S_wait = auto"
| "strategy_ok k auto before puts S_increment = (auto \<and> \<not> before \<and> puts = 0)"
| "strategy_ok k auto before puts S_choose = (auto \<and> \<not> before)"
| "strategy_ok k auto before puts S_poll = (\<not> auto)"
| "strategy_ok k auto before puts S_lines = (\<not> auto)"
| "strategy_ok k auto before puts (S_log pt v) = (put_ok k auto pt v \<and> \<not> (auto \<and> before))"
| "strategy_ok k auto before puts (S_push m) = (out_ok k auto m \<and> \<not> (auto \<and> before))"
| "strategy_ok k auto before puts _ = True"

fun processor_ok :: "nat \<Rightarrow> nat \<Rightarrow> bool \<Rightarrow> processor_pc \<Rightarrow> bool" where
  "processor_ok k n first (P_begin m) = good_message k n m"
| "processor_ok k n first (P_finish m) = (good_message k n m \<and> \<not> first)"
| "processor_ok k n first (P_report m) = good_message k n m"
| "processor_ok k n first _ = True"

definition client_ok :: "nat \<Rightarrow> nat \<Rightarrow> Client \<Rightarrow> bool" where
  "client_ok k n c \<longleftrightarrow> isAlphanumeric (my_id c) \<and> my_id c \<noteq> [] \<and>
     (\<forall>m \<in> set (incoming c). good_message k n m) \<and> (\<forall>m \<in> set (outgoing c). out_ok k (is_auto c) m) \<and>
     0 \<le> puts_without_answer c \<and> puts_without_answer c \<le> 1 \<and>
     (before_coeff (first_message c) (processor c) \<longrightarrow> puts_without_answer c = 1 \<and> \<not> K_set c) \<and>
     (\<not> before_coeff (first_message c) (processor c) \<longrightarrow>
        values_ok k (K_set c) (server_K c) (current_approximation c) (real_values c)) \<and>
     (\<not> first_message c \<longrightarrow> coeffs_ok n (poly_N c) (coeffs c)) \<and>
     strategy_ok k (is_auto c) (before_coeff (first_message c) (processor c)) (puts_without_answer c) (strategy c) \<and>
     processor_ok k n (first_message c) (processor c)"

text \<open>Fields that the invariant does not mention.\<close>

lemma client_ok_fields [simp]:
  "client_ok k n (c\<lparr>logs := l\<rparr>) = client_ok k n c"
  "client_ok k n (c\<lparr>over := b\<rparr>) = client_ok k n c"
  "client_ok k n (c\<lparr>input_buffer := s\<rparr>) = client_ok k n c"
  "client_ok k n (c\<lparr>receiver := r\<rparr>) = client_ok k n c"
  "client_ok k n (c\<lparr>recv_buffer := s\<rparr>) = client_ok k n c"
  "client_ok k n (c\<lparr>first_line := b\<rparr>) = client_ok k n c"
  "client_ok k n (c\<lparr>sender := x\<rparr>) = client_ok k n c"
  "client_ok k n (c\<lparr>scoring_received := b\<rparr>) = client_ok k n c"
  "client_ok k n (c\<lparr>logger := y\<rparr>) = client_ok k n c"
  "client_ok k n (c\<lparr>hello_queued := b\<rparr>) = client_ok k n c"
  "client_ok k n (c\<lparr>written := s\<rparr>) = client_ok k n c"
  "client_ok k n (c\<lparr>console := z\<rparr>) = client_ok k n c"
  "client_ok k n (c\<lparr>full_info := s\<rparr>) = client_ok k n c"
  by (simp_all add: client_ok_def)

lemma client_ok_logs [simp]:
  "client_ok k n (log_stdout msg c) = client_ok k n c" "client_ok k n (log_stderr msg c) = client_ok k n c"
  by (simp_all add: log_stdout_def log_stderr_def)

lemma log_fields [simp]:
  "strategy (log_stdout msg c) = strategy c" "strategy (log_stderr msg c) = strategy c"
  "is_auto (log_stdout msg c) = is_auto c" "is_auto (log_stderr msg c) = is_auto c"
  "processor (log_stdout msg c) = processor c" "processor (log_stderr msg c) = processor c"
  "first_message (log_stdout msg c) = first_message c" "first_message (log_stderr msg c) = first_message c"
  "K_set (log_stdout msg c) = K_set c" "K_set (log_stderr msg c) = K_set c"
  by (simp_all add: log_stdout_def log_stderr_def)

section \<open>Initial states\<close>

definition client_start :: "string \<Rightarrow> bool \<Rightarrow> int \<Rightarrow> string \<Rightarrow> int \<Rightarrow> Client" where
  "client_start pid auto n0 ip p = register_connection ip p (new_client pid auto n0)"

lemma client_ok_start: "isAlphanumeric pid \<Longrightarrow> pid \<noteq> [] \<Longrightarrow> client_ok k n (client_start pid auto n0 ip p)"
  by (simp add: client_start_def register_connection_def Let_def)
    (simp add: new_client_def client_ok_def empty_queue_def)

section \<open>Steps\<close>

lemma ok_main: "client_ok k n c \<Longrightarrow> safeR (client_ok k n) (client_step Main c)"
  by (auto simp: client_ok_def queue_hello_message_def push_def out_ok_def)

lemma ok_logger: "client_ok k n c \<Longrightarrow> safeR (client_ok k n) (logger_step c)"
  by (auto simp: logger_step_def print_if_def print_log_to_console_def split: logger_pc.split option.split prod.split)

text \<open>
  The line that the receiver is about to parse, if any, is one that the server may send: a harmless
  message or garbage, but garbage on the first line only without a percent sign.
\<close>

definition lines_ok :: "nat \<Rightarrow> nat \<Rightarrow> Client \<Rightarrow> bool" where
  "lines_ok k n c = (receiver c = R_lines \<longrightarrow>
     (case find_crlf (recv_buffer c) of
        None \<Rightarrow> True
      | Some pos \<Rightarrow> (case createMessage (take (pos + 2) (recv_buffer c)) of
            None \<Rightarrow> first_line c \<longrightarrow> CHR ''%'' \<notin> set (full_info c) \<union> set (take pos (recv_buffer c))
          | Some m \<Rightarrow> harmless k n m)))"

lemma client_ok_incoming: "client_ok k n c \<Longrightarrow> good_message k n m \<Longrightarrow> client_ok k n (c\<lparr>incoming := push m (incoming c)\<rparr>)"
  by (simp add: client_ok_def push_def)

lemma ok_receiver:
  assumes "client_ok k n c" and "lines_ok k n c"
  shows "safeR (client_ok k n) (receiver_step r c)"
proof (cases "receiver c")
  case R_lines
  show ?thesis
  proof (cases "find_crlf (recv_buffer c)")
    case (Some pos)
    let ?line = "take (pos + 2) (recv_buffer c)"
    have "good_message k n m" if "createMessage ?line = Some m" for m
      using assms(2) R_lines Some that createMessage_raw [OF that] by (simp add: lines_ok_def good_message_def)
    moreover have "(fatal_stop (''bad message from '' @ full_info c @ '': '' @ take (length ?line - 2) ?line) [] :: Client res) = Inl Exit"
      if "createMessage ?line = None" "first_line c"
    proof (rule fatal_stop_plain)
      have "set (take (length ?line - 2) ?line) \<subseteq> set (take pos (recv_buffer c))"
        by (simp add: set_take_subset_set_take)
      then show "CHR ''%'' \<notin> set (''bad message from '' @ full_info c @ '': '' @ take (length ?line - 2) ?line)"
        using assms(2) R_lines Some that by (auto simp: lines_ok_def)
    qed
    ultimately show ?thesis
      using R_lines Some assms(1) client_ok_incoming [of k n "c\<lparr>recv_buffer := drop (pos + 2) (recv_buffer c)\<rparr>"]
      by (auto simp: receiver_step_def receive_line_def split: option.split)
  qed (use assms(1) R_lines in \<open>simp add: receiver_step_def\<close>)
qed (use assms(1) in \<open>simp_all add: receiver_step_def split: recv_outcome.split\<close>)

lemma client_ok_outgoing: "client_ok k n c \<Longrightarrow> outgoing c = m # q \<Longrightarrow> client_ok k n (c\<lparr>outgoing := q\<rparr>) \<and> out_ok k (is_auto c) m"
  by (simp add: client_ok_def)

lemma ok_sender:
  assumes "client_ok k n c"
  shows "safeR (client_ok k n) (sender_step r c)"
proof (cases "sender c")
  case N_pop
  show ?thesis
  proof (cases "outgoing c")
    case (Cons m q)
    then obtain x where "m = Some x" using client_ok_outgoing [OF assms] out_ok_not_null by blast
    then show ?thesis using Cons N_pop client_ok_outgoing [OF assms Cons] by (simp add: sender_step_def deref_def)
  qed (use assms N_pop in \<open>simp add: sender_step_def client_ok_def\<close>)
qed (use assms in \<open>auto simp: sender_step_def split: write_outcome.split\<close>)

text \<open>Facts that the steps of the strategies need.\<close>

lemma put_size_bounds:
  assumes "client_ok k n c" and "\<not> before_coeff (first_message c) (processor c)" and "1 \<le> k"
  shows "0 < put_size (K_set c) (server_K c)" and "put_size (K_set c) (server_K c) \<le> k + 1"
  using assms by (auto simp: client_ok_def values_ok_def put_size_def)

lemma ok_get_best_put:
  assumes "client_ok k n c" and "strategy c = S_choose" and "1 \<le> k" and "k < 2 ^ 31"
  shows "safeR (client_ok k n) (bindR (get_best_put c) (\<lambda>((pt, v), c). Inr (c\<lparr>strategy := S_log pt v\<rparr>)))"
proof -
  have b: "is_auto c" "\<not> before_coeff (first_message c) (processor c)"
      "values_ok k (K_set c) (server_K c) (current_approximation c) (real_values c)"
    using assms(1,2) by (simp_all add: client_ok_def)
  note size = put_size_bounds [OF assms(1) b(2) assms(3)]
  obtain pt v where g: "get_best_put c = Inr ((int pt, v), c\<lparr>current_approximation :=
        (current_approximation c)[pt := dadd (current_approximation c ! pt) v]\<rparr>)"
      "pt < put_size (K_set c) (server_K c)" "bounded v 5" "bounded (dadd (current_approximation c ! pt) v) (2 ^ 59)"
    using get_best_put_safe [OF size(1)] b(3) unfolding values_ok_def by blast
  have "int pt \<le> int k" "int pt < 2 ^ 31" using g(2) size(2) assms(4) by auto
  then have "put_ok k True (int pt) v" using g(3) by (simp add: put_ok_def bounded_def)
  moreover have "\<forall>x \<in> set ((current_approximation c)[pt := dadd (current_approximation c ! pt) v]). bounded x (2 ^ 59)"
    using b(3) g(4) set_update_subset_insert [of "current_approximation c" pt] unfolding values_ok_def by fast
  ultimately show ?thesis using assms(1) b g(1) by (simp add: client_ok_def values_ok_def)
qed

lemma manual_line_ok: "manual_line line = Some (pt, v) \<Longrightarrow> put_ok k False pt v"
proof -
  assume "manual_line line = Some (pt, v)"
  then obtain a b where p: "parseInteger a = Some pt" "parseDouble b = Some v"
    by (auto simp: manual_line_def split: option.splits list.splits)
  have "- (2 ^ 31) \<le> pt \<and> pt < 2 ^ 31"
    using p(1) by (auto simp: parseInteger_def split: if_splits option.splits prod.splits)
  then show "put_ok k False pt v" using parsed_double [OF p(2)] by (simp add: put_ok_def)
qed

lemma ok_strategy:
  assumes "client_ok k n c" and "1 \<le> k" and "k < 2 ^ 31"
  shows "safeR (client_ok k n) (strategy_step r c)"
proof (cases "strategy c")
  case S_choose
  then show ?thesis using ok_get_best_put [OF assms(1) S_choose assms(2,3)] by (simp add: strategy_step_def)
next
  case S_lines
  then have a: "\<not> is_auto c" using assms(1) by (simp add: client_ok_def)
  then show ?thesis
    using S_lines assms(1) manual_line_ok [of _ _ _ k]
    by (auto simp: strategy_step_def manual_lines_def Let_def client_ok_def log_stderr_def split: prod.split option.split)
next
  case S_poll
  then show ?thesis
    using assms(1) by (auto simp: strategy_step_def manual_poll_def client_ok_def log_stderr_def
        split: poll_outcome.split option.split)
next
  case S_wait
  have "\<not> before_coeff (first_message c) (processor c)" if "wait_for_puts c"
    using assms(1) that by (auto simp: client_ok_def wait_for_puts_def)
  then show ?thesis using assms(1) S_wait by (auto simp: strategy_step_def client_ok_def wait_for_puts_def)
qed (use assms(1) out_ok_put in \<open>auto simp: strategy_step_def client_ok_def increment_puts_without_answer_def log_stdout_def push_def\<close>)

section \<open>The processor\<close>

lemma strategy_ok_later:
  "strategy_ok k a b p pc \<Longrightarrow> 0 < p \<Longrightarrow> (b' \<longrightarrow> b) \<Longrightarrow> strategy_ok k a b' p' pc"
  by (cases pc) auto

lemma decrement_simps [simp]:
  "processor (snd (decrement_puts_without_answer c)) = processor c"
  "first_message (snd (decrement_puts_without_answer c)) = first_message c"
  by (simp_all add: decrement_puts_without_answer_def)

lemma ok_decrement:
  assumes "client_ok k n c" and "\<not> before_coeff (first_message c) (processor c)"
  shows "client_ok k n (snd (decrement_puts_without_answer c))"
  using assms strategy_ok_later [of k "is_auto c" False "puts_without_answer c" "strategy c" False "puts_without_answer c - 1"]
  by (auto simp: client_ok_def decrement_puts_without_answer_def)

lemma ok_after_finish:
  assumes "client_ok k n c" and "processor c = P_finish m" and "\<not> is_coeff (body m)"
  shows "client_ok k n (c\<lparr>processor := P_check\<rparr>)" and "client_ok k n (c\<lparr>processor := P_report m\<rparr>)"
  using assms by (auto simp: client_ok_def)

lemma ok_begin:
  assumes "client_ok k n c" and "processor c = P_begin m"
  shows "safeR (client_ok k n) (begin_message m c)"
proof -
  have m: "good_message k n m" using assms by (simp add: client_ok_def)
  show ?thesis
  proof (cases "first_message c")
    case True
    then show ?thesis
      using assms m good_coeff [OF m]
      by (auto simp: begin_message_def begin_coeff_def log_stdout_def client_ok_def coeffs_ok_def split: payload.split)
  next
    case False
    then show ?thesis
      using assms m good_state(1) [OF m] good_scoring [OF m]
      by (auto simp: begin_message_def log_stdout_def client_ok_def substr_from_def split: payload.split)
  qed
qed

lemma poly_at_safe:
  assumes "coeffs_ok n (poly_N c) (coeffs c)" and "0 \<le> x" and "x ^ length (coeffs c) < 2 ^ 31"
  obtains v where "poly_at x c = Inr v" and "bounded v (2 ^ 45)"
proof -
  have "poly_at x c \<noteq> Inl e" for e
    using poly_at_overflow_iff [OF assms(2), of c e] assms(1,3) by (simp add: coeffs_ok_def)
  then obtain v where v: "poly_at x c = Inr v" by (cases "poly_at x c") auto
  moreover have "bounded v (2 ^ 45)" using assms(1) by (intro poly_at_bounded [OF v]) (simp_all add: coeffs_ok_def)
  ultimately show ?thesis by (rule that)
qed

lemma ok_finish_coeff:
  assumes "client_ok k n c" and "processor c = P_finish m" and "is_coeff (body m)"
  shows "safeR (\<lambda>(ok, c). ok \<and> client_ok k n (c\<lparr>processor := P_check\<rparr>)) (finish_coeff c)"
proof -
  have c: "\<not> first_message c" "coeffs_ok n (poly_N c) (coeffs c)" "puts_without_answer c = 1" "\<not> K_set c"
    using assms by (simp_all add: client_ok_def)
  obtain v0 where v0: "poly_at 0 c = Inr v0" "bounded v0 (2 ^ 45)"
    by (rule poly_at_safe [OF c(2), of 0]) (simp_all add: power_0_left)
  obtain v1 where v1: "poly_at 1 c = Inr v1" "bounded v1 (2 ^ 45)"
    by (rule poly_at_safe [OF c(2), of 1]) simp_all
  have "strategy_ok k (is_auto c) False 0 (strategy c)"
    using assms strategy_ok_later [of k "is_auto c" True 1 "strategy c" False 0] by (simp add: client_ok_def c)
  then show ?thesis
    using assms(1) c v0 v1 by (simp add: finish_coeff_def decrement_puts_without_answer_def client_ok_def values_ok_def put_size_def)
qed

text \<open>
  The step that computes the values at \<open>0..k\<close> for the first STATE, when \<open>k\<close> to the power of the number of
  coefficients does not fit into an \<open>int\<close>.
\<close>

fun is_state :: "payload \<Rightarrow> bool" where
  "is_state (StateMessage vs) = True"
| "is_state _ = False"

definition powers_too_large :: "nat \<Rightarrow> Client \<Rightarrow> bool" where
  "powers_too_large k c \<longleftrightarrow> is_auto c \<and> \<not> K_set c \<and> 2 ^ 31 \<le> int k ^ length (coeffs c)"

definition power_overflows :: "nat \<Rightarrow> client_event \<Rightarrow> Client \<Rightarrow> bool" where
  "power_overflows k e c \<longleftrightarrow> e = Processor \<and> powers_too_large k c \<and>
     (case processor c of P_finish m \<Rightarrow> is_state (body m) | _ \<Rightarrow> False)"

lemma finish_state_overflow:
  assumes "client_ok k n c" and "processor c = P_finish m" and "body m = StateMessage vs" and "powers_too_large k c"
  shows "finish_state vs c = Inl Undefined"
proof -
  have c: "coeffs_ok n (poly_N c) (coeffs c)" "good_message k n m" using assms(1,2) by (simp_all add: client_ok_def)
  have len: "length vs = k + 1" by (rule good_state(2) [OF c(2) assms(3)])
  then have k: "nat (int (length vs) - 1 + 1) = Suc k" by simp
  have "poly_values (Suc k) 0 c = Inl Undefined"
    using poly_values_overflow [of c 0 k Undefined] c(1) assms(4) by (simp add: coeffs_ok_def powers_too_large_def del: poly_values.simps)
  then show ?thesis using assms(4) unfolding finish_state_def Let_def k by (simp add: powers_too_large_def)
qed

lemma ok_first_state:
  assumes "client_ok k n c" and "processor c = P_finish m" and "body m = StateMessage vs"
    and "int k ^ length (coeffs c) < 2 ^ 31" and "is_auto c" and "\<not> K_set c"
  shows "safeR (\<lambda>(ok, c'). client_ok k n c' \<and> processor c' = processor c) (finish_state vs c)"
proof -
  have m: "good_message k n m" and c: "\<not> first_message c" "coeffs_ok n (poly_N c) (coeffs c)"
      "\<not> before_coeff (first_message c) (processor c)"
    using assms(1-3) by (simp_all add: client_ok_def)
  have len: "length vs = k + 1" using good_state(2) [OF m assms(3)] .
  obtain rs where rs: "poly_values (Suc k) 0 c = Inr rs" "length rs = Suc k" "\<forall>v \<in> set rs. bounded v (2 ^ 45)"
    using poly_values_safe [of c "int k" 0 "Suc k"] c(2) assms(4) unfolding coeffs_ok_def by auto
  define c1 where "c1 = c\<lparr>server_K := int k, K_set := True,
      current_approximation := resize (Suc k) (current_approximation c), real_values := rs\<rparr>"
  have "\<forall>v \<in> set (resize (Suc k) (current_approximation c)). bounded v (2 ^ 59)"
    using assms(1) c(3) by (auto simp: resize_def client_ok_def values_ok_def dest: in_set_takeD)
  then have c1: "client_ok k n c1" "\<not> before_coeff (first_message c1) (processor c1)" "processor c1 = processor c"
    using assms(1) c(3) rs by (simp_all add: c1_def client_ok_def values_ok_def put_size_def resize_def nat_add_distrib)
  have k: "nat (int (length vs) - 1 + 1) = Suc k" "int (length vs) - 1 = int k" using len by simp_all
  show ?thesis
    using ok_decrement [OF c1(1,2)] c1(3) assms(5,6) rs(1)
    unfolding finish_state_def Let_def k(1) unfolding k(2) rs(1) bindR_simps c1_def [symmetric] by (simp add: split_beta)
qed

lemma ok_finish_state:
  assumes "client_ok k n c" and "processor c = P_finish m" and "body m = StateMessage vs" and "\<not> powers_too_large k c"
  shows "safeR (\<lambda>(ok, c'). client_ok k n c' \<and> processor c' = processor c) (finish_state vs c)"
proof (cases "is_auto c \<and> \<not> K_set c")
  case True
  then have "int k ^ length (coeffs c) < 2 ^ 31" using assms(4) by (simp add: powers_too_large_def)
  then show ?thesis using ok_first_state [OF assms(1-3)] True by simp
next
  case False
  have "\<not> before_coeff (first_message c) (processor c)" using assms(1-3) by (simp add: client_ok_def)
  then show ?thesis using ok_decrement [OF assms(1)] False assms(1) by (auto simp: finish_state_def split_beta)
qed

lemma ok_finish:
  assumes "client_ok k n c" and "processor c = P_finish m" and "\<not> power_overflows k Processor c"
  shows "safeR (client_ok k n) (bindR (finish_message m c) (\<lambda>(ok, c). Inr (c\<lparr>processor := if ok then P_check else P_report m\<rparr>)))"
proof (cases "is_coeff (body m)")
  case True
  then obtain cs where "body m = CoeffMessage cs" by (cases "body m") auto
  then have "finish_message m c = finish_coeff c" by (simp add: finish_message_def)
  then show ?thesis using safeR_mono [OF ok_finish_coeff [OF assms(1,2) True]] by fastforce
next
  case False
  have after: "client_ok k n (c'\<lparr>processor := if ok then P_check else P_report m\<rparr>)"
    if "client_ok k n c'" "processor c' = processor c" for ok c'
    using ok_after_finish [OF that(1), of m] that(2) False assms(2) by simp
  have nb: "\<not> before_coeff (first_message c) (processor c)" using assms(1,2) False by (simp add: client_ok_def)
  have "safeR (\<lambda>(ok, c'). client_ok k n c' \<and> processor c' = processor c) (finish_message m c)"
    using False assms ok_decrement [OF assms(1) nb] ok_finish_state [OF assms(1,2)]
    by (auto simp: finish_message_def power_overflows_def split: payload.split)
  then show ?thesis using after by (auto elim!: safeR_mono)
qed

lemma ok_processor:
  assumes "client_ok k n c" and "\<not> power_overflows k Processor c"
  shows "safeR (client_ok k n) (processor_step c)"
proof (cases "processor c")
  case P_pop
  then show ?thesis
    using assms(1) by (cases "incoming c") (auto simp: processor_step_def client_ok_def)
next
  case (P_begin m)
  then show ?thesis using ok_begin [OF assms(1) P_begin] by (simp add: processor_step_def)
next
  case (P_finish m)
  then show ?thesis using ok_finish [OF assms(1) P_finish assms(2)] by (simp add: processor_step_def)
qed (use assms(1) in \<open>auto simp: processor_step_def client_ok_def log_stderr_def\<close>)

section \<open>Reachable states\<close>

definition server_may_send :: "nat \<Rightarrow> nat \<Rightarrow> client_event \<Rightarrow> Client \<Rightarrow> bool" where
  "server_may_send k n e c = (case e of Receiver r \<Rightarrow> lines_ok k n c | _ \<Rightarrow> True)"

lemma ok_client_step:
  assumes "client_ok k n c" and "server_may_send k n e c" and "1 \<le> k" and "k < 2 ^ 31" and "\<not> power_overflows k e c"
  shows "safeR (client_ok k n) (client_step e c)"
  using assms ok_main [OF assms(1)] ok_strategy [OF assms(1,3,4)] ok_receiver [OF assms(1)] ok_sender [OF assms(1)]
    ok_processor [OF assms(1)] ok_logger [OF assms(1)]
  by (cases e) (auto simp: server_may_send_def)

lemma overflow_undefined:
  assumes "client_ok k n c" and "power_overflows k e c"
  shows "client_step e c = Inl Undefined"
proof -
  obtain m vs where m: "processor c = P_finish m" "body m = StateMessage vs" "e = Processor" "powers_too_large k c"
    using assms(2) by (auto simp: power_overflows_def split: processor_pc.splits elim: is_state.elims)
  then show ?thesis using finish_state_overflow [OF assms(1) m(1,2,4)] by (simp add: processor_step_def finish_message_def)
qed

text \<open>This overflow is the only undefined behaviour.\<close>

lemma client_undefined_iff:
  assumes "client_ok k n c" and "server_may_send k n e c" and "1 \<le> k" and "k < 2 ^ 31"
  shows "client_step e c = Inl Undefined \<longleftrightarrow> power_overflows k e c"
  using safeR_not_undefined [OF ok_client_step [OF assms]] overflow_undefined [OF assms(1)] by blast

lemma no_overflow:
  assumes "client_ok k n c" and "1 \<le> k" and "int k ^ (n + 1) < 2 ^ 31"
  shows "\<not> power_overflows k e c"
proof
  assume o: "power_overflows k e c"
  then obtain m where "processor c = P_finish m" by (auto simp: power_overflows_def split: processor_pc.splits)
  then have "length (coeffs c) \<le> n + 1" using assms(1) by (auto simp: client_ok_def coeffs_ok_def)
  then have "int k ^ length (coeffs c) \<le> int k ^ (n + 1)" using assms(2) by (intro power_increasing) auto
  then show False using o assms(3) by (simp add: power_overflows_def powers_too_large_def)
qed

lemma ok_client_value:
  assumes "client_ok k n c" and "server_may_send k n e c" and "1 \<le> k" and "k < 2 ^ 31" and "client_step e c = Inr c'"
  shows "client_ok k n c'"
  using ok_client_step [OF assms(1-4)] overflow_undefined [OF assms(1)] assms(5) by fastforce

text \<open>Any sequence of steps, with the inputs as above.\<close>

inductive client_reachable :: "nat \<Rightarrow> nat \<Rightarrow> string \<Rightarrow> bool \<Rightarrow> Client \<Rightarrow> bool" for k n pid auto where
  start: "client_reachable k n pid auto (client_start pid auto n0 ip p)"
| step: "client_reachable k n pid auto c \<Longrightarrow> server_may_send k n e c \<Longrightarrow> client_step e c = Inr c' \<Longrightarrow>
    client_reachable k n pid auto c'"

lemma reachable_client_ok:
  assumes "client_reachable k n pid auto c" and "isAlphanumeric pid" and "pid \<noteq> []" and "1 \<le> k" and "k < 2 ^ 31"
  shows "client_ok k n c"
  using assms(1)
proof induction
  case (step c e c')
  then show ?case by (intro ok_client_value [OF step.IH step.hyps(2) assms(4,5)])
qed (use assms(2,3) client_ok_start in blast)

end
