(* ===== verification/Client_Streams.thy ===== *)
theory Client_Streams
  imports Client_Invariants Server_Safety
begin

text \<open>
  What the client puts on the wire: the bytes that its sender has written are always the beginning of a
  sequence of whole messages, each of them one line, so the server, which cuts the stream at CRLF, gets
  back exactly these messages.
\<close>

section \<open>Cutting a stream into lines\<close>

lemma find_crlf_skip: "CHR 0x0D \<notin> set l \<Longrightarrow> find_crlf (l @ CHR 0x0D # CHR 0x0A # tail) = Some (length l)"
proof (induction l)
  case (Cons a l)
  then show ?case by (cases l) auto
qed simp

lemma find_crlf_none: "CHR 0x0D \<notin> set (butlast w) \<Longrightarrow> find_crlf w = None"
  by (induction w rule: find_crlf.induct) auto

text \<open>The lines that the loop of the server takes from its buffer, and what stays there.\<close>

function split_lines :: "string \<Rightarrow> string list \<times> string" where
  "split_lines buf =
     (case find_crlf buf of
        None \<Rightarrow> ([], buf)
      | Some pos \<Rightarrow> (case split_lines (drop (pos + 2) buf) of (ls, rest) \<Rightarrow> (take pos buf # ls, rest)))"
  by pat_completeness auto
termination
proof (relation "measure length")
  fix buf :: string and pos
  assume "find_crlf buf = Some pos"
  then have "buf \<noteq> []" by (cases buf) auto
  then show "(drop (pos + 2) buf, buf) \<in> measure length" by simp
qed simp

declare split_lines.simps [simp del]

definition line_of :: "Message \<Rightarrow> string" where
  "line_of m = toRawString m"

definition one_line :: "Message \<Rightarrow> bool" where
  "one_line m \<longleftrightarrow> raw_message m = line_of m @ crlf \<and> CHR 0x0D \<notin> set (line_of m) \<and> createMessageWithCRLF (line_of m) = Some m"

text \<open>A prefix of whole lines is cut into some of them.\<close>

lemma split_lines_prefix:
  assumes "list_all one_line ms" and "concat (map raw_message ms) = w @ rest"
  shows "\<exists>k left. split_lines w = (map line_of (take k ms), left) \<and> k \<le> length ms \<and>
    (w \<noteq> [] \<longrightarrow> ms \<noteq> [])"
  using assms
proof (induction ms arbitrary: w)
  case Nil
  then show ?case by (simp add: split_lines.simps)
next
  case (Cons m ms)
  let ?l = "line_of m"
  have m: "raw_message m = ?l @ crlf" "CHR 0x0D \<notin> set ?l" using Cons.prems(1) by (simp_all add: one_line_def)
  have w: "w @ rest = ?l @ crlf @ concat (map raw_message ms)" using Cons.prems(2) m(1) by simp
  show ?case
  proof (cases "length ?l + 2 \<le> length w")
    case True
    define w' where "w' = drop (length ?l + 2) w"
    have "take (length ?l + 2) (w @ rest) = ?l @ crlf" unfolding w by (simp add: crlf_def)
    then have w': "w = ?l @ crlf @ w'"
      using True append_take_drop_id [of "length ?l + 2" w] unfolding w'_def by simp
    then have "concat (map raw_message ms) = w' @ rest" using w by simp
    from Cons.IH [OF _ this] Cons.prems(1) obtain k left
      where k: "split_lines w' = (map line_of (take k ms), left)" "k \<le> length ms" by auto
    have "find_crlf w = Some (length ?l)" unfolding w' crlf_def using find_crlf_skip [OF m(2), of w'] by simp
    moreover have "drop (length ?l + 2) w = w'" "take (length ?l) w = ?l" unfolding w' by (simp_all add: crlf_def)
    ultimately have "split_lines w = (map line_of (take (Suc k) (m # ms)), left)"
      using k(1) by (subst split_lines.simps) simp
    then show ?thesis using k(2) by (intro exI [of _ "Suc k"] exI [of _ left]) simp
  next
    case False
    have "w = take (length w) (?l @ crlf)"
      using w False by (metis append_eq_conv_conj append_take_drop_id length_append crlf_def take_append
        length_Cons list.size(3) le_add_diff_inverse nat_le_linear numeral_2_eq_2 append_assoc take_all_iff)
    then have "butlast w = take (length w - 1) (?l @ crlf)" by (metis butlast_take length_append length_take min.cobounded1)
    then have "set (butlast w) \<subseteq> set ?l"
      using False by (auto simp: crlf_def dest: in_set_takeD)
    then have "find_crlf w = None" using m(2) by (intro find_crlf_none) auto
    then have "split_lines w = (map line_of (take 0 (m # ms)), w)" by (subst split_lines.simps) simp
    then show ?thesis by blast
  qed
qed

section \<open>Messages are lines\<close>

lemma token_no_cr: "param_ok t \<Longrightarrow> CHR 0x0D \<notin> set t"
  by (auto simp: param_ok_def param_char_def isalnum_def isdigit_def isalpha_def code_def list_all_iff)

lemma join_no_cr: "list_all param_ok ts \<Longrightarrow> CHR 0x0D \<notin> set (join_params ts)"
  by (induction ts rule: join_params.induct) (auto dest: token_no_cr)

lemma command_no_cr: "parseMessage cmd ts = Some b \<Longrightarrow> CHR 0x0D \<notin> set cmd"
  by (auto simp: parseMessage_def split: if_splits)

lemma created_one_line:
  assumes "createMessage (raw_message m) = Some m"
  shows "one_line m"
proof -
  obtain cmd ts where m: "list_all param_ok ts" "raw_message m = command_line cmd ts @ crlf"
      "parseMessage cmd ts = Some (body m)"
    using assms unfolding createMessage_iff by auto
  have l: "line_of m = command_line cmd ts" unfolding line_of_def by (rule toRawString_crlf [OF m(2)])
  have "CHR 0x0D \<notin> set (command_line cmd ts)"
    using join_no_cr [OF m(1)] command_no_cr [OF m(3)] by (simp add: command_line_def)
  then show ?thesis using assms m(2) by (simp add: one_line_def l createMessageWithCRLF_def)
qed

text \<open>What the client sends.\<close>

definition sendable :: "nat \<Rightarrow> bool \<Rightarrow> Message \<Rightarrow> bool" where
  "sendable k auto m \<longleftrightarrow> out_ok k auto (Some m)"

fun is_hello :: "payload \<Rightarrow> bool" where
  "is_hello (HelloMessage p) = True"
| "is_hello _ = False"

fun is_put :: "payload \<Rightarrow> bool" where
  "is_put (PutMessage pt v) = True"
| "is_put _ = False"

lemma sendable_message:
  assumes "sendable k auto m"
  shows "one_line m" and "is_hello (body m) \<or> is_put (body m)"
proof -
  consider p where "create_hello p = Some m" "isAlphanumeric p" "p \<noteq> []"
    | pt v where "create_put pt v = Some m" "put_ok k auto pt v"
    using assms unfolding sendable_def out_ok_def by metis
  then have "(\<exists>l. createMessage l = Some m) \<and> (is_hello (body m) \<or> is_put (body m))"
  proof cases
    case 1
    then show ?thesis using create_hello_eq [of p] by (auto simp: create_hello_def createMessageWithCRLF_def)
  next
    case 2
    then show ?thesis using create_pair_eq(1) [of pt v] by (auto simp: create_put_def createMessageWithCRLF_def put_ok_def)
  qed
  then show "one_line m" "is_hello (body m) \<or> is_put (body m)"
    using createMessage_raw created_one_line by auto
qed

section \<open>The invariant of the stream\<close>

definition raw_of :: "Message option \<Rightarrow> string" where
  "raw_of m = (case m of None \<Rightarrow> [] | Some x \<Rightarrow> raw_message x)"

fun unwritten :: "sender_pc \<Rightarrow> string" where
  "unwritten (N_write left) = left"
| "unwritten _ = []"

text \<open>
  \<open>ms\<close> are the messages that have been queued so far: the written bytes, the rest of the message that is
  being written and the queue make them up. At the end of the game the rest may be dropped.
\<close>

definition sends :: "nat \<Rightarrow> bool \<Rightarrow> bool \<Rightarrow> string \<Rightarrow> sender_pc \<Rightarrow> Message option list \<Rightarrow> Message list \<Rightarrow> bool" where
  "sends k auto ended w pc q ms \<longleftrightarrow> list_all (sendable k auto) ms \<and> (\<exists>rest. concat (map raw_message ms) = w @ rest) \<and>
     (\<not> (ended \<and> (pc = N_check \<or> pc = N_ended)) \<longrightarrow> w @ unwritten pc @ concat (map raw_of q) = concat (map raw_message ms))"

definition sent_as :: "nat \<Rightarrow> Client \<Rightarrow> Message list \<Rightarrow> bool" where
  "sent_as k c ms = sends k (is_auto c) (over c) (written c) (sender c) (outgoing c) ms"

text \<open>What the threads that do not touch the stream leave as it is.\<close>

definition same_stream :: "Client \<Rightarrow> Client \<Rightarrow> bool" where
  "same_stream c c' \<longleftrightarrow> is_auto c' = is_auto c \<and> my_id c' = my_id c \<and> hello_queued c' = hello_queued c \<and>
     written c' = written c \<and> sender c' = sender c \<and> outgoing c' = outgoing c \<and> (over c \<longrightarrow> over c')"

lemma sent_as_same: "sent_as k c ms \<Longrightarrow> same_stream c c' \<Longrightarrow> sent_as k c' ms"
  unfolding sent_as_def same_stream_def sends_def by auto

lemma same_stream_receiver: "receiver_step r c = Inr c' \<Longrightarrow> same_stream c c'"
  by (auto simp: receiver_step_def receive_line_def log_stderr_def same_stream_def
      split: receiver_pc.splits recv_outcome.splits option.splits if_splits)

lemma same_stream_logger: "logger_step c = Inr c' \<Longrightarrow> same_stream c c'"
  by (auto simp: logger_step_def print_if_def print_log_to_console_def same_stream_def
      split: logger_pc.splits option.splits prod.splits)

lemma same_stream_decrement [simp]: "same_stream c (snd (decrement_puts_without_answer c')) = same_stream c c'"
  by (simp add: decrement_puts_without_answer_def same_stream_def)

lemma same_stream_finish: "finish_message m c = Inr (ok, c') \<Longrightarrow> same_stream c c'"
proof -
  have same: "same_stream c (c\<lparr>server_K := a, K_set := b, current_approximation := x, real_values := y\<rparr>)"
    "same_stream c (c\<lparr>current_approximation := x, real_values := y\<rparr>)"
    "same_stream c (c\<lparr>over := True, scoring_received := True\<rparr>)" "same_stream c c" for a b x y c
    by (simp_all add: same_stream_def)
  have coeff: "safeR (\<lambda>(ok, c'). same_stream c c') (finish_coeff c)" if "finish_coeff c = Inr (ok, c')"
    using that by (auto simp: finish_coeff_def bindR_eq_Inr same)
  have state: "safeR (\<lambda>(ok, c'). same_stream c c') (finish_state vs c)" if "finish_state vs c = Inr (ok, c')" for vs
    using that same_stream_decrement [of c c] same(4)
    by (cases "decrement_puts_without_answer c") (auto simp: finish_state_def Let_def bindR_eq_Inr same split: if_splits)
  assume "finish_message m c = Inr (ok, c')"
  then show ?thesis using coeff state by (cases "body m") (auto simp: finish_message_def same)
qed

lemma same_stream_begin: "begin_message m c = Inr c' \<Longrightarrow> same_stream c c'"
  by (auto simp: begin_message_def begin_coeff_def log_stdout_def bindR_eq_Inr same_stream_def split: payload.splits if_splits)

lemma same_stream_processor: "processor_step c = Inr c' \<Longrightarrow> same_stream c c'"
  by (auto simp: processor_step_def log_stderr_def bindR_eq_Inr same_stream_def split: processor_pc.splits option.splits prod.splits if_splits
      dest!: same_stream_begin same_stream_finish)

text \<open>What a step adds to the queued messages.\<close>

lemma sends_push:
  "sends k auto ended w pc q ms \<Longrightarrow> sendable k auto m \<Longrightarrow>
    sends k auto ended w pc (q @ [Some m]) (ms @ (if ended \<and> (pc = N_check \<or> pc = N_ended) then [] else [m]))"
  by (auto simp: sends_def raw_of_def)

lemma sent_sender:
  assumes "sent_as k c ms" and "sender_step r c = Inr c'"
  shows "sent_as k c' ms \<and> is_auto c' = is_auto c \<and> my_id c' = my_id c \<and> hello_queued c' = hello_queued c"
proof (cases "sender c")
  case N_pop
  show ?thesis
  proof (cases "outgoing c")
    case (Cons m q)
    then show ?thesis
      using assms N_pop by (auto simp: sender_step_def deref_def sent_as_def sends_def raw_of_def bindR_eq_Inr split: option.splits)
  qed (use assms N_pop in \<open>auto simp: sender_step_def sent_as_def sends_def\<close>)
next
  case (N_write left)
  show ?thesis
  proof (cases r)
    case (Wrote n)
    have "left @ x = take n left @ drop n left @ x" for x by simp
    then have "\<exists>rest. left @ x = take n left @ rest" for x by blast
    then show ?thesis
      using assms N_write Wrote by (auto simp: sender_step_def sent_as_def sends_def split: if_splits)
  qed (use assms N_write in \<open>auto simp: sender_step_def sent_as_def sends_def split: if_splits\<close>)
qed (use assms in \<open>auto simp: sender_step_def sent_as_def sends_def split: if_splits\<close>)

lemma sent_step:
  assumes "client_ok k n c" and "sent_as k c ms" and "client_step e c = Inr c'"
  shows "\<exists>new. sent_as k c' (ms @ new) \<and> is_auto c' = is_auto c \<and> my_id c' = my_id c \<and>
    (new = [] \<and> hello_queued c' = hello_queued c \<or>
     (\<exists>m. new = [m] \<and> create_hello (my_id c) = Some m \<and> \<not> hello_queued c \<and> hello_queued c') \<or>
     (\<exists>m. new = [m] \<and> strategy c = S_push (Some m) \<and> hello_queued c' = hello_queued c) \<or>
     (new = [] \<and> over c \<and> (sender c = N_check \<or> sender c = N_ended)))"
proof -
  have same: ?thesis if "same_stream c c'"
    using that sent_as_same [OF assms(2) that] by (intro exI [of _ "[]"]) (simp add: same_stream_def)
  show ?thesis
  proof (cases e)
    case Main
    obtain m where m: "create_hello (my_id c) = Some m" using assms(1) create_hello_eq by (auto simp: client_ok_def)
    have "isAlphanumeric (my_id c)" "my_id c \<noteq> []" using assms(1) by (simp_all add: client_ok_def)
    then have "sendable k (is_auto c) m" unfolding sendable_def out_ok_def using m by metis
    then have push: "sends k (is_auto c) (over c) (written c) (sender c) (outgoing c @ [Some m])
        (ms @ (if over c \<and> (sender c = N_check \<or> sender c = N_ended) then [] else [m]))"
      using sends_push assms(2) unfolding sent_as_def by blast
    show ?thesis
    proof (cases "hello_queued c")
      case True
      then show ?thesis using assms(3) Main same by (simp add: same_stream_def)
    next
      case False
      then show ?thesis
        using push assms(3) m Main
        by (intro exI [of _ "if over c \<and> (sender c = N_check \<or> sender c = N_ended) then [] else [m]"])
          (auto simp: queue_hello_message_def push_def sent_as_def)
    qed
  next
    case (Strategy r)
    show ?thesis
    proof (cases "\<exists>m. strategy c = S_push m")
      case True
      then obtain m where m: "strategy c = S_push m" by blast
      then have "out_ok k (is_auto c) m" using assms(1) by (simp add: client_ok_def)
      then obtain x where x: "m = Some x" "sendable k (is_auto c) x" using out_ok_not_null unfolding sendable_def by metis
      then show ?thesis
        using sends_push [of k "is_auto c" "over c" "written c" "sender c" "outgoing c" ms x] assms(2,3) m Strategy
        by (intro exI [of _ "if over c \<and> (sender c = N_check \<or> sender c = N_ended) then [] else [x]"])
          (auto simp: strategy_step_def push_def sent_as_def)
    next
      case False
      have "same_stream c c'"
        using assms(3) Strategy False
        by (cases "strategy c") (auto simp: strategy_step_def manual_poll_def manual_lines_def Let_def log_stderr_def log_stdout_def
            increment_puts_without_answer_def get_best_put_def bindR_eq_Inr same_stream_def
            split: poll_outcome.splits option.splits prod.splits if_splits)
      then show ?thesis by (rule same)
    qed
  next
    case (Receiver r)
    then show ?thesis using assms(3) same same_stream_receiver by simp
  next
    case (Sender r)
    then show ?thesis using sent_sender [OF assms(2)] assms(3) by (intro exI [of _ "[]"]) simp
  next
    case Processor
    then show ?thesis using assms(3) same same_stream_processor by simp
  next
    case Logger
    then show ?thesis using assms(3) same same_stream_logger by simp
  qed
qed

end
