(* ===== verification/Client_Theorems.thy ===== *)
theory Client_Theorems
  imports Client_Invariants Server_Properties
begin

text \<open>
  The properties of the client: safety under every scheduling of its threads, what the server makes of
  the PUTs of the automatic strategy, and the inputs and races that make the client fail.
\<close>

section \<open>Safety\<close>


text \<open>A run up to the first PUT, for a game with the points 0 and 1 and a constant function.\<close>

fun may_send_run :: "nat \<Rightarrow> nat \<Rightarrow> client_event list \<Rightarrow> Client \<Rightarrow> bool" where
  "may_send_run k n [] c \<longleftrightarrow> True"
| "may_send_run k n (e # es) c \<longleftrightarrow> server_may_send k n e c \<and>
     (case client_step e c of Inl x \<Rightarrow> True | Inr c' \<Rightarrow> may_send_run k n es c')"

lemma reachable_run:
  "client_reachable k n pid auto c \<Longrightarrow> may_send_run k n es c \<Longrightarrow> client_run es c = Inr c' \<Longrightarrow> client_reachable k n pid auto c'"
proof (induction es arbitrary: c)
  case (Cons e es)
  then obtain c1 where s: "client_step e c = Inr c1" "client_run es c1 = Inr c'" by (auto simp: bindR_eq_Inr)
  then have "client_reachable k n pid auto c1" using Cons.prems by (auto intro: client_reachable.step)
  then show ?case using Cons s by simp
qed simp

definition example_client :: Client where
  "example_client = client_start ''Ann'' True 0 ''127.0.0.1'' 40000"

definition example_events :: "client_event list" where
  "example_events = [Main, Receiver Receive_again, Receiver (Received (''COEFF 1'' @ crlf)), Receiver Receive_again,
     Processor, Processor, Processor]"

lemmas client_step_defs = receiver_step_def receive_line_def processor_step_def strategy_step_def
  begin_message_def begin_coeff_def server_may_send_def lines_ok_def queue_hello_message_def

lemmas example_client_simps = example_client_def client_start_def register_connection_def new_client_def Let_def
  log_stdout_def push_def empty_queue_def

lemma example_prefix:
  assumes "createMessage (''COEFF 1'' @ crlf) = Some m" and "body m = CoeffMessage [x]"
  shows "\<exists>c. client_run example_events example_client = Inr c \<and> may_send_run 1 0 example_events example_client \<and>
    processor c = P_finish m \<and> strategy c = S_check \<and> \<not> over c \<and> is_auto c \<and> coeffs c = [x] \<and> poly_N c = 0 \<and>
    puts_without_answer c = 1"
  using assms
  by (simp add: example_events_def client_step_defs example_client_simps crlf_def harmless_def)

lemma client_run_append: "client_run (es @ es') c = bindR (client_run es c) (client_run es')"
  by (induction es arbitrary: c) (simp_all add: bindR_def split: sum.split)

lemma may_send_not_receiver:
  "list_all (\<lambda>e. \<forall>r. e \<noteq> Receiver r) es \<Longrightarrow> may_send_run k n es c"
  by (induction es arbitrary: c) (auto simp: server_may_send_def split: client_event.split sum.split)

lemma reachable_more:
  assumes "client_reachable k n pid auto c" and "client_run es c = Inr c'" and "list_all (\<lambda>e. \<forall>r. e \<noteq> Receiver r) es"
  shows "client_reachable k n pid auto c'"
  using reachable_run [OF assms(1) may_send_not_receiver [OF assms(3)] assms(2)] .

lemma example_reachable:
  "\<exists>c m x. client_reachable 1 0 ''Ann'' True c \<and> processor c = P_finish m \<and> body m = CoeffMessage [x] \<and>
    strategy c = S_check \<and> \<not> over c \<and> is_auto c \<and> puts_without_answer c = 1"
proof -
  obtain m x where m: "createMessage (''COEFF 1'' @ crlf) = Some m" "body m = CoeffMessage [x]"
    using example_coefficients by blast
  obtain c where c: "client_run example_events example_client = Inr c" "may_send_run 1 0 example_events example_client"
      "processor c = P_finish m" "strategy c = S_check" "\<not> over c" "is_auto c" "puts_without_answer c = 1"
    using example_prefix [OF m] by blast
  have "client_reachable 1 0 ''Ann'' True example_client" unfolding example_client_def by (rule client_reachable.start)
  from reachable_run [OF this c(2,1)] show ?thesis using c m(2) by blast
qed

lemma example_ok: "isAlphanumeric ''Ann''" "(1 :: nat) \<le> 1" "(1 :: nat) < 2 ^ 31" "int 1 ^ (0 + 1) < 2 ^ 31"
  by (simp_all add: isAlphanumeric_def isalnum_def isalpha_def code_def)


section \<open>The automatic strategy and the server\<close>

lemma example_put:
  "\<exists>c m pt v. client_reachable 1 0 ''Ann'' True c \<and> is_auto c \<and> Some m \<in> set (outgoing c) \<and> body m = PutMessage pt v"
proof -
  obtain c m x where c: "client_reachable 1 0 ''Ann'' True c" "processor c = P_finish m" "body m = CoeffMessage [x]"
      "strategy c = S_check" "\<not> over c" "is_auto c" "puts_without_answer c = 1"
    using example_reachable by blast
  have ok: "client_ok 1 0 c" if "client_reachable 1 0 ''Ann'' True c" for c
    using reachable_client_ok [OF that example_ok(1) _ example_ok(2,3)] by simp
  have co: "coeffs_ok 0 (poly_N c) (coeffs c)" using ok [OF c(1)] c(2) by (simp add: client_ok_def)
  obtain v0 where v0: "poly_at 0 c = Inr v0" by (rule poly_at_safe [OF co, of 0]) (simp_all add: power_0_left)
  obtain v1 where v1: "poly_at 1 c = Inr v1" by (rule poly_at_safe [OF co, of 1]) simp_all
  define c2 where "c2 = c\<lparr>current_approximation := [dzero, dzero], real_values := [v0, v1], puts_without_answer := 1,
      processor := P_check, strategy := S_choose\<rparr>"
  have r2: "client_run [Processor, Strategy Poll_timeout, Strategy Poll_timeout, Strategy Poll_timeout] c = Inr c2"
    using c v0 v1 by (simp add: processor_step_def finish_message_def finish_coeff_def decrement_puts_without_answer_def
        strategy_step_def wait_for_puts_def increment_puts_without_answer_def c2_def)
  have reach: "client_reachable 1 0 ''Ann'' True c2" by (rule reachable_more [OF c(1) r2]) simp
  have k: "client_ok 1 0 c2" by (rule ok [OF reach])
  have c2: "is_auto c2" "strategy c2 = S_choose" "\<not> before_coeff (first_message c2) (processor c2)"
      "values_ok 1 (K_set c2) (server_K c2) (current_approximation c2) (real_values c2)"
    using c(6) k by (simp_all add: c2_def client_ok_def)
  note size = put_size_bounds [OF k c2(3)]
  obtain pt v where g: "get_best_put c2 = Inr ((int pt, v), c2\<lparr>current_approximation :=
        (current_approximation c2)[pt := dadd (current_approximation c2 ! pt) v]\<rparr>)"
      "pt < put_size (K_set c2) (server_K c2)" "bounded v 5"
    using get_best_put_safe [OF size(1)] c2(4) unfolding values_ok_def by blast
  obtain c3 where c3: "client_run [Strategy Poll_timeout, Strategy Poll_timeout, Strategy Poll_timeout] c2 = Inr c3"
      "is_auto c3" "create_put (int pt) v \<in> set (outgoing c3)"
    using c2(1,2) g(1) by (simp add: strategy_step_def log_stdout_def push_def)
  have "pt \<le> 1" using g(2) size(2) by simp
  then obtain m where m: "create_put (int pt) v = Some m" "body m = PutMessage (int pt) (reread v)"
    using create_pair_eq(1) [of "int pt" v] g(3) by (auto simp: bounded_def)
  have "client_reachable 1 0 ''Ann'' True c3" by (rule reachable_more [OF reach c3(1)]) simp
  then show ?thesis using c3(2,3) m by metis
qed

text \<open>
  C11: The server never refuses a PUT of the automatic strategy for its range. In every state that a
  client reaches behind a server that sends regular lines, for any positive \<open>int\<close> \<open>k\<close>, a PUT in its queue is one
  that the parser of the server reads, its point is one of \<open>0..k\<close>, and its value, clamped to -5 and 5, printed
  with seven digits and read again, passes the check of a server with parameter \<open>k\<close>.
\<close>

theorem auto_put_accepted:
  assumes "client_reachable k n pid auto c" and "isAlphanumeric pid" and "pid \<noteq> []" and "1 \<le> k" and "k < 2 ^ 31"
    and "is_auto c" and "Some m \<in> set (outgoing c)" and "body m = PutMessage pt v" and "K s = int k"
  shows "createMessage (raw_message m) = Some m \<and> 0 \<le> pt \<and> pt \<le> int k \<and> \<not> put_out_of_range pt v s"
proof -
  have "client_ok k n c" by (rule reachable_client_ok [OF assms(1-5)])
  then have out: "out_ok k True (Some m)" using assms(6,7) by (simp add: client_ok_def)
  have "\<not> (\<exists>p. Some m = create_hello p \<and> isAlphanumeric p \<and> p \<noteq> [])"
    using assms(8) create_hello_eq by fastforce
  with out obtain i x where x: "create_put i x = Some m" "put_ok k True i x" unfolding out_ok_def by metis
  then have b: "- (2 ^ 31) \<le> i" "i < 2 ^ 31" "is_finite x" "canonical x" "0 \<le> i" "i \<le> int k" "bounded x 5"
    by (simp_all add: put_ok_def)
  have "pt = i" "v = reread x" using create_pair_eq(1) [OF b(1-4)] x(1) assms(8) by auto
  moreover have "createMessage (raw_message m) = Some m"
    using x(1) createMessage_raw by (fastforce simp: create_put_def createMessageWithCRLF_def)
  ultimately show ?thesis using b(5,6) reread_in_range [OF b(7)] assms(9) by (simp add: put_out_of_range_def)
qed

theorem auto_put_accepted_witness:
  "\<exists>c m pt v. client_reachable 1 0 ''Ann'' True c \<and> Some m \<in> set (outgoing c) \<and> body m = PutMessage pt v \<and>
    \<not> put_out_of_range pt v example_game"
proof -
  obtain c m pt v where c: "client_reachable 1 0 ''Ann'' True c" "is_auto c" "Some m \<in> set (outgoing c)" "body m = PutMessage pt v"
    using example_put by blast
  have "K example_game = int 1" by (simp add: example_game_def)
  from auto_put_accepted [OF c(1) example_ok(1) _ example_ok(2,3) c(2-4) this] c show ?thesis by blast
qed

section \<open>Overflow\<close>

text \<open>
  C14: The powers in \<open>poly_at\<close> are an \<open>int\<close>, and the loop computes one power more than it uses. When the
  automatic strategy learns \<open>K\<close> from its first STATE, the client has undefined behaviour exactly when
  \<open>K\<close> to the power of the number of coefficients needs more than 31 bits. With the defaults of the server,
  \<open>k = 100\<close> and \<open>n = 4\<close>, it does.
\<close>

theorem first_state_overflows:
  assumes "processor c = P_finish m" and "body m = StateMessage vs" and "vs \<noteq> []"
    and "is_auto c" and "\<not> K_set c" and "poly_N c = int (length (coeffs c)) - 1"
  shows "client_step Processor c = Inl Undefined \<longleftrightarrow> 2 ^ 31 \<le> (int (length vs) - 1) ^ length (coeffs c)"
proof -
  obtain n where n: "length vs = Suc n" using assms(3) by (cases vs) auto
  have "client_step Processor c = Inl Undefined \<longleftrightarrow> poly_values (Suc n) 0 c = Inl Undefined"
    using assms(1,2,4,5) n by (simp add: processor_step_def finish_message_def finish_state_def Let_def bindR_eq_Inl nat_add_distrib
        del: poly_values.simps)
  then show ?thesis using poly_values_overflow [OF assms(6), of 0 n] n by simp
qed

theorem first_state_overflows_witness:
  "client_step Processor (example_client\<lparr>coeffs := replicate 5 dzero, poly_N := 4,
     processor := P_finish \<lparr>raw_message = [], msg_params = [], body = StateMessage (replicate 101 dzero)\<rparr>\<rparr>) = Inl Undefined"
  using first_state_overflows [where vs = "replicate 101 dzero" and m = "\<lparr>raw_message = [], msg_params = [],
        body = StateMessage (replicate 101 dzero)\<rparr>" and c = "example_client\<lparr>coeffs := replicate 5 dzero, poly_N := 4,
        processor := P_finish \<lparr>raw_message = [], msg_params = [], body = StateMessage (replicate 101 dzero)\<rparr>\<rparr>"]
  by (simp add: example_client_simps)

section \<open>Races and malformed messages\<close>

text \<open>
  The server sends SCORING and closes the connection. If the receiver gets both before the processor
  looks at \<open>game_over\<close> again, the SCORING stays in the queue and the client ends as if the server had
  disconnected.
\<close>

lemma scoring_lost:
  assumes "msg \<in> set (incoming c)" and "body msg = ScoringMessage ids vs" and "\<not> scoring_received c"
    and "receiver c = R_recv" and "processor c = P_check"
  shows "client_run [Receiver (Received []), Processor, Processor] c = Inl Exit"
  using assms by (simp add: receiver_step_def processor_step_def)

text \<open>
  The threads are started before the main thread queues HELLO, so a PUT of an impatient user can
  overtake it.
\<close>

lemma put_overtakes_hello:
  assumes "manual_line line = Some (pt, v)" and "CHR 0x0A \<notin> set line"
  shows "\<exists>c. client_run [Strategy Poll_timeout, Strategy (Poll_read (Some (line @ [CHR 0x0A]))), Strategy Poll_timeout,
      Strategy Poll_timeout, Strategy Poll_timeout, Main] (client_start pid False n0 ip p) = Inr c \<and>
    outgoing c = [create_put pt v, create_hello pid]"
proof -
  have "takeWhile (\<lambda>c. c \<noteq> CHR 0x0A) (line @ [CHR 0x0A]) = line"
    using assms(2) by (subst takeWhile_append2) auto
  moreover have "dropWhile (\<lambda>c. c \<noteq> CHR 0x0A) (line @ [CHR 0x0A]) = [CHR 0x0A]"
    using assms(2) by (subst dropWhile_append2) auto
  ultimately have "getline (line @ [CHR 0x0A]) = (line, [])" by (simp add: getline_def)
  then show ?thesis
    using assms(1) by (simp add: client_start_def register_connection_def new_client_def Let_def strategy_step_def manual_poll_def
        manual_lines_def log_stdout_def queue_hello_message_def push_def empty_queue_def)
qed

text \<open>A SCORING without players passes the parser, and then \<open>substr\<close> throws.\<close>

lemma empty_scoring_throws:
  assumes "processor c = P_begin msg" and "\<not> first_message c" and "body msg = ScoringMessage [] []"
    and "raw_message msg = ''SCORING'' @ crlf"
  shows "client_step Processor c = Inl Undefined"
  using assms toRawString_crlf [OF assms(4)] by (simp add: processor_step_def begin_message_def substr_from_def)

lemma empty_scoring_parsed:
  "createMessage (''SCORING'' @ crlf) = Some \<lparr>raw_message = ''SCORING'' @ crlf, msg_params = [], body = ScoringMessage [] []\<rparr>"
  by (simp add: createMessage_def crlf_def extractCommandAndParams_def splitParams_def parseMessage_def parse_scoring_def Let_def)

text \<open>
  The first line from the server, when it is not a message, is used as a format string: with a directive
  in it, \<open>vfprintf\<close> reads arguments that nobody has passed.
\<close>

lemma first_line_is_a_format:
  assumes "receiver c = R_lines" and "first_line c" and "CHR ''%'' \<notin> set (full_info c)" and "CHR 0x00 \<notin> set (full_info c)"
    and "recv_buffer c = ''%s'' @ crlf"
  shows "client_step (Receiver r) c = Inl Undefined"
proof -
  have "createMessage (''%s'' @ crlf) = None"
    by (simp add: createMessage_def crlf_def extractCommandAndParams_def splitParams_def parseMessage_def Let_def)
  moreover have "find_crlf (''%s'' @ crlf) = Some 2" by (simp add: crlf_def)
  moreover have "vprintf (''bad message from '' @ full_info c @ '': '' @ ''%s'') [] = Inl Undefined"
    using vprintf_no_argument [of "''bad message from '' @ full_info c @ '': ''" "CHR ''s''" "[]"] assms(3,4) by simp
  ultimately show ?thesis
    using assms(1,2,5) by (simp add: receiver_step_def receive_line_def fatal_stop_def crlf_def)
qed

end
