(* ===== verification/Client_Wire.thy ===== *)
theory Client_Wire
  imports Client_Streams Client_Theorems
begin

text \<open>
  The stream from the client to the server in the reachable states: its lines are messages that the
  server can read, and the first one is HELLO when the strategy is the automatic one and the server
  waits for the client.
\<close>

section \<open>Whole messages\<close>

lemma sent_start: "sent_as k (client_start pid auto n0 ip p) []"
  by (simp add: client_start_def register_connection_def new_client_def Let_def log_stdout_def sent_as_def sends_def
      empty_queue_def)

lemma reachable_sent:
  assumes "client_reachable k n pid auto c" and "isAlphanumeric pid" and "pid \<noteq> []" and "1 \<le> k" and "k < 2 ^ 31"
  shows "\<exists>ms. sent_as k c ms"
  using assms(1)
proof induction
  case (step c e c')
  have "client_ok k n c" by (rule reachable_client_ok [OF step.hyps(1) assms(2-5)])
  then show ?case using step.IH step.hyps(3) sent_step by blast
qed (use sent_start in blast)

lemma lines_sent:
  assumes "sent_as k c ms" and "w = take j (written c)"
  shows "\<exists>i left. split_lines w = (map line_of (take i ms), left) \<and> i \<le> length ms"
proof -
  obtain rest where "concat (map raw_message ms) = written c @ rest" and ms: "list_all (sendable k (is_auto c)) ms"
    using assms(1) by (auto simp: sent_as_def sends_def)
  then have "concat (map raw_message ms) = w @ drop j (written c) @ rest" using assms(2) by simp
  moreover have "list_all one_line ms" using ms sendable_message(1) by (auto simp: list_all_iff)
  ultimately show ?thesis using split_lines_prefix by blast
qed

lemma lines_parsed:
  "list_all (sendable k auto) ms \<Longrightarrow> map createMessageWithCRLF (map line_of ms) = map Some ms \<and>
    list_all (\<lambda>m. is_hello (body m) \<or> is_put (body m)) ms"
  by (induction ms) (auto dest: sendable_message simp: one_line_def)

text \<open>
  C9: Whatever \<open>write\<close> takes at a time, and in whatever order the threads run, the server can read every
  line that it gets from the client, as long as the client gets regular lines from it (for any positive \<open>int\<close>
  \<open>k\<close>): cut at CRLF, the bytes that were written up to any moment, or any first part of them, are messages
  of the client, and each is a HELLO or a PUT.
\<close>

theorem wire_messages:
  assumes "client_reachable k n pid auto c" and "isAlphanumeric pid" and "pid \<noteq> []" and "1 \<le> k" and "k < 2 ^ 31"
  shows "\<exists>ms. map createMessageWithCRLF (fst (split_lines (take j (written c)))) = map Some ms \<and>
    list_all (\<lambda>m. is_hello (body m) \<or> is_put (body m)) ms"
proof -
  obtain ms where ms: "sent_as k c ms" using reachable_sent [OF assms] by blast
  obtain i left where "split_lines (take j (written c)) = (map line_of (take i ms), left)"
    using lines_sent [OF ms refl] by blast
  moreover have "list_all (sendable k (is_auto c)) (take i ms)"
    using ms by (auto simp: sent_as_def sends_def list_all_iff dest: in_set_takeD)
  ultimately show ?thesis using lines_parsed by (intro exI [of _ "take i ms"]) simp
qed

text \<open>The automatic client up to the moment when \<open>write\<close> has taken its HELLO.\<close>

definition example_greets :: "client_event list" where
  "example_greets = [Main, Sender Write_again, Sender Write_again, Sender (Wrote 11)]"

lemma example_greeting_run:
  "\<exists>c. client_run example_greets example_client = Inr c \<and> is_auto c \<and> written c = ''HELLO Ann'' @ crlf \<and>
    receiver c = R_check \<and> \<not> over c \<and> recv_buffer c = []"
  using example_ok(1)
  by (auto simp: example_greets_def example_client_simps queue_hello_message_def create_hello_eq sender_step_def deref_def crlf_def)

theorem wire_messages_witness:
  "\<exists>c ms. client_reachable 1 0 ''Ann'' True c \<and> written c = ''HELLO Ann'' @ crlf \<and>
    map createMessageWithCRLF (fst (split_lines (take 11 (written c)))) = map Some ms \<and>
    list_all (\<lambda>m. is_hello (body m) \<or> is_put (body m)) ms"
proof -
  obtain c where run: "client_run example_greets example_client = Inr c" and w: "written c = ''HELLO Ann'' @ crlf"
    using example_greeting_run by blast
  have "client_reachable 1 0 ''Ann'' True example_client" unfolding example_client_def by (rule client_reachable.start)
  then have c: "client_reachable 1 0 ''Ann'' True c" by (rule reachable_more [OF _ run]) (simp add: example_greets_def)
  from wire_messages [OF c example_ok(1) _ example_ok(2,3), of 11] c w show ?thesis by blast
qed

section \<open>The greeting\<close>

text \<open>A server that sends nothing before it has got something.\<close>

definition server_waits :: "client_event \<Rightarrow> Client \<Rightarrow> bool" where
  "server_waits e c = (receiver c = R_recv \<and> written c = [] \<longrightarrow>
     (case e of Receiver (Received bs) \<Rightarrow> bs = [] | _ \<Rightarrow> True))"

inductive session :: "nat \<Rightarrow> nat \<Rightarrow> string \<Rightarrow> bool \<Rightarrow> Client \<Rightarrow> bool" for k n pid auto where
  start: "session k n pid auto (client_start pid auto n0 ip p)"
| step: "session k n pid auto c \<Longrightarrow> server_may_send k n e c \<Longrightarrow> server_waits e c \<Longrightarrow> client_step e c = Inr c' \<Longrightarrow>
    session k n pid auto c'"

lemma session_reachable: "session k n pid auto c \<Longrightarrow> client_reachable k n pid auto c"
  by (induction rule: session.induct) (auto intro: client_reachable.intros)

text \<open>Nothing has come from the server.\<close>

fun unasked :: "processor_pc \<Rightarrow> bool" where
  "unasked (P_begin m) = False"
| "unasked (P_finish m) = False"
| "unasked (P_report m) = False"
| "unasked _ = True"

definition heard_nothing :: "Client \<Rightarrow> bool" where
  "heard_nothing c \<longleftrightarrow> recv_buffer c = [] \<and> incoming c = [] \<and> first_message c \<and> unasked (processor c)"

lemma heard_nothing_start: "heard_nothing (client_start pid auto n0 ip p)"
  by (simp add: client_start_def register_connection_def new_client_def Let_def log_stdout_def heard_nothing_def empty_queue_def)

lemma heard_nothing_before: "heard_nothing c \<Longrightarrow> before_coeff (first_message c) (processor c)"
  by (cases "processor c") (simp_all add: heard_nothing_def)

lemma heard_nothing_step:
  assumes "heard_nothing c" and "written c = []" and "server_waits e c" and "client_step e c = Inr c'"
  shows "heard_nothing c'"
proof (cases e)
  case (Strategy r)
  then show ?thesis
    using assms(1,4) by (cases "strategy c") (auto simp: strategy_step_def manual_poll_def manual_lines_def Let_def log_stderr_def
        log_stdout_def increment_puts_without_answer_def get_best_put_def bindR_eq_Inr heard_nothing_def
        split: poll_outcome.splits option.splits prod.splits if_splits)
next
  case (Receiver r)
  then show ?thesis
    using assms by (auto simp: receiver_step_def server_waits_def heard_nothing_def
        split: receiver_pc.splits recv_outcome.splits if_splits)
next
  case (Sender r)
  then show ?thesis
    using assms(1,4) by (auto simp: sender_step_def bindR_eq_Inr heard_nothing_def
        split: sender_pc.splits option.splits prod.splits write_outcome.splits if_splits)
next
  case Processor
  then show ?thesis
    using assms(1,4) by (cases "processor c") (auto simp: processor_step_def heard_nothing_def split: if_splits)
next
  case Logger
  then show ?thesis
    using assms(1,4) by (auto simp: logger_step_def print_if_def print_log_to_console_def heard_nothing_def
        split: logger_pc.splits option.splits prod.splits)
qed (use assms(1,4) in \<open>auto simp: queue_hello_message_def heard_nothing_def\<close>)

lemma written_grows: "client_step e c = Inr c' \<Longrightarrow> \<exists>new. written c' = written c @ new"
proof (cases e)
  case (Strategy r)
  assume "client_step e c = Inr c'"
  with Strategy show ?thesis
    by (cases "strategy c") (auto simp: strategy_step_def manual_poll_def manual_lines_def Let_def log_stderr_def
        log_stdout_def increment_puts_without_answer_def get_best_put_def bindR_eq_Inr
        split: poll_outcome.splits option.splits prod.splits if_splits)
next
  case (Sender r)
  assume "client_step e c = Inr c'"
  with Sender show ?thesis
    by (auto simp: sender_step_def bindR_eq_Inr split: sender_pc.splits option.splits prod.splits write_outcome.splits if_splits)
qed (auto simp: queue_hello_message_def same_stream_def split: if_splits
    dest!: same_stream_receiver same_stream_processor same_stream_logger)

lemma written_kept: "client_step e c = Inr c' \<Longrightarrow> written c \<noteq> [] \<Longrightarrow> written c' \<noteq> []"
  using written_grows by fastforce

definition greets :: "nat \<Rightarrow> Client \<Rightarrow> Message list \<Rightarrow> bool" where
  "greets k c ms \<longleftrightarrow> sent_as k c ms \<and> (is_auto c \<longrightarrow> (case ms of [] \<Rightarrow> True | m # _ \<Rightarrow> body m = HelloMessage (my_id c))) \<and>
     (written c = [] \<longrightarrow> heard_nothing c)"

lemma sent_nothing: "sent_as k c [] \<Longrightarrow> written c = []"
  by (simp add: sent_as_def sends_def)

lemma greets_step:
  assumes "client_ok k n c" and "greets k c ms" and "server_waits e c" and "client_step e c = Inr c'"
  shows "\<exists>ms'. greets k c' ms'"
proof -
  have quiet: "heard_nothing c'" if "written c' = []"
  proof -
    have "written c = []" using that written_kept [OF assms(4)] by blast
    then show ?thesis using heard_nothing_step [OF _ _ assms(3,4)] assms(2) by (simp add: greets_def)
  qed
  obtain new where new: "sent_as k c' (ms @ new)" "is_auto c' = is_auto c"
      "my_id c' = my_id c" "new = [] \<or> (\<exists>m. new = [m] \<and> create_hello (my_id c) = Some m) \<or> (\<exists>m. new = [m] \<and> strategy c = S_push (Some m))"
  proof -
    have "sent_as k c ms" using assms(2) by (simp add: greets_def)
    from sent_step [OF assms(1) this assms(4)] show thesis using that by auto
  qed
  have "case ms @ new of [] \<Rightarrow> True | m # _ \<Rightarrow> body m = HelloMessage (my_id c)" if auto: "is_auto c"
  proof (cases ms)
    case Nil
    then have "sent_as k c []" "written c = [] \<longrightarrow> heard_nothing c" using assms(2) by (simp_all add: greets_def)
    then have "heard_nothing c" using sent_nothing by blast
    then have "strategy c \<noteq> S_push m" for m using assms(1) auto heard_nothing_before by (auto simp: client_ok_def)
    moreover have "body m = HelloMessage (my_id c)" if "create_hello (my_id c) = Some m" for m
      using assms(1) that create_hello_eq by (auto simp: client_ok_def)
    ultimately show ?thesis using new(4) Nil by auto
  qed (use assms(2) auto in \<open>simp add: greets_def\<close>)
  then have "greets k c' (ms @ new)" using new(1-3) quiet by (cases "ms @ new") (simp_all add: greets_def)
  then show ?thesis by blast
qed

lemma session_greets:
  assumes "session k n pid auto c" and "isAlphanumeric pid" and "pid \<noteq> []" and "1 \<le> k" and "k < 2 ^ 31"
  shows "\<exists>ms. greets k c ms"
  using assms(1)
proof induction
  case (start n0 ip p)
  then show ?case using sent_start heard_nothing_start by (intro exI [of _ "[]"]) (simp add: greets_def)
next
  case (step c e c')
  have "client_ok k n c" by (rule reachable_client_ok [OF session_reachable [OF step.hyps(1)] assms(2-5)])
  then show ?case using step.IH step.hyps(3,4) greets_step by blast
qed

text \<open>A session changes neither the strategy nor the name of the client.\<close>

lemma session_static:
  assumes "session k n pid auto c" and "isAlphanumeric pid" and "pid \<noteq> []" and "1 \<le> k" and "k < 2 ^ 31"
  shows "is_auto c = auto" and "my_id c = pid"
proof -
  have "is_auto c = auto \<and> my_id c = pid"
    using assms(1)
  proof induction
    case (step c e c')
    note reach = session_reachable [OF step.hyps(1)]
    obtain ms where "sent_as k c ms" using reachable_sent [OF reach assms(2-5)] by blast
    with sent_step [OF reachable_client_ok [OF reach assms(2-5)] this step.hyps(4)] step.IH show ?case by auto
  qed (simp add: client_start_def register_connection_def new_client_def Let_def log_stdout_def)
  then show "is_auto c = auto" "my_id c = pid" by simp_all
qed

text \<open>The first whole line of any first part of the stream.\<close>

lemma session_first_line:
  assumes "session k n pid auto c" and "isAlphanumeric pid" and "pid \<noteq> []" and "1 \<le> k" and "k < 2 ^ 31"
    and "is_auto c" and "find_crlf (take j (written c)) = Some pos"
  shows "\<exists>m. createMessageWithCRLF (take pos (take j (written c))) = Some m \<and> body m = HelloMessage pid"
proof -
  let ?w = "take j (written c)"
  obtain ms where ms: "greets k c ms" using session_greets [OF assms(1-5)] by blast
  then have sent: "sent_as k c ms" by (simp add: greets_def)
  obtain l left where "split_lines ?w = (map line_of (take l ms), left)" using lines_sent [OF sent refl] by blast
  moreover have "\<exists>ls rest. split_lines ?w = (take pos ?w # ls, rest)"
    using assms(7) by (subst split_lines.simps) (simp split: prod.split)
  ultimately obtain m ms' where m: "ms = m # ms'" "take pos ?w = line_of m" by (cases l; cases ms) auto
  then have "createMessageWithCRLF (take pos ?w) = Some m" "body m = HelloMessage (my_id c)"
    using ms sent assms(6) sendable_message(1) by (auto simp: greets_def sent_as_def sends_def one_line_def)
  then show ?thesis using session_static(2) [OF assms(1-5)] by simp
qed

text \<open>
  C8: The two programs fit together: the server is safe as long as the first whole line of every new
  client is HELLO, and the automatic client keeps to this, also in games in which its powers overflow
  later (\<open>k\<close> is any positive \<open>int\<close>). In a session the server sends regular lines, and nothing before it
  has got something. If its buffer for the client then holds the beginning of what the client has written and a
  read brings the next piece of it, of any length, the read is one that the safety of the server allows.
\<close>

theorem auto_client_is_polite:
  assumes "session k n pid auto c" and "isAlphanumeric pid" and "pid \<noteq> []" and "1 \<le> k" and "k < 2 ^ 31"
    and "is_auto c" and "map_of (client_buffers w) cfd = Some (take i (written c))"
    and "received inp cfd = Recv_bytes (take j (drop i (written c)))"
  shows "polite inp w cfd"
proof -
  have "take i (written c) @ take j (drop i (written c)) = take (i + j) (written c)" by (simp add: take_add)
  moreover have "hello_first (take (i + j) (written c))"
    using session_first_line [OF assms(1-6), of "i + j"] by (auto simp: hello_first_def split: option.split)
  ultimately show ?thesis using assms(7,8) by (simp add: polite_def hello_bytes_def)
qed

text \<open>The same greeting, and a server that has read its first three bytes.\<close>

lemma session_run:
  "session k n pid auto c \<Longrightarrow> client_run es c = Inr c' \<Longrightarrow> list_all (\<lambda>e. \<forall>r. e \<noteq> Receiver r) es \<Longrightarrow> session k n pid auto c'"
proof (induction es arbitrary: c)
  case (Cons e es)
  then obtain c1 where s: "client_step e c = Inr c1" "client_run es c1 = Inr c'" by (auto simp: bindR_eq_Inr)
  have "server_may_send k n e c" "server_waits e c"
    using Cons.prems(3) by (auto simp: server_may_send_def server_waits_def split: client_event.split)
  then have "session k n pid auto c1" using Cons.prems(1) s(1) by (auto intro: session.step)
  then show ?case using Cons.IH s(2) Cons.prems(3) by simp
qed simp

theorem auto_client_is_polite_witness:
  "\<exists>c. session 1 0 ''Ann'' True c \<and> written c = ''HELLO Ann'' @ crlf \<and>
    polite (example_inp\<lparr>received := \<lambda>_. Recv_bytes (take 8 (drop 3 (written c)))\<rparr>)
      (example_server\<lparr>client_buffers := [(4, take 3 (written c))]\<rparr>) 4"
proof -
  obtain c where c: "client_run example_greets example_client = Inr c" "is_auto c" "written c = ''HELLO Ann'' @ crlf"
    using example_greeting_run by blast
  have "session 1 0 ''Ann'' True example_client" unfolding example_client_def by (rule session.start)
  then have s: "session 1 0 ''Ann'' True c" by (rule session_run [OF _ c(1)]) (simp add: example_greets_def)
  from auto_client_is_polite [OF s example_ok(1) _ example_ok(2,3) c(2),
      of "example_server\<lparr>client_buffers := [(4, take 3 (written c))]\<rparr>" 4 3
        "example_inp\<lparr>received := \<lambda>_. Recv_bytes (take 8 (drop 3 (written c)))\<rparr>" 8]
  show ?thesis using s c(3) by auto
qed

end
