(* ===== verification/Client_End.thy ===== *)
theory Client_End
  imports Client_Streams
begin

text \<open>
  The end of the client: once \<open>game_over\<close> is set, every thread ends after finitely many steps of its own,
  however the threads are scheduled and whatever arrives in between.
\<close>

section \<open>Threads that have not ended\<close>

fun busy :: "client_event \<Rightarrow> Client \<Rightarrow> bool" where
  "busy Main c \<longleftrightarrow> \<not> hello_queued c"
| "busy (Strategy r) c \<longleftrightarrow> strategy c \<noteq> S_ended"
| "busy (Receiver r) c \<longleftrightarrow> receiver c \<noteq> R_ended"
| "busy (Sender r) c \<longleftrightarrow> sender c \<noteq> N_ended"
| "busy Processor c \<longleftrightarrow> processor c \<noteq> P_ended"
| "busy Logger c \<longleftrightarrow> logger c \<noteq> L_ended"

lemma none_busy: "(\<forall>e. \<not> busy e c) \<longleftrightarrow> hello_queued c \<and> threads_joined c"
proof
  assume a: "\<forall>e. \<not> busy e c"
  show "hello_queued c \<and> threads_joined c"
    using spec [OF a, of Main] spec [OF a, of "Strategy Poll_timeout"] spec [OF a, of "Receiver Receive_again"]
      spec [OF a, of "Sender Write_again"] spec [OF a, of Processor] spec [OF a, of Logger]
    by (simp add: threads_joined_def)
next
  assume "hello_queued c \<and> threads_joined c"
  then have "\<not> busy e c" for e by (cases e) (auto simp: threads_joined_def)
  then show "\<forall>e. \<not> busy e c" by blast
qed

lemma over_stays: "client_step e c = Inr c' \<Longrightarrow> over c \<Longrightarrow> over c'"
proof (cases e)
  case (Strategy r)
  assume "client_step e c = Inr c'" "over c"
  with Strategy show ?thesis
    by (cases "strategy c") (auto simp: strategy_step_def manual_poll_def manual_lines_def Let_def log_stderr_def
        log_stdout_def increment_puts_without_answer_def get_best_put_def bindR_eq_Inr
        split: poll_outcome.splits option.splits prod.splits if_splits)
next
  case (Sender r)
  assume "client_step e c = Inr c'" "over c"
  with Sender show ?thesis
    by (auto simp: sender_step_def bindR_eq_Inr split: sender_pc.splits option.splits prod.splits write_outcome.splits if_splits)
qed (auto simp: queue_hello_message_def same_stream_def split: if_splits
    dest!: same_stream_receiver same_stream_processor same_stream_logger)

section \<open>The measure\<close>

text \<open>
  How far each thread is from its end when \<open>over\<close> is set: the stages that it goes through only forwards,
  and for the loops inside a stage the lines, bytes or items that are left. The queue of the log comes
  last, since the other threads still fill it.
\<close>

fun strategy_stage :: "strategy_pc \<Rightarrow> nat" where
  "strategy_stage S_ended = 0"
| "strategy_stage S_check = 1"
| "strategy_stage S_poll = 3"
| "strategy_stage _ = 2"

fun strategy_rank :: "strategy_pc \<Rightarrow> nat" where
  "strategy_rank S_wait = 5"
| "strategy_rank S_increment = 4"
| "strategy_rank S_choose = 3"
| "strategy_rank (S_log pt v) = 2"
| "strategy_rank (S_push m) = 1"
| "strategy_rank _ = 0"

definition newlines :: "string \<Rightarrow> nat" where
  "newlines s = length (filter (\<lambda>c. c = CHR 0x0A) s)"

fun receiver_stage :: "receiver_pc \<Rightarrow> nat" where
  "receiver_stage R_ended = 0"
| "receiver_stage R_last = 1"
| "receiver_stage R_check = 2"
| "receiver_stage R_lines = 3"
| "receiver_stage R_recv = 4"

fun processor_stage :: "processor_pc \<Rightarrow> nat" where
  "processor_stage P_ended = 0"
| "processor_stage P_last = 1"
| "processor_stage P_check = 2"
| "processor_stage (P_report m) = 3"
| "processor_stage (P_finish m) = 4"
| "processor_stage (P_begin m) = 5"
| "processor_stage P_pop = 6"

fun sender_stage :: "sender_pc \<Rightarrow> nat" where
  "sender_stage N_ended = 0"
| "sender_stage N_check = 1"
| "sender_stage (N_write left) = 2"
| "sender_stage N_pop = 3"

fun sender_left :: "sender_pc \<Rightarrow> nat" where
  "sender_left (N_write left) = length left"
| "sender_left _ = 0"

fun logger_stage :: "logger_pc \<Rightarrow> nat" where
  "logger_stage L_ended = 0"
| "logger_stage L_drain = 1"
| "logger_stage L_last = 2"
| "logger_stage L_check = 3"
| "logger_stage L_pop = 4"

text \<open>What a step of the thread leaves of it.\<close>

definition strategy_closer :: "Client \<Rightarrow> Client \<Rightarrow> bool" where
  "strategy_closer c c' \<longleftrightarrow> strategy_stage (strategy c') < strategy_stage (strategy c) \<or>
     strategy_stage (strategy c') = strategy_stage (strategy c) \<and>
       (newlines (input_buffer c') < newlines (input_buffer c) \<or>
        input_buffer c' = input_buffer c \<and> strategy_rank (strategy c') < strategy_rank (strategy c))"

definition receiver_closer :: "Client \<Rightarrow> Client \<Rightarrow> bool" where
  "receiver_closer c c' \<longleftrightarrow> receiver_stage (receiver c') < receiver_stage (receiver c) \<or>
     receiver c' = receiver c \<and> length (recv_buffer c') < length (recv_buffer c)"

definition sender_closer :: "Client \<Rightarrow> Client \<Rightarrow> bool" where
  "sender_closer c c' \<longleftrightarrow> sender_stage (sender c') < sender_stage (sender c) \<or>
     sender_stage (sender c') = sender_stage (sender c) \<and> sender_left (sender c') < sender_left (sender c)"

definition logger_closer :: "Client \<Rightarrow> Client \<Rightarrow> bool" where
  "logger_closer c c' \<longleftrightarrow> logger_stage (logger c') < logger_stage (logger c) \<or>
     logger c' = logger c \<and> length (logs c') < length (logs c)"

text \<open>The fields that belong to one thread alone.\<close>

definition same_strategy :: "Client \<Rightarrow> Client \<Rightarrow> bool" where
  "same_strategy c c' \<longleftrightarrow> hello_queued c' = hello_queued c \<and> strategy c' = strategy c \<and> input_buffer c' = input_buffer c"

definition same_receiver :: "Client \<Rightarrow> Client \<Rightarrow> bool" where
  "same_receiver c c' \<longleftrightarrow> receiver c' = receiver c \<and> recv_buffer c' = recv_buffer c"

definition to_the_end :: "(Client \<times> Client) set" where
  "to_the_end = measures [\<lambda>c. if hello_queued c then 0 else 1,
     \<lambda>c. strategy_stage (strategy c), \<lambda>c. newlines (input_buffer c), \<lambda>c. strategy_rank (strategy c),
     \<lambda>c. receiver_stage (receiver c), \<lambda>c. length (recv_buffer c),
     \<lambda>c. processor_stage (processor c),
     \<lambda>c. sender_stage (sender c), \<lambda>c. sender_left (sender c),
     \<lambda>c. logger_stage (logger c), \<lambda>c. length (logs c)]"

lemma to_the_end:
  "hello_queued c' = hello_queued c \<Longrightarrow> strategy_closer c c' \<Longrightarrow> (c', c) \<in> to_the_end"
  "same_strategy c c' \<Longrightarrow> receiver_closer c c' \<Longrightarrow> (c', c) \<in> to_the_end"
  "same_strategy c c' \<Longrightarrow> same_receiver c c' \<Longrightarrow> processor_stage (processor c') < processor_stage (processor c) \<Longrightarrow>
    (c', c) \<in> to_the_end"
  "same_strategy c c' \<Longrightarrow> same_receiver c c' \<Longrightarrow> processor c' = processor c \<Longrightarrow> sender_closer c c' \<Longrightarrow> (c', c) \<in> to_the_end"
  "same_strategy c c' \<Longrightarrow> same_receiver c c' \<Longrightarrow> processor c' = processor c \<Longrightarrow> sender c' = sender c \<Longrightarrow>
    logger_closer c c' \<Longrightarrow> (c', c) \<in> to_the_end"
  unfolding to_the_end_def in_measures strategy_closer_def receiver_closer_def sender_closer_def logger_closer_def
    same_strategy_def same_receiver_def by auto

lemma newlines_getline:
  assumes "CHR 0x0A \<in> set s" and "getline s = (line, tail)"
  shows "newlines tail < newlines s"
proof -
  obtain ys u where s: "s = ys @ CHR 0x0A # u" "CHR 0x0A \<notin> set ys" using split_list_first [OF assms(1)] by blast
  have u: "dropWhile (\<lambda>c. c \<noteq> CHR 0x0A) s = CHR 0x0A # u" unfolding s(1) using s(2) by (subst dropWhile_append2) auto
  have "newlines s = newlines (takeWhile (\<lambda>c. c \<noteq> CHR 0x0A) s) + newlines (dropWhile (\<lambda>c. c \<noteq> CHR 0x0A) s)"
    unfolding newlines_def by (metis filter_append length_append takeWhile_dropWhile_id)
  moreover have "tail = u" using assms(2) u by (simp add: getline_def)
  ultimately show ?thesis using u by (simp add: newlines_def)
qed

section \<open>Every step goes towards the end\<close>

lemma end_strategy:
  assumes "over c" and "strategy c \<noteq> S_ended" and "strategy_step r c = Inr c'"
  shows "hello_queued c' = hello_queued c \<and> strategy_closer c c'"
proof (cases "strategy c")
  case S_lines
  show ?thesis
  proof (cases "CHR 0x0A \<in> set (input_buffer c)")
    case True
    obtain line tail where g: "getline (input_buffer c) = (line, tail)" by fastforce
    show ?thesis
      using newlines_getline [OF True g] assms(3) S_lines True g
      by (auto simp: strategy_step_def manual_lines_def Let_def log_stderr_def strategy_closer_def split: option.splits)
  qed (use S_lines assms(3) in \<open>auto simp: strategy_step_def manual_lines_def strategy_closer_def\<close>)
next
  case S_poll
  then show ?thesis
    using assms(3) by (auto simp: strategy_step_def manual_poll_def log_stderr_def strategy_closer_def
        split: poll_outcome.splits option.splits)
next
  case S_choose
  then show ?thesis
    using assms(3) by (auto simp: strategy_step_def get_best_put_def Let_def bindR_eq_Inr strategy_closer_def split: if_splits)
qed (use assms in \<open>auto simp: strategy_step_def log_stdout_def increment_puts_without_answer_def strategy_closer_def split: if_splits\<close>)

lemma end_receiver:
  assumes "over c" and "receiver c \<noteq> R_ended" and "receiver_step r c = Inr c'"
  shows "same_strategy c c' \<and> receiver_closer c c'"
proof (cases "receiver c")
  case R_lines
  show ?thesis
  proof (cases "find_crlf (recv_buffer c)")
    case (Some pos)
    then have "recv_buffer c \<noteq> []" by auto
    then have "length (drop (pos + 2) (recv_buffer c)) < length (recv_buffer c)" by simp
    then show ?thesis
      using assms(3) R_lines Some
      by (auto simp: receiver_step_def receive_line_def log_stderr_def same_strategy_def receiver_closer_def
          split: option.splits if_splits)
  qed (use assms(3) R_lines in \<open>auto simp: receiver_step_def same_strategy_def receiver_closer_def\<close>)
qed (use assms in \<open>auto simp: receiver_step_def log_stderr_def same_strategy_def receiver_closer_def
      split: recv_outcome.splits if_splits\<close>)

lemma end_sender:
  assumes "over c" and "sender c \<noteq> N_ended" and "sender_step r c = Inr c'"
  shows "same_strategy c c' \<and> same_receiver c c' \<and> processor c' = processor c \<and> sender_closer c c'"
proof (cases "sender c")
  case (N_write left)
  show ?thesis
  proof (cases r)
    case (Wrote w)
    then show ?thesis
      using assms(1,3) N_write
      by (auto simp: sender_step_def same_strategy_def same_receiver_def sender_closer_def split: if_splits)
  qed (use assms(1,3) N_write in \<open>auto simp: sender_step_def same_strategy_def same_receiver_def sender_closer_def split: if_splits\<close>)
next
  case N_pop
  then show ?thesis
    using assms(3) by (auto simp: sender_step_def bindR_eq_Inr same_strategy_def same_receiver_def sender_closer_def
        split: option.splits prod.splits)
qed (use assms in \<open>auto simp: sender_step_def same_strategy_def same_receiver_def sender_closer_def\<close>)

lemma end_logger:
  assumes "over c" and "logger c \<noteq> L_ended" and "logger_step c = Inr c'"
  shows "same_strategy c c' \<and> same_receiver c c' \<and> processor c' = processor c \<and> sender c' = sender c \<and> logger_closer c c'"
  using assms
  by (cases "logger c"; cases "logs c")
    (auto simp: logger_step_def print_if_def print_log_to_console_def same_strategy_def same_receiver_def logger_closer_def)

lemma same_by_processor:
  assumes "processor_step c = Inr c'"
  shows "same_strategy c c' \<and> same_receiver c c'"
proof -
  have [simp]: "same_strategy c (snd (decrement_puts_without_answer c')) = same_strategy c c'"
    "same_receiver c (snd (decrement_puts_without_answer c')) = same_receiver c c'" for c c'
    by (simp_all add: decrement_puts_without_answer_def same_strategy_def same_receiver_def)
  have state: "same_strategy c c' \<and> same_receiver c c'" if "finish_state vs c = Inr (ok, c')" for vs ok c'
    using that by (cases "decrement_puts_without_answer c")
      (auto simp: finish_state_def Let_def bindR_eq_Inr decrement_puts_without_answer_def same_strategy_def same_receiver_def
        split: if_splits)
  have coeff: "same_strategy c c' \<and> same_receiver c c'" if "finish_coeff c = Inr (ok, c')" for ok c'
    using that by (auto simp: finish_coeff_def bindR_eq_Inr) (simp_all add: same_strategy_def same_receiver_def)
  have finish: "same_strategy c c' \<and> same_receiver c c'" if "finish_message m c = Inr (ok, c')" for m ok c'
    using that state coeff by (cases "body m")
      (auto simp: finish_message_def decrement_puts_without_answer_def same_strategy_def same_receiver_def split: if_splits)
  have first: "same_strategy c c' \<and> same_receiver c c'" if "begin_message m c = Inr c'" for m c'
    using that by (auto simp: begin_message_def begin_coeff_def log_stdout_def bindR_eq_Inr same_strategy_def same_receiver_def
        split: payload.splits if_splits)
  show ?thesis
    using assms first finish by (cases "processor c")
      (auto simp: processor_step_def log_stderr_def bindR_eq_Inr same_strategy_def same_receiver_def
        split: option.splits prod.splits if_splits)
qed

lemma end_processor:
  assumes "over c" and "processor c \<noteq> P_ended" and "processor_step c = Inr c'"
  shows "processor_stage (processor c') < processor_stage (processor c)"
proof (cases "processor c")
  case (P_begin m)
  then show ?thesis
    using assms(3) by (auto simp: processor_step_def begin_message_def begin_coeff_def log_stdout_def bindR_eq_Inr
        split: payload.splits if_splits)
qed (use assms in \<open>auto simp: processor_step_def log_stderr_def bindR_eq_Inr split: option.splits prod.splits if_splits\<close>)

lemma busy_step:
  assumes "over c" and "busy e c" and "client_step e c = Inr c'"
  shows "(c', c) \<in> to_the_end"
proof (cases e)
  case Main
  then show ?thesis using assms(2,3) by (auto simp: to_the_end_def queue_hello_message_def)
next
  case (Strategy r)
  then show ?thesis using assms end_strategy [of c r c'] to_the_end(1) by auto
next
  case (Receiver r)
  then show ?thesis using assms end_receiver [of c r c'] to_the_end(2) by auto
next
  case (Sender r)
  then show ?thesis using assms end_sender [of c r c'] to_the_end(4) by auto
next
  case Processor
  then show ?thesis using assms end_processor [of c c'] same_by_processor [of c c'] to_the_end(3) by auto
next
  case Logger
  then show ?thesis using assms end_logger [of c c'] to_the_end(5) by auto
qed

text \<open>
  C10: The client ends. Once \<open>game_over\<close> is set it stays set, and then the threads that have not ended make
  only finitely many steps together, in any order and whatever the system calls return: every read may
  bring new lines, every message a new line of the log, but no thread starts another round. When no
  thread has a step left, \<open>join_threads\<close> returns.
\<close>

theorem threads_end:
  "wf {(c', c). over c \<and> (\<exists>e. busy e c \<and> client_step e c = Inr c')} \<and>
   {c'. \<exists>c e. over c \<and> client_step e c = Inr c'} \<subseteq> {c. over c} \<and>
   {c. \<nexists>e. busy e c} = {c. hello_queued c \<and> threads_joined c}"
proof -
  have "wf to_the_end" by (simp add: to_the_end_def)
  moreover have "{(c', c). over c \<and> (\<exists>e. busy e c \<and> client_step e c = Inr c')} \<subseteq> to_the_end" using busy_step by auto
  ultimately have "wf {(c', c). over c \<and> (\<exists>e. busy e c \<and> client_step e c = Inr c')}" by (rule wf_subset)
  then show ?thesis using over_stays none_busy by auto
qed

end
