(* ===== verification/Client_Feed.thy ===== *)
theory Client_Feed
  imports Client_Wire Client_End Server_Sends
begin

text \<open>
  The stream from the server to the client: when the bytes that have come so far are the beginning of
  lines that the server may send, the client has no undefined behaviour but the overflow of its powers,
  however the stream is cut into reads.
\<close>

section \<open>Regular lines\<close>

lemma regular_line:
  assumes "regular k n l"
  obtains l' where "l = l' @ crlf" and "CHR 0x0D \<notin> set l'"
proof -
  obtain m where m: "createMessage l = Some m" using assms by (auto simp: regular_def)
  then have "createMessage (raw_message m) = Some m" "raw_message m = l" using createMessage_raw by auto
  then show thesis using created_one_line [of m] that [of "line_of m"] by (auto simp: one_line_def)
qed

text \<open>If a whole line is there, it is the first one of the stream.\<close>

lemma first_line_of_stream:
  assumes "w @ rest = (l' @ crlf) @ tail" and "CHR 0x0D \<notin> set l'" and "find_crlf w = Some pos"
  shows "take (pos + 2) w = l' @ crlf" and "drop (pos + 2) w @ rest = tail"
proof -
  have "find_crlf (w @ rest) = Some pos" using find_crlf_append [OF assms(3)] by blast
  moreover have "find_crlf (w @ rest) = Some (length l')"
    unfolding assms(1) crlf_def using find_crlf_skip [OF assms(2)] by simp
  ultimately have pos: "pos = length l'" by simp
  have len: "pos + 2 \<le> length w" using find_crlf_append [OF assms(3)] by blast
  have "take (pos + 2) (w @ rest) = l' @ crlf" "drop (pos + 2) (w @ rest) = tail"
    unfolding assms(1) by (simp_all add: pos crlf_def)
  then show "take (pos + 2) w = l' @ crlf" "drop (pos + 2) w @ rest = tail" using len by simp_all
qed

section \<open>What has been read\<close>

text \<open>The client after any steps, with all bytes that \<open>recv\<close> has brought.\<close>

fun got :: "client_event \<Rightarrow> Client \<Rightarrow> string" where
  "got (Receiver (Received bs)) c = (if receiver c = R_recv then bs else [])"
| "got _ c = []"

inductive fed :: "string \<Rightarrow> bool \<Rightarrow> string \<Rightarrow> Client \<Rightarrow> bool" for pid auto where
  start: "fed pid auto [] (client_start pid auto n0 ip p)"
| step: "fed pid auto bs c \<Longrightarrow> client_step e c = Inr c' \<Longrightarrow> fed pid auto (bs @ got e c) c'"

lemma buffer_stays:
  assumes "client_step e c = Inr c'" and "\<forall>r. e \<noteq> Receiver r"
  shows "recv_buffer c' = recv_buffer c"
proof (cases e)
  case (Strategy r)
  then show ?thesis
    using assms(1) by (cases "strategy c") (auto simp: strategy_step_def manual_poll_def manual_lines_def Let_def log_stderr_def
        log_stdout_def increment_puts_without_answer_def get_best_put_def bindR_eq_Inr
        split: poll_outcome.splits option.splits prod.splits if_splits)
next
  case (Sender r)
  then show ?thesis
    using assms(1) by (auto simp: sender_step_def bindR_eq_Inr
        split: sender_pc.splits option.splits prod.splits write_outcome.splits if_splits)
next
  case Processor
  then show ?thesis using assms(1) same_by_processor by (auto simp: same_receiver_def)
next
  case Logger
  then show ?thesis
    using assms(1) by (auto simp: logger_step_def print_if_def print_log_to_console_def
        split: logger_pc.splits option.splits prod.splits)
qed (use assms in \<open>auto simp: queue_hello_message_def\<close>)

text \<open>
  The bytes are a prefix of the regular lines \<open>ls\<close>: the first \<open>i\<close> of them have been taken, and the buffer
  holds the beginning of the others.
\<close>

definition in_step :: "string list \<Rightarrow> string \<Rightarrow> Client \<Rightarrow> bool" where
  "in_step ls bs c \<longleftrightarrow> (\<exists>i. bs = concat (take i ls) @ recv_buffer c \<and> i \<le> length ls)"

lemma in_step_rest:
  assumes "bs @ rest = concat ls" and "bs = concat (take i ls) @ buf"
  shows "buf @ rest = concat (drop i ls)"
proof -
  have "concat (take i ls) @ buf @ rest = concat (take i ls) @ concat (drop i ls)"
    using assms by (metis append_assoc append_take_drop_id concat_append)
  then show ?thesis by simp
qed

text \<open>The line that is taken is one of \<open>ls\<close>.\<close>

lemma next_line:
  assumes "in_step ls bs c" and "bs @ rest = concat ls" and "list_all (regular k n) ls" and "find_crlf (recv_buffer c) = Some pos"
  shows "\<exists>i. i < length ls \<and> take (pos + 2) (recv_buffer c) = ls ! i \<and>
    bs = concat (take (Suc i) ls) @ drop (pos + 2) (recv_buffer c)"
proof -
  obtain i where i: "bs = concat (take i ls) @ recv_buffer c" "i \<le> length ls" using assms(1) by (auto simp: in_step_def)
  have rest: "recv_buffer c @ rest = concat (drop i ls)" by (rule in_step_rest [OF assms(2) i(1)])
  have "recv_buffer c \<noteq> []" using assms(4) by auto
  then have "drop i ls \<noteq> []" using rest by auto
  then have il: "i < length ls" by simp
  then have split: "recv_buffer c @ rest = ls ! i @ concat (drop (Suc i) ls)"
    using rest by (simp add: Cons_nth_drop_Suc [symmetric])
  have "regular k n (ls ! i)" using assms(3) il by (simp add: list_all_iff)
  then obtain l' where l': "ls ! i = l' @ crlf" "CHR 0x0D \<notin> set l'" by (rule regular_line)
  have "take (pos + 2) (recv_buffer c) = ls ! i"
    using first_line_of_stream(1) [OF _ l'(2) assms(4), of rest] split l'(1) by simp
  then have "recv_buffer c = ls ! i @ drop (pos + 2) (recv_buffer c)"
    using append_take_drop_id [of "pos + 2" "recv_buffer c"] by simp
  then show ?thesis
    using il i(1) \<open>take (pos + 2) (recv_buffer c) = ls ! i\<close> by (intro exI [of _ i]) (simp add: take_Suc_conv_app_nth)
qed

lemma feed_lines_ok:
  assumes "in_step ls bs c" and "bs @ rest = concat ls" and "list_all (regular (int k) (int n)) ls"
  shows "lines_ok k n c"
proof (cases "find_crlf (recv_buffer c)")
  case (Some pos)
  obtain i where "i < length ls" "take (pos + 2) (recv_buffer c) = ls ! i" using next_line [OF assms Some] by blast
  then have "regular (int k) (int n) (take (pos + 2) (recv_buffer c))" using assms(3) by (simp add: list_all_iff)
  then show ?thesis using Some by (auto simp: lines_ok_def regular_def)
qed (simp add: lines_ok_def)

lemma in_step_step:
  assumes "in_step ls bs c" and "bs @ got e c @ rest = concat ls" and "list_all (regular k n) ls" and "client_step e c = Inr c'"
  shows "in_step ls (bs @ got e c) c'"
proof (cases "\<exists>r. e = Receiver r")
  case False
  then have "got e c = []" by (cases e) auto
  then show ?thesis using assms(1) buffer_stays [OF assms(4)] False by (simp add: in_step_def)
next
  case True
  then obtain r where r: "e = Receiver r" by blast
  have fresh: "got e c = (if receiver c = R_recv then (case r of Received b \<Rightarrow> b | _ \<Rightarrow> []) else [])"
    using r by (cases r) simp_all
  show ?thesis
  proof (cases "receiver c")
    case R_lines
    then have "got e c = []" using fresh by simp
    moreover have "in_step ls bs c'"
    proof (cases "find_crlf (recv_buffer c)")
      case (Some pos)
      then have "recv_buffer c' = drop (pos + 2) (recv_buffer c)"
        using assms(4) r R_lines by (auto simp: receiver_step_def receive_line_def log_stderr_def split: option.splits if_splits)
      then show ?thesis
        using next_line [OF assms(1) _ assms(3) Some, of rest] assms(2) \<open>got e c = []\<close> unfolding in_step_def by fastforce
    qed (use assms(1,4) r R_lines in \<open>auto simp: receiver_step_def in_step_def\<close>)
    ultimately show ?thesis by simp
  next
    case R_recv
    then show ?thesis using assms(1,4) r by (cases r) (auto simp: receiver_step_def in_step_def split: if_splits)
  qed (use assms(1,4) r fresh in \<open>auto simp: receiver_step_def in_step_def log_stderr_def split: if_splits\<close>)
qed

lemma fed_in_step:
  assumes "fed pid auto bs c" and "bs @ rest = concat ls" and "list_all (regular (int k) (int n)) ls"
  shows "client_reachable k n pid auto c \<and> in_step ls bs c"
  using assms(1,2)
proof (induction arbitrary: rest)
  case (start n0 ip p)
  have "in_step ls [] (client_start pid auto n0 ip p)"
    unfolding in_step_def by (intro exI [of _ 0])
      (simp add: client_start_def register_connection_def new_client_def Let_def log_stdout_def)
  then show ?case by (simp add: client_reachable.start)
next
  case (step bs c e c')
  have rest: "bs @ got e c @ rest = concat ls" using step.prems by simp
  note ih = step.IH [OF rest]
  have "server_may_send k n e c"
    using feed_lines_ok [OF _ rest assms(3)] ih by (simp add: server_may_send_def split: client_event.split)
  then show ?case using ih step.hyps(2) in_step_step [OF _ rest assms(3) step.hyps(2)] by (auto intro: client_reachable.step)
qed

lemma fed_safe:
  assumes "fed pid auto bs c" and "bs @ rest = concat ls" and "list_all (regular (int k) (int n)) ls"
    and "isAlphanumeric pid" and "pid \<noteq> []" and "1 \<le> k" and "k < 2 ^ 31"
  shows "(client_step e c = Inl Undefined \<longleftrightarrow> power_overflows k e c) \<and>
    (int k ^ (n + 1) < 2 ^ 31 \<longrightarrow> client_step e c \<noteq> Inl Undefined) \<and> (\<exists>i. bs = concat (take i ls) @ recv_buffer c)"
proof -
  have c: "client_reachable k n pid auto c" "in_step ls bs c" using fed_in_step [OF assms(1-3)] by simp_all
  have "server_may_send k n e c"
    using feed_lines_ok [OF c(2) assms(2,3)] by (simp add: server_may_send_def split: client_event.split)
  moreover have "client_ok k n c" by (rule reachable_client_ok [OF c(1) assms(4-7)])
  ultimately show ?thesis
    using client_undefined_iff [OF _ _ assms(6,7)] no_overflow [OF _ assms(6)] c(2) by (auto simp: in_step_def)
qed


text \<open>
  C5: The two programs together. Let the server be started with parameters that its parser admits and a
  file with \<open>N + 1\<close> coefficients in every line that is a message, and let all its clients begin with HELLO.
  A client that has got a first part of what the server has sent to its descriptor in any run, cut into reads in any
  way, has undefined behaviour at its next step exactly when the powers of \<open>poly_at\<close> overflow in it, at the
  first STATE; it never has if \<open>k ^ (n + 1)\<close> fits into an \<open>int\<close>.
\<close>

theorem served_client_safe:
  assumes "server_start (int k) (int n) m (Some content) lfd = Inr w" and "1 \<le> k" "k \<le> 10000" and "n \<le> 8" and "1 \<le> m" "m \<le> 12341234"
    and "file_ok (int n) content" and "inputs_ok inps w" and "server_run inps w = Inr w'"
    and "fed pid auto bs c" and "bs @ left = stream_to w' cfd" and "isAlphanumeric pid" and "pid \<noteq> []"
  shows "(client_step e c = Inl Undefined \<longleftrightarrow> power_overflows k e c) \<and>
    (int k ^ (n + 1) < 2 ^ 31 \<longrightarrow> client_step e c \<noteq> Inl Undefined)"
proof -
  obtain ls rest where ls: "list_all (regular (int k) (int n)) ls" "stream_to w' cfd @ rest = concat ls"
    using streams_regular [OF assms(1) _ _ _ _ assms(5-9), of cfd] assms(2-4) by auto
  have bs: "bs @ left @ rest = concat ls" using ls(2) assms(11) by (metis append_assoc)
  have k: "k < 2 ^ 31" using assms(3) by simp
  show ?thesis using fed_safe [OF assms(10) bs ls(1) assms(12,13,2) k] by blast
qed

text \<open>The example of the client, which gets its first line in two pieces.\<close>

fun got_run :: "client_event list \<Rightarrow> Client \<Rightarrow> string" where
  "got_run [] c = []"
| "got_run (e # es) c = got e c @ (case client_step e c of Inl x \<Rightarrow> [] | Inr c' \<Rightarrow> got_run es c')"

lemma fed_run: "fed pid auto bs c \<Longrightarrow> client_run es c = Inr c' \<Longrightarrow> fed pid auto (bs @ got_run es c) c'"
proof (induction es arbitrary: bs c)
  case (Cons e es)
  then obtain c1 where s: "client_step e c = Inr c1" "client_run es c1 = Inr c'" by (auto simp: bindR_eq_Inr)
  from Cons.IH [OF fed.step [OF Cons.prems(1) s(1)] s(2)] show ?case using s(1) by simp
qed simp


text \<open>A server that has sent the first five bytes of its line, and a client that has got them.\<close>

theorem served_client_safe_witness:
  "\<exists>w w' c. server_start 1 0 1 (Some (''COEFF 1'' @ crlf)) 3 = Inr w \<and>
    server_run (greeting_inputs @ [quiet, five_bytes]) w = Inr w' \<and> stream_to w' 4 = ''COEFF'' \<and>
    fed ''Ann'' True ''COEFF'' c \<and> client_step (Receiver (Received ('' 1'' @ crlf))) c \<noteq> Inl Undefined"
proof -
  obtain w w' where w: "server_start 1 0 1 (Some (''COEFF 1'' @ crlf)) 3 = Inr w"
      "inputs_ok (greeting_inputs @ [quiet, five_bytes]) w" "server_run (greeting_inputs @ [quiet, five_bytes]) w = Inr w'"
      "stream_to w' 4 = ''COEFF''"
    using five_bytes_run by blast
  obtain c where c: "client_run [Receiver Receive_again, Receiver (Received ''COEFF'')] example_client = Inr c"
      "got_run [Receiver Receive_again, Receiver (Received ''COEFF'')] example_client = ''COEFF''"
    by (simp add: receiver_step_def example_client_simps)
  have "fed ''Ann'' True [] example_client" unfolding example_client_def by (rule fed.start)
  from fed_run [OF this c(1)] c(2) have fed: "fed ''Ann'' True ''COEFF'' c" by simp
  have "client_step (Receiver (Received ('' 1'' @ crlf))) c \<noteq> Inl Undefined"
    by (rule served_client_safe [of 1 0 1 _ 3 w _ w' _ _ "''COEFF''" c "[]" 4, OF _ _ _ _ _ _ _ w(2,3) fed,
        THEN conjunct2, THEN mp])
      (use w example_content example_ok in simp_all)
  then show ?thesis using w(1,3,4) fed by blast
qed

end
