(* ===== verification/Whole_Game.thy ===== *)
theory Whole_Game
  imports Server_Greeted Client_Feed
begin

text \<open>
  The whole game: one server and any number of clients with the automatic strategy, and between them
  connections that carry the bytes in order and may cut them anywhere. Any order of the steps of the server
  and of the threads of the clients is a run.
\<close>

section \<open>The world\<close>

text \<open>A client program and the bytes that it has read from its connection.\<close>

record link =
  program :: Client
  heard :: string

text \<open>
  \<open>attached\<close> gives the client at each descriptor of the server, also when the server has closed it; when the
  descriptor is used again, the old client goes to \<open>cut_off\<close>, with all that had been sent to it.
\<close>

record world =
  server :: Server
  attached :: "int \<rightharpoonup> link"
  cut_off :: "(link \<times> string) list"

definition written_by :: "(int \<rightharpoonup> link) \<Rightarrow> int \<Rightarrow> string" where
  "written_by att c = (case att c of None \<Rightarrow> [] | Some l \<Rightarrow> written (program l))"

text \<open>
  What the network may do in an iteration of the server: \<open>send\<close> and \<open>accept\<close> as documented, \<open>accept\<close> only
  when the loop calls it, and from a client that is not known yet the next bytes that it has written, of
  any number, or an error or the end of the connection. From a known client anything may come, which is
  more than the network does.
\<close>

definition network :: "world \<Rightarrow> inputs \<Rightarrow> bool" where
  "network v inp \<longleftrightarrow> sends_ok inp \<and> fresh_accept inp (server v) \<and> accepts inp (server v) = accepted inp \<and>
     (\<forall>p \<in> set (tl (poll_fds (server v))). re_in inp (fd p) \<longrightarrow> fitting (written_by (attached v)) inp (server v) (fd p))"

text \<open>A client that has connected, said HELLO perhaps, and read nothing.\<close>

definition newcomer :: "Client \<Rightarrow> bool" where
  "newcomer c \<longleftrightarrow> (\<exists>pid. isAlphanumeric pid \<and> pid \<noteq> [] \<and> pid \<noteq> ''UNKNOWN'' \<and> fed pid True [] c)"

text \<open>A step of a client that reads at most what is there.\<close>

definition link_step :: "string \<Rightarrow> client_event \<Rightarrow> link \<Rightarrow> link \<Rightarrow> bool" where
  "link_step stream e l l' \<longleftrightarrow> client_step e (program l) = Inr (program l') \<and>
     heard l' = heard l @ got e (program l) \<and> prefix (heard l') stream"

inductive whole_game :: "int \<Rightarrow> int \<Rightarrow> int \<Rightarrow> string \<Rightarrow> world \<Rightarrow> bool" for k n m content where
  start: "server_start k n m (Some content) lfd = Inr w \<Longrightarrow>
    whole_game k n m content \<lparr>server = w, attached = Map.empty, cut_off = []\<rparr>"
| client: "whole_game k n m content v \<Longrightarrow> attached v c = Some l \<Longrightarrow> link_step (stream_to (server v) c) e l l' \<Longrightarrow>
    whole_game k n m content (v\<lparr>attached := (attached v)(c \<mapsto> l')\<rparr>)"
| former_client: "whole_game k n m content v \<Longrightarrow> i < length (cut_off v) \<Longrightarrow> cut_off v ! i = (l, s) \<Longrightarrow> link_step s e l l' \<Longrightarrow>
    whole_game k n m content (v\<lparr>cut_off := (cut_off v)[i := (l', s)]\<rparr>)"
| round: "whole_game k n m content v \<Longrightarrow> network v inp \<Longrightarrow> accepted inp = None \<Longrightarrow> server_iteration inp (server v) = Inr w' \<Longrightarrow>
    whole_game k n m content (v\<lparr>server := w'\<rparr>)"
| accepting: "whole_game k n m content v \<Longrightarrow> network v inp \<Longrightarrow> accepted inp = Some (c, ip, port) \<Longrightarrow> newcomer p \<Longrightarrow>
    server_iteration inp (server v) = Inr w' \<Longrightarrow>
    whole_game k n m content \<lparr>server = w', attached = (attached v)(c \<mapsto> \<lparr>program = p, heard = []\<rparr>),
      cut_off = (case attached v c of None \<Rightarrow> cut_off v | Some l \<Rightarrow> (l, stream_to (server v) c) # cut_off v)\<rparr>"

section \<open>The invariant\<close>

definition lines_begin :: "nat \<Rightarrow> nat \<Rightarrow> string \<Rightarrow> bool" where
  "lines_begin k n s \<longleftrightarrow> (\<exists>ls rest. list_all (regular (int k) (int n)) ls \<and> s @ rest = concat ls)"

definition link_ok :: "nat \<Rightarrow> nat \<Rightarrow> string \<Rightarrow> link \<Rightarrow> bool" where
  "link_ok k n stream l \<longleftrightarrow> (\<exists>pid. isAlphanumeric pid \<and> pid \<noteq> [] \<and> pid \<noteq> ''UNKNOWN'' \<and>
     session k n pid True (program l) \<and> fed pid True (heard l) (program l)) \<and>
     prefix (heard l) stream \<and> lines_begin k n stream \<and> (written (program l) = [] \<longrightarrow> stream = [])"

definition world_ok :: "nat \<Rightarrow> nat \<Rightarrow> world \<Rightarrow> bool" where
  "world_ok k n v \<longleftrightarrow> server_safe (server v) \<and> K (logic (server v)) = int k \<and> N (logic (server v)) = int n \<and>
     quiet_ok (written_by (attached v)) (server v) \<and>
     (\<forall>c l. attached v c = Some l \<longrightarrow> link_ok k n (stream_to (server v) c) l) \<and>
     (\<forall>(l, s) \<in> set (cut_off v). link_ok k n s l)"

lemma well_greeted_nil [simp]: "well_greeted []"
  by (simp add: well_greeted_def greeting_def)

lemma session_well_greeted:
  assumes "session k n pid True c" and "isAlphanumeric pid" and "pid \<noteq> []" and "pid \<noteq> ''UNKNOWN''" and "1 \<le> k" and "k < 2 ^ 31"
  shows "well_greeted (written c)"
  unfolding well_greeted_def
proof (intro allI impI)
  fix b
  assume "prefix b (written c)"
  then obtain j where b: "b = take j (written c)" by (metis take_is_prefix append_eq_conv_conj prefixE)
  have "is_auto c" using session_static(1) [OF assms(1-3,5,6)] by simp
  then show "greeting b"
    using session_first_line [OF assms(1-3,5,6), of j] assms(4) b
    by (auto simp: greeting_def split: option.split)
qed

lemma link_ok_greeted:
  assumes "link_ok k n s l" and "1 \<le> k" and "k < 2 ^ 31"
  shows "well_greeted (written (program l))"
  using assms session_well_greeted unfolding link_ok_def by blast

lemma fed_lines_ok:
  assumes "fed pid auto bs c" and "prefix bs s" and "lines_begin k n s"
  shows "lines_ok k n c"
proof -
  obtain ls rest where ls: "list_all (regular (int k) (int n)) ls" "s @ rest = concat ls" using assms(3) by (auto simp: lines_begin_def)
  obtain r where "bs @ r = concat ls" using assms(2) ls(2) by (auto simp: prefix_def)
  then show ?thesis using fed_in_step [OF assms(1) _ ls(1)] feed_lines_ok [OF _ _ ls(1)] by blast
qed

text \<open>A client step keeps the invariant of its connection.\<close>

lemma link_ok_step:
  assumes "link_ok k n s l" and "link_step s e l l'"
  shows "link_ok k n s l'"
proof -
  obtain pid where pid: "isAlphanumeric pid" "pid \<noteq> []" "pid \<noteq> ''UNKNOWN''" "session k n pid True (program l)"
      "fed pid True (heard l) (program l)"
    using assms(1) by (auto simp: link_ok_def)
  have l: "prefix (heard l) s" "lines_begin k n s" "written (program l) = [] \<longrightarrow> s = []" using assms(1) by (auto simp: link_ok_def)
  have step: "client_step e (program l) = Inr (program l')" "heard l' = heard l @ got e (program l)" "prefix (heard l') s"
    using assms(2) unfolding link_step_def by blast+
  have "server_may_send k n e (program l)"
    using fed_lines_ok [OF pid(5) l(1,2)] by (simp add: server_may_send_def split: client_event.split)
  moreover have "server_waits e (program l)"
    using l(3) step(2,3) by (auto simp: server_waits_def split: client_event.split recv_outcome.split)
  ultimately have "session k n pid True (program l')" using pid(4) step(1) by (auto intro: session.step)
  moreover have "fed pid True (heard l') (program l')" unfolding step(2) by (rule fed.step [OF pid(5) step(1)])
  moreover have "written (program l') = [] \<longrightarrow> s = []" using written_kept [OF step(1)] l(3) by blast
  ultimately show ?thesis using pid(1-3) step(3) l(2) by (auto simp: link_ok_def)
qed

lemma newcomer_ok:
  assumes "newcomer p"
  shows "link_ok k n [] \<lparr>program = p, heard = []\<rparr>"
proof -
  obtain pid where pid: "isAlphanumeric pid" "pid \<noteq> []" "pid \<noteq> ''UNKNOWN''" "fed pid True [] p"
    using assms by (auto simp: newcomer_def)
  have "bs = [] \<Longrightarrow> session k n pid True c" if "fed pid True bs c" for bs c
    using that
  proof induction
    case (start n0 ip q)
    show ?case by (rule session.start)
  next
    case (step bs c e c')
    have "lines_begin k n []" by (auto simp: lines_begin_def intro: exI [of _ "[]"])
    then have "lines_ok k n c" using fed_lines_ok [OF step.hyps(1), of "[]"] step.prems by simp
    then have "server_may_send k n e c" by (simp add: server_may_send_def split: client_event.split)
    moreover have "server_waits e c" using step.prems by (auto simp: server_waits_def split: client_event.split recv_outcome.split)
    ultimately show ?case using step by (auto intro: session.step)
  qed
  then have "session k n pid True p" using pid(4) by blast
  moreover have "lines_begin k n []" by (auto simp: lines_begin_def intro: exI [of _ "[]"])
  ultimately show ?thesis using pid by (auto simp: link_ok_def)
qed

text \<open>What the clients write while the server waits does not disturb it.\<close>

lemma quiet_written:
  assumes "quiet_ok f w" and "\<And>c. prefix (f c) (f' c)"
  shows "quiet_ok f' w"
proof -
  have "f c = []" if "f' c = []" for c using assms(2) [of c] that by simp
  moreover have "shy_player (f' c) tx p" if "shy_player (f c) tx p" for c tx p
    using that \<open>\<And>c. f' c = [] \<Longrightarrow> f c = []\<close> by (auto simp: shy_player_def)
  moreover have "heard_from f' w c" if "heard_from f w c" for c
    using that prefix_order.trans [OF _ assms(2) [of c]] by (auto simp: heard_from_def)
  ultimately show ?thesis using assms(1) by (simp add: quiet_but_def shy_def)
qed

lemma world_ok_client:
  assumes "world_ok k n v" and "attached v c = Some l" and "link_step (stream_to (server v) c) e l l'"
  shows "world_ok k n (v\<lparr>attached := (attached v)(c \<mapsto> l')\<rparr>)"
proof -
  have "prefix (written (program l)) (written (program l'))"
    using assms(3) written_grows [of e "program l" "program l'"] by (auto simp: link_step_def)
  then have grows: "prefix (written_by (attached v) d) (written_by ((attached v)(c \<mapsto> l')) d)" for d
    using assms(2) by (simp add: written_by_def)
  have v: "quiet_ok (written_by (attached v)) (server v)" "link_ok k n (stream_to (server v) c) l"
    using assms(1,2) by (simp_all add: world_ok_def)
  have "quiet_ok (written_by ((attached v)(c \<mapsto> l'))) (server v)" by (rule quiet_written [OF v(1) grows])
  then show ?thesis using assms(1) link_ok_step [OF v(2) assms(3)] by (simp add: world_ok_def)
qed

text \<open>An iteration of the server, with or without a newcomer.\<close>

lemma server_safe_lines:
  assumes "server_safe w" and "K (logic w) = int k" and "N (logic w) = int n"
  shows "lines_begin k n (stream_to w c)"
proof -
  have "sent_ok (int k) (int n) (stream_to w)" using assms unfolding server_safe_def nums_ok_def by simp
  then show ?thesis unfolding sent_ok_def lines_begin_def by blast
qed

lemma world_round:
  assumes "world_ok k n v" and "network v inp" and "1 \<le> k" and "k < 2 ^ 31" and "well_greeted wrote"
  defines "f \<equiv> case accepted inp of None \<Rightarrow> written_by (attached v) | Some (c, ip, port) \<Rightarrow> (written_by (attached v))(c := wrote)"
  shows "safeR (\<lambda>w'. server_safe w' \<and> K (logic w') = int k \<and> N (logic w') = int n \<and> quiet_ok f w' \<and>
    (\<forall>c. c \<notin> accepted_fds inp \<longrightarrow> prefix (stream_to (server v) c) (stream_to w' c))) (server_iteration inp (server v))"
proof -
  have w: "server_safe (server v)" "quiet_ok (written_by (attached v)) (server v)"
      "K (logic (server v)) = int k" "N (logic (server v)) = int n"
    using assms(1) by (simp_all add: world_ok_def)
  have wg: "\<forall>c. well_greeted (written_by (attached v) c)"
    using assms(1) link_ok_greeted [OF _ assms(3,4), of n] by (fastforce simp: world_ok_def written_by_def split: option.split)
  have net: "sends_ok inp" "fresh_accept inp (server v)" "accepts inp (server v) = accepted inp"
      "\<forall>p \<in> set (tl (poll_fds (server v))). re_in inp (fd p) \<longrightarrow> fitting (written_by (attached v)) inp (server v) (fd p)"
    using assms(2) by (simp_all add: network_def)
  note q = quiet_iteration [OF w(1,2) wg net(1,2,4) assms(5)]
  have "safeR server_safe (server_iteration inp (server v))" by (rule safe_server_iteration [OF w(1) q(1)])
  moreover have "okR (quiet_ok f) (server_iteration inp (server v))" using q(2) by (simp add: f_def net(3))
  ultimately show ?thesis
    using game_iteration [of inp "server v"] w(3,4)
    by (cases "server_iteration inp (server v)") (simp_all add: same_game_def same_config_def)
qed

lemma link_ok_more:
  assumes "link_ok k n s l" and "prefix s s'" and "lines_begin k n s'" and "written (program l) = [] \<Longrightarrow> s' = []"
  shows "link_ok k n s' l"
  using assms prefix_order.trans [OF _ assms(2)] by (auto simp: link_ok_def)

lemma quiet_unwritten: "quiet_ok f w \<Longrightarrow> f c = [] \<Longrightarrow> stream_to w c = []"
  by (simp add: quiet_but_def)

lemma world_ok_round:
  assumes "world_ok k n v" and "network v inp" and "1 \<le> k" and "k < 2 ^ 31"
    and "accepted inp = None" and "server_iteration inp (server v) = Inr w'"
  shows "world_ok k n (v\<lparr>server := w'\<rparr>)"
proof -
  have w': "server_safe w'" "K (logic w') = int k" "N (logic w') = int n" "quiet_ok (written_by (attached v)) w'"
      "\<forall>c. prefix (stream_to (server v) c) (stream_to w' c)"
    using world_round [OF assms(1-4) well_greeted_nil] assms(5,6) by (simp_all add: accepted_fds_def)
  have "link_ok k n (stream_to w' c) l" if "attached v c = Some l" for c l
  proof (rule link_ok_more)
    show "link_ok k n (stream_to (server v) c) l" using assms(1) that by (simp add: world_ok_def)
    show "prefix (stream_to (server v) c) (stream_to w' c)" using w'(5) by blast
    show "lines_begin k n (stream_to w' c)" by (rule server_safe_lines [OF w'(1-3)])
    show "stream_to w' c = []" if "written (program l) = []"
      using quiet_unwritten [OF w'(4)] that \<open>attached v c = Some l\<close> by (simp add: written_by_def)
  qed
  then show ?thesis using assms(1) w' by (simp add: world_ok_def)
qed

lemma world_ok_accepting:
  assumes "world_ok k n v" and "network v inp" and "1 \<le> k" and "k < 2 ^ 31"
    and "accepted inp = Some (c, ip, port)" and "newcomer p" and "server_iteration inp (server v) = Inr w'"
  shows "world_ok k n \<lparr>server = w', attached = (attached v)(c \<mapsto> \<lparr>program = p, heard = []\<rparr>),
      cut_off = (case attached v c of None \<Rightarrow> cut_off v | Some l \<Rightarrow> (l, stream_to (server v) c) # cut_off v)\<rparr>"
proof -
  let ?l = "\<lparr>program = p, heard = []\<rparr>"
  let ?att = "(attached v)(c \<mapsto> ?l)"
  have new: "link_ok k n [] ?l" by (rule newcomer_ok [OF assms(6)])
  then have "well_greeted (written p)" using link_ok_greeted [OF new assms(3,4)] by simp
  moreover have att: "written_by ?att = (written_by (attached v))(c := written p)" by (auto simp: written_by_def fun_eq_iff)
  ultimately have w': "server_safe w'" "K (logic w') = int k" "N (logic w') = int n" "quiet_ok (written_by ?att) w'"
      "\<forall>d. d \<noteq> c \<longrightarrow> prefix (stream_to (server v) d) (stream_to w' d)"
    using world_round [OF assms(1-4), of "written p"] assms(5,7) by (simp_all add: accepted_fds_def)
  have old: "link_ok k n (stream_to (server v) d) l" if "attached v d = Some l" for d l
    using assms(1) that by (simp add: world_ok_def)
  have silent: "stream_to w' d = []" if "?att d = Some l" "written (program l) = []" for d l
    using quiet_unwritten [OF w'(4), of d] that by (simp add: written_by_def)
  have "link_ok k n (stream_to w' d) l" if "?att d = Some l" for d l
  proof (cases "d = c")
    case True
    then show ?thesis using that silent [OF that] server_safe_lines [OF w'(1-3)] link_ok_more [OF new] by simp
  next
    case False
    then show ?thesis
      using that silent [OF that] server_safe_lines [OF w'(1-3)] w'(5) by (intro link_ok_more [OF old [of d l]]) simp_all
  qed
  then show ?thesis using assms(1) w' old by (auto simp: world_ok_def split: option.split)
qed

section \<open>The whole game is safe\<close>

lemma quiet_start:
  "players (logic w) = [] \<Longrightarrow> events (logic w) = [] \<Longrightarrow> poll_fds w = [l] \<Longrightarrow> transmitted w = [] \<Longrightarrow> quiet_ok f w"
  by (simp add: quiet_but_def shy_def client_fds_def stream_to_none)

lemma whole_game_ok:
  assumes "whole_game (int k) (int n) m content v" and "1 \<le> k" "k \<le> 10000" and "n \<le> 8" and "1 \<le> m" "m \<le> 12341234"
    and "file_ok (int n) content"
  shows "world_ok k n v"
  using assms(1)
proof induction
  case (start lfd w)
  have safe: "server_safe w" by (rule server_start_safe [OF start]) (use assms in simp_all)
  have "quiet_ok (written_by Map.empty) w"
    by (rule quiet_start [of _ "new_pollfd lfd"]) (use start in \<open>auto simp: server_start_def server_init_def\<close>)
  then show ?case using safe start_config [OF start] by (simp add: world_ok_def)
next
  case (client v c l e l')
  then show ?case using world_ok_client by blast
next
  case (former_client v i l s e l')
  have "(l, s) \<in> set (cut_off v)" using former_client.hyps(2,3) by (metis nth_mem)
  then have "link_ok k n s l'" using former_client.IH former_client.hyps(4) link_ok_step by (auto simp: world_ok_def)
  then show ?case
    using former_client.IH set_update_subset_insert [of "cut_off v" i "(l', s)"] by (auto simp: world_ok_def)
next
  case (round v inp w')
  then show ?case using world_ok_round assms(2,3) by simp
next
  case (accepting v inp c ip port p w')
  then show ?case using world_ok_accepting assms(2,3) by simp
qed

text \<open>
  C1: The whole game. One server, started with parameters that its parser admits and a file with
  \<open>N + 1\<close> coefficients in every line that is a message, and any number of clients with the automatic
  strategy, each under an alphanumeric name other than UNKNOWN: whatever the order of the iterations of the
  server and of the steps of all threads of all clients, however the streams are cut, whichever connections
  break and whatever the clock says, the next iteration of the server has no undefined behaviour, and the
  next step of a thread of a client has undefined behaviour exactly when it computes the values for the
  first STATE and \<open>k\<close> to the power of the number of coefficients does not fit into an \<open>int\<close>. So a client has
  none if \<open>k ^ (n + 1)\<close> fits; with the defaults of the server, \<open>k = 100\<close> and \<open>n = 4\<close>, it does not fit. What
  the two programs send to each other is not assumed: that the clients greet first, and that the
  server answers with lines a client may get, is proved from their code.
\<close>

theorem whole_game_safe:
  assumes "whole_game (int k) (int n) m content v" and "1 \<le> k" "k \<le> 10000" and "n \<le> 8" and "1 \<le> m" "m \<le> 12341234"
    and "file_ok (int n) content"
  shows "(network v inp \<longrightarrow> server_iteration inp (server v) \<noteq> Inl Undefined) \<and>
    (\<forall>l. l \<in> ran (attached v) \<or> l \<in> fst ` set (cut_off v) \<longrightarrow>
       (\<forall>e. client_step e (program l) = Inl Undefined \<longleftrightarrow> power_overflows k e (program l)) \<and>
       (int k ^ (n + 1) < 2 ^ 31 \<longrightarrow> (\<forall>e. client_step e (program l) \<noteq> Inl Undefined)))"
proof -
  have v: "world_ok k n v" by (rule whole_game_ok [OF assms])
  have k: "k < 2 ^ 31" using assms(3) by simp
  have links: "(client_step e (program l) = Inl Undefined \<longleftrightarrow> power_overflows k e (program l)) \<and>
      (int k ^ (n + 1) < 2 ^ 31 \<longrightarrow> client_step e (program l) \<noteq> Inl Undefined)" if l: "link_ok k n s l" for s l e
  proof -
    obtain pid left ls rest where f: "isAlphanumeric pid" "pid \<noteq> []" "fed pid True (heard l) (program l)" "s = heard l @ left"
        "list_all (regular (int k) (int n)) ls" "s @ rest = concat ls"
      using l by (auto simp: link_ok_def lines_begin_def prefix_def)
    have "heard l @ left @ rest = concat ls" using f(4,6) by simp
    from fed_safe [OF f(3) this f(5,1,2) assms(2) k] show ?thesis by blast
  qed
  have "\<exists>s. link_ok k n s l" if "l \<in> ran (attached v) \<or> l \<in> fst ` set (cut_off v)" for l
    using that v by (fastforce simp: world_ok_def ran_def)
  then have "\<forall>l. l \<in> ran (attached v) \<or> l \<in> fst ` set (cut_off v) \<longrightarrow>
       (\<forall>e. client_step e (program l) = Inl Undefined \<longleftrightarrow> power_overflows k e (program l)) \<and>
       (int k ^ (n + 1) < 2 ^ 31 \<longrightarrow> (\<forall>e. client_step e (program l) \<noteq> Inl Undefined))"
    using links by blast
  moreover have "server_iteration inp (server v) \<noteq> Inl Undefined" if "network v inp"
    using world_round [OF v that assms(2) k well_greeted_nil] by (rule safeR_not_undefined)
  ultimately show ?thesis by blast
qed

text \<open>
  Ann connects and has written her HELLO, the server reads it and sends five bytes of its answer, which she
  reads.
\<close>

lemma plain_network:
  assumes "sends_ok inp" and "fresh_accept inp (server v)" and "accepted inp = None" and "\<And>c. \<not> re_in inp c"
  shows "network v inp"
  using assms by (simp add: network_def accepts_def)

lemma quiet_simps [simp]: "accepted quiet = None" "re_in quiet c = False" "accepted five_bytes = None" "re_in five_bytes c = False"
  by (simp_all add: quiet_def five_bytes_def)

theorem whole_game_safe_witness:
  "\<exists>v l. whole_game 1 0 1 (''COEFF 1'' @ crlf) v \<and> attached v 4 = Some l \<and> written (program l) = ''HELLO Ann'' @ crlf \<and>
    stream_to (server v) 4 = ''COEFF'' \<and> heard l = ''COEFF'' \<and> server_iteration quiet (server v) \<noteq> Inl Undefined \<and>
    client_step (Receiver (Received ('' 1'' @ crlf))) (program l) \<noteq> Inl Undefined"
proof -
  let ?file = "''COEFF 1'' @ crlf"
  obtain w w4 w1 where w: "server_start 1 0 1 (Some ?file) 3 = Inr w" "inputs_ok (greeting_inputs @ [quiet, five_bytes]) w"
      "server_run (greeting_inputs @ [quiet, five_bytes]) w = Inr w4" "stream_to w4 4 = ''COEFF''"
      "server_iteration (hd greeting_inputs) w = Inr w1" "client_buffers w1 = [(4, [])]"
    using five_bytes_run by blast
  define i1 where "i1 = quiet\<lparr>re_in := \<lambda>c. c = 3, accepted := Some (4, ''127.0.0.1'', 40000)\<rparr>"
  define i2 where "i2 = quiet\<lparr>re_in := \<lambda>c. c = 4, received := \<lambda>_. Recv_bytes (''HELLO Ann'' @ crlf)\<rparr>"
  have inputs: "greeting_inputs = [i1, i2]" by (simp add: greeting_inputs_def i1_def i2_def)
  obtain w2 w3 where runs: "server_iteration i1 w = Inr w1" "server_iteration i2 w1 = Inr w2" "server_iteration quiet w2 = Inr w3"
      "server_iteration five_bytes w3 = Inr w4"
    using w(3,5) by (auto simp: inputs bindR_eq_Inr)
  have good: "good_inputs i1 w" "good_inputs i2 w1" "good_inputs quiet w2" "good_inputs five_bytes w3"
    using w(2) runs by (simp_all add: inputs)
  obtain p where p: "client_run example_greets example_client = Inr p" "written p = ''HELLO Ann'' @ crlf"
      "receiver p = R_check" "\<not> over p" "recv_buffer p = []"
    using example_greeting_run by blast
  have "got_run example_greets example_client = []"
    by (simp add: example_greets_def split: sum.split)
  then have "fed ''Ann'' True [] p"
    using fed_run [OF fed.start p(1) [unfolded example_client_def]] by (simp add: example_client_def)
  then have new: "newcomer p" using example_ok(1) unfolding newcomer_def by (intro exI [of _ "''Ann''"]) simp
  let ?v1 = "\<lparr>server = w1, attached = Map.empty(4 \<mapsto> \<lparr>program = p, heard = []\<rparr>), cut_off = []\<rparr>"
  have "poll_fds w = [new_pollfd 3]" "\<not> stopping (logic w)" using w(1) by (auto simp: server_start_def server_init_def)
  then have "network \<lparr>server = w, attached = Map.empty, cut_off = []\<rparr> i1"
    using good(1) by (simp add: network_def good_inputs_def accepts_def i1_def new_pollfd_def quiet_def)
  from whole_game.accepting [OF whole_game.start [OF w(1)] this _ new] runs(1)
  have v1: "whole_game 1 0 1 ?file ?v1" by (simp add: i1_def)
  have "network ?v1 i2"
    using good(2) w(6) p(2)
    by (simp add: network_def good_inputs_def accepts_def i2_def fitting_def written_by_def quiet_def)
  from whole_game.round [OF v1 this] runs(2)
  have v2: "whole_game 1 0 1 ?file (?v1\<lparr>server := w2\<rparr>)" by (simp add: i2_def)
  have "network (?v1\<lparr>server := w2\<rparr>) quiet"
    by (rule plain_network) (use good(3) in \<open>simp_all add: good_inputs_def\<close>)
  from whole_game.round [OF v2 this] runs(3)
  have v3: "whole_game 1 0 1 ?file (?v1\<lparr>server := w3\<rparr>)" by simp
  have "network (?v1\<lparr>server := w3\<rparr>) five_bytes"
    by (rule plain_network) (use good(4) in \<open>simp_all add: good_inputs_def\<close>)
  from whole_game.round [OF v3 this] runs(4)
  have v4: "whole_game 1 0 1 ?file (?v1\<lparr>server := w4\<rparr>)" by simp
  let ?p1 = "p\<lparr>receiver := R_recv\<rparr>"
  let ?p2 = "p\<lparr>recv_buffer := ''COEFF'', receiver := R_lines\<rparr>"
  let ?l = "\<lparr>program = ?p2, heard = ''COEFF''\<rparr>"
  have "link_step (stream_to w4 4) (Receiver Receive_again) \<lparr>program = p, heard = []\<rparr> \<lparr>program = ?p1, heard = []\<rparr>"
    using p by (simp add: link_step_def receiver_step_def)
  with whole_game.client [OF v4, of 4 "\<lparr>program = p, heard = []\<rparr>"]
  have v5: "whole_game 1 0 1 ?file (?v1\<lparr>server := w4, attached := Map.empty(4 \<mapsto> \<lparr>program = ?p1, heard = []\<rparr>)\<rparr>)" by simp
  have "link_step (stream_to w4 4) (Receiver (Received ''COEFF'')) \<lparr>program = ?p1, heard = []\<rparr> ?l"
    using p w(4) by (simp add: link_step_def receiver_step_def)
  with whole_game.client [OF v5, of 4 "\<lparr>program = ?p1, heard = []\<rparr>"]
  have v6: "whole_game 1 0 1 ?file (?v1\<lparr>server := w4, attached := Map.empty(4 \<mapsto> ?l)\<rparr>)" (is "whole_game 1 0 1 ?file ?v6") by simp
  have net: "network ?v6 quiet" by (rule plain_network) (simp_all add: sends_ok_def quiet_def fresh_accept_def fresh_fd_def split: sum.split)
  have game: "whole_game (int 1) (int 0) 1 ?file ?v6" "file_ok (int 0) ?file" using example_content v6 by simp_all
  have ranges: "(1 :: nat) \<le> 1" "(1 :: nat) \<le> 10000" "(0 :: nat) \<le> 8" "(1 :: int) \<le> 1" "(1 :: int) \<le> 12341234" by simp_all
  note safe = whole_game_safe [OF game(1) ranges game(2), of quiet]
  have l: "attached ?v6 4 = Some ?l" by simp
  then have "?l \<in> ran (attached ?v6)" by (rule ranI)
  then have "\<forall>e. client_step e (program ?l) \<noteq> Inl Undefined" using safe example_ok(4) by blast
  then have "client_step (Receiver (Received ('' 1'' @ crlf))) (program ?l) \<noteq> Inl Undefined" by (rule spec)
  moreover have "server_iteration quiet (server ?v6) \<noteq> Inl Undefined" using safe net by blast
  moreover have "written (program ?l) = ''HELLO Ann'' @ crlf" "stream_to (server ?v6) 4 = ''COEFF''" "heard ?l = ''COEFF''"
    using p(2) w(4) by simp_all
  ultimately show ?thesis using v6 l by blast
qed

end
