(* ===== verification/Server_Arguments.thy ===== *)
theory Server_Arguments
  imports Option_Parsing
begin

text \<open>
  The arguments of the approximator's programs: \<open>src/the-great-approximator/arg_parser.{h,cpp}\<close>. A
  constructor of the C++ classes is a function from the results of \<open>getopt\<close> and the arguments that
  are left (\<open>argv[optind]\<close> and so on) to the parsed values. \<open>argv[0]\<close> is an argument of the model.
\<close>

section \<open>Numbers\<close>

text \<open>\<open>fatal\<close> prints the bounds, which are \<open>unsigned long\<close>, with \<open>%d\<close>; all of them are small.\<close>

definition parseAndValidateInt :: "string \<Rightarrow> string \<Rightarrow> nat \<Rightarrow> nat \<Rightarrow> int parsed" where
  "parseAndValidateInt usage str lo hi =
     (case strtoul str of (v, rest, erange) \<Rightarrow>
        if erange \<or> rest \<noteq> [] \<or> v < lo \<or> hi < v
        then Inl [usage, str @ '' is not a valid integer in the range ['' @ show_nat lo @ '', '' @ show_nat hi @ '']'']
        else Inr (int v))"

definition parseAndValidatePort :: "string \<Rightarrow> string \<Rightarrow> bool \<Rightarrow> int parsed" where
  "parseAndValidatePort usage str allow_zero = parseAndValidateInt usage str (if allow_zero then 0 else 1) 65535"

definition handle_getopt_error :: "string \<Rightarrow> getopt_result \<Rightarrow> 'a parsed" where
  "handle_getopt_error usage opt =
     (case opt of
        Opt_missing optopt \<Rightarrow> Inl [usage, missing_argument optopt]
      | Opt_unknown optopt \<Rightarrow> Inl [usage, unknown_option optopt]
      | Opt c arg \<Rightarrow> Inl [usage, ''Error parsing arguments''])"

section \<open>The client\<close>

record ClientArgs =
  player_id :: string
  player_id_set :: bool
  server_address :: string
  server_address_set :: bool
  server_port :: int
  server_port_set :: bool
  force_ipv4 :: bool
  force_ipv6 :: bool
  auto_strategy :: bool

definition client_usage :: "string \<Rightarrow> string" where
  "client_usage argv0 = ''Usage: '' @ argv0 @ '' -u player_id -s server -p port [-4] [-6] [-a]''"

definition client_option :: "string \<Rightarrow> getopt_result \<Rightarrow> ClientArgs \<Rightarrow> ClientArgs parsed" where
  "client_option argv0 opt a =
     (case opt of
        Opt c arg \<Rightarrow>
          if c = CHR ''u'' then Inr (a\<lparr>player_id := arg, player_id_set := True\<rparr>)
          else if c = CHR ''s'' then Inr (a\<lparr>server_address := arg, server_address_set := True\<rparr>)
          else if c = CHR ''p'' then
            bindP (parseAndValidatePort (client_usage argv0) arg False) (\<lambda>p.
              Inr (a\<lparr>server_port := p, server_port_set := True\<rparr>))
          else if c = CHR ''4'' then Inr (a\<lparr>force_ipv4 := True\<rparr>)
          else if c = CHR ''6'' then Inr (a\<lparr>force_ipv6 := True\<rparr>)
          else if c = CHR ''a'' then Inr (a\<lparr>auto_strategy := True\<rparr>)
          else handle_getopt_error (client_usage argv0) opt
      | _ \<Rightarrow> handle_getopt_error (client_usage argv0) opt)"

fun client_options :: "string \<Rightarrow> getopt_result list \<Rightarrow> ClientArgs \<Rightarrow> ClientArgs parsed" where
  "client_options argv0 [] a = Inr a"
| "client_options argv0 (r # rs) a = bindP (client_option argv0 r a) (client_options argv0 rs)"

definition client_parse :: "string \<Rightarrow> getopt_result list \<Rightarrow> ClientArgs \<Rightarrow> ClientArgs parsed" where
  "client_parse argv0 opts a =
     bindP (client_options argv0 opts a) (\<lambda>a.
       Inr (if force_ipv4 a \<and> force_ipv6 a then a\<lparr>force_ipv4 := False, force_ipv6 := False\<rparr> else a))"

definition client_validate :: "string \<Rightarrow> string list \<Rightarrow> ClientArgs \<Rightarrow> ClientArgs parsed" where
  "client_validate argv0 extra a =
     (if extra \<noteq> [] then Inl [client_usage argv0, ''Extra argument: '' @ hd extra]
      else if \<not> player_id_set a \<or> player_id a = []
      then Inl [client_usage argv0, ''Player ID (-u) is required'']
      else if \<not> server_address_set a \<or> server_address a = []
      then Inl [client_usage argv0, ''Server address (-s) is required'']
      else if \<not> server_port_set a then Inl [client_usage argv0, ''Server port (-p) is required'']
      else if \<not> list_all isalnum (player_id a)
      then Inl [client_usage argv0, ''Player ID (-u) must contain only alphanumeric characters'']
      else Inr a)"

text \<open>\<open>server_port\<close> has no initializer; \<open>port0\<close> is what it holds.\<close>

definition client_args :: "string \<Rightarrow> int \<Rightarrow> getopt_result list \<Rightarrow> string list \<Rightarrow> ClientArgs parsed" where
  "client_args argv0 port0 opts extra =
     bindP (client_parse argv0 opts
        \<lparr>player_id = [], player_id_set = False, server_address = [], server_address_set = False,
         server_port = port0, server_port_set = False, force_ipv4 = False, force_ipv6 = False,
         auto_strategy = False\<rparr>)
       (client_validate argv0 extra)"

definition client_log_info :: "ClientArgs \<Rightarrow> string" where
  "client_log_info a =
     ''Starting with id '' @ [CHR 0x27] @ player_id a @ [CHR 0x27] @ '' on server ['' @ server_address a @ '']:'' @
     show_int (server_port a) @
     (if force_ipv4 a then '' forcing IPv4'' else []) @
     (if force_ipv6 a then '' forcing IPv6'' else []) @
     (if auto_strategy a then '' using auto strategy'' else '' reading from stdin'') @ ''.''"

section \<open>The server\<close>

record ServerArgs =
  arg_port :: int
  arg_k :: int
  arg_n :: int
  arg_m :: int
  arg_file :: string
  file_set :: bool

definition opt_max_k :: nat where "opt_max_k = 10000"
definition opt_max_n :: nat where "opt_max_n = 8"
definition opt_max_m :: nat where "opt_max_m = 12341234"

definition server_usage :: "string \<Rightarrow> string" where
  "server_usage argv0 = ''Usage: '' @ argv0 @ '' [-p port] [-k value] [-n value] [-m value] -f file''"

definition server_option :: "string \<Rightarrow> getopt_result \<Rightarrow> ServerArgs \<Rightarrow> ServerArgs parsed" where
  "server_option argv0 opt a =
     (let usage = server_usage argv0 in
      case opt of
        Opt c arg \<Rightarrow>
          if c = CHR ''p'' then bindP (parseAndValidatePort usage arg True) (\<lambda>p. Inr (a\<lparr>arg_port := p\<rparr>))
          else if c = CHR ''k'' then bindP (parseAndValidateInt usage arg 1 opt_max_k) (\<lambda>v. Inr (a\<lparr>arg_k := v\<rparr>))
          else if c = CHR ''n'' then bindP (parseAndValidateInt usage arg 1 opt_max_n) (\<lambda>v. Inr (a\<lparr>arg_n := v\<rparr>))
          else if c = CHR ''m'' then bindP (parseAndValidateInt usage arg 1 opt_max_m) (\<lambda>v. Inr (a\<lparr>arg_m := v\<rparr>))
          else if c = CHR ''f'' then Inr (a\<lparr>arg_file := arg, file_set := True\<rparr>)
          else handle_getopt_error usage opt
      | _ \<Rightarrow> handle_getopt_error usage opt)"

fun server_options :: "string \<Rightarrow> getopt_result list \<Rightarrow> ServerArgs \<Rightarrow> ServerArgs parsed" where
  "server_options argv0 [] a = Inr a"
| "server_options argv0 (r # rs) a = bindP (server_option argv0 r a) (server_options argv0 rs)"

definition server_args :: "string \<Rightarrow> getopt_result list \<Rightarrow> string list \<Rightarrow> ServerArgs parsed" where
  "server_args argv0 opts extra =
     bindP (server_options argv0 opts
        \<lparr>arg_port = 0, arg_k = 100, arg_n = 4, arg_m = 131, arg_file = [], file_set = False\<rparr>) (\<lambda>a.
       if extra \<noteq> [] then Inl [server_usage argv0, ''Extra argument: '' @ hd extra]
       else if \<not> file_set a \<or> arg_file a = [] then Inl [server_usage argv0, ''File name (-f) is required'']
       else Inr a)"

definition server_log_info :: "ServerArgs \<Rightarrow> string" where
  "server_log_info a =
     ''Starting with port='' @ (if arg_port a = 0 then ''any'' else show_int (arg_port a)) @
     '', k='' @ show_int (arg_k a) @ '', n='' @ show_int (arg_n a) @ '', m='' @ show_int (arg_m a) @
     '', file='' @ [CHR 0x27] @ arg_file a @ [CHR 0x27] @ ''.''"

section \<open>What the parsers guarantee\<close>

lemma ok_parse_int: "(\<And>v. lo \<le> v \<Longrightarrow> v \<le> hi \<Longrightarrow> P (int v)) \<Longrightarrow> okP P (parseAndValidateInt usage str lo hi)"
  by (simp add: parseAndValidateInt_def split: prod.split)

lemma ok_getopt_error [simp]: "okP P (handle_getopt_error usage opt)"
  by (simp add: handle_getopt_error_def split: getopt_result.split)

definition server_args_ok :: "ServerArgs \<Rightarrow> bool" where
  "server_args_ok a \<longleftrightarrow> 0 \<le> arg_port a \<and> arg_port a \<le> 65535 \<and> 1 \<le> arg_k a \<and> arg_k a \<le> 10000 \<and>
     1 \<le> arg_n a \<and> arg_n a \<le> 8 \<and> 1 \<le> arg_m a \<and> arg_m a \<le> 12341234"

definition client_args_ok :: "ClientArgs \<Rightarrow> bool" where
  "client_args_ok a \<longleftrightarrow> (server_port_set a \<longrightarrow> 1 \<le> server_port a \<and> server_port a \<le> 65535)"

lemma ok_server_option: "server_args_ok a \<Longrightarrow> okP server_args_ok (server_option argv0 opt a)"
  by (auto simp: server_option_def Let_def parseAndValidatePort_def server_args_ok_def opt_max_k_def opt_max_n_def
      opt_max_m_def intro!: ok_parse_int split: getopt_result.split)

lemma ok_server_options: "server_args_ok a \<Longrightarrow> okP server_args_ok (server_options argv0 opts a)"
proof (induction opts arbitrary: a)
  case (Cons r rs)
  then show ?case using okP_mono [OF ok_server_option [OF Cons.prems]] by simp
qed simp

lemma ok_client_option: "client_args_ok a \<Longrightarrow> okP client_args_ok (client_option argv0 opt a)"
  by (auto simp: client_option_def Let_def parseAndValidatePort_def client_args_ok_def
      intro!: ok_parse_int split: getopt_result.split)

lemma ok_client_options: "client_args_ok a \<Longrightarrow> okP client_args_ok (client_options argv0 opts a)"
proof (induction opts arbitrary: a)
  case (Cons r rs)
  then show ?case using okP_mono [OF ok_client_option [OF Cons.prems]] by simp
qed simp

lemma server_args_range:
  assumes "server_args argv0 opts extra = Inr a"
  shows "server_args_ok a" and "arg_file a \<noteq> []" and "extra = []"
proof -
  let ?a0 = "\<lparr>arg_port = 0, arg_k = 100, arg_n = 4, arg_m = 131, arg_file = [], file_set = False\<rparr>"
  have "okP server_args_ok (server_options argv0 opts ?a0)"
    by (rule ok_server_options) (simp add: server_args_ok_def)
  then show "server_args_ok a" "arg_file a \<noteq> []" "extra = []"
    using assms by (auto simp: server_args_def bindP_eq_Inr split: if_splits)
qed

lemma client_args_range:
  assumes "client_args argv0 port0 opts extra = Inr a"
  shows "1 \<le> server_port a" and "server_port a \<le> 65535" and "player_id a \<noteq> []" and "list_all isalnum (player_id a)"
    and "server_address a \<noteq> []" and "\<not> (force_ipv4 a \<and> force_ipv6 a)"
proof -
  let ?a0 = "\<lparr>player_id = [], player_id_set = False, server_address = [], server_address_set = False,
         server_port = port0, server_port_set = False, force_ipv4 = False, force_ipv6 = False, auto_strategy = False\<rparr>"
  obtain b where b: "client_options argv0 opts ?a0 = Inr b"
      and a: "client_validate argv0 extra (if force_ipv4 b \<and> force_ipv6 b then b\<lparr>force_ipv4 := False, force_ipv6 := False\<rparr> else b) = Inr a"
    using assms by (auto simp: client_args_def client_parse_def bindP_eq_Inr)
  have "okP client_args_ok (client_options argv0 opts ?a0)"
    by (rule ok_client_options) (simp add: client_args_ok_def)
  then have "client_args_ok b" using b by simp
  then show "1 \<le> server_port a" "server_port a \<le> 65535" "player_id a \<noteq> []" "list_all isalnum (player_id a)"
    "server_address a \<noteq> []" "\<not> (force_ipv4 a \<and> force_ipv6 a)"
    using a by (auto simp: client_validate_def client_args_ok_def split: if_splits)
qed

text \<open>
  \<open>strtoul\<close> accepts more than a number in the range: a minus sign in front of a large number, and the
  empty string (as port 0, for which no digits are needed).
\<close>

lemma parse_int_wraps: "parseAndValidateInt usage ''-18446744073709551615'' 1 opt_max_k = Inr 1"
  by (simp add: parseAndValidateInt_def strtoul_def read_sign_def isspace_def isdigit_def code_def digits_value_def
      digit_value_def opt_max_k_def Let_def)

lemma parse_port_empty: "parseAndValidatePort usage [] True = Inr 0"
  by (simp add: parseAndValidatePort_def parseAndValidateInt_def strtoul_def read_sign_def Let_def)

end
