(* ===== verification/Approx_Network.thy ===== *)
theory Approx_Network
  imports Text_Numbers
begin

text \<open>
  The sockets of the approximator: \<open>src/the-great-approximator/networking.cpp\<close>. The results of the system
  calls are the inputs of the model; the outputs are the socket, what is printed on standard output,
  and the descriptors that are closed.
\<close>

section \<open>Connecting\<close>

text \<open>
  One entry of the list of \<open>getaddrinfo\<close>: its family, what \<open>socket\<close> returns for it, whether \<open>connect\<close>
  succeeds, and its address as \<open>inet_ntop\<close> writes it.
\<close>

datatype family = AF_INET | AF_INET6 | AF_OTHER int

record addrinfo =
  ai_family :: family
  ai_socket :: int
  ai_connects :: bool
  ai_text :: "string option"

datatype hint = Any_family | Only_ipv4 | Only_ipv6

definition hints_of :: "bool \<Rightarrow> bool \<Rightarrow> hint" where
  "hints_of force_ipv4 force_ipv6 =
     (if force_ipv4 then Only_ipv4 else if force_ipv6 then Only_ipv6 else Any_family)"

definition conversion_result :: "addrinfo \<Rightarrow> string option" where
  "conversion_result a = (case ai_family a of AF_INET \<Rightarrow> ai_text a | AF_INET6 \<Rightarrow> ai_text a | AF_OTHER _ \<Rightarrow> None)"

text \<open>The loop over the addresses: the socket with its address, if any, and the closed descriptors.\<close>

fun connect_loop :: "addrinfo list \<Rightarrow> (int \<times> string) option \<times> int list" where
  "connect_loop [] = (None, [])"
| "connect_loop (a # as) =
     (if ai_socket a = - 1 then connect_loop as
      else case (if ai_connects a then conversion_result a else None) of
             Some ip \<Rightarrow> (Some (ai_socket a, ip), [])
           | None \<Rightarrow> (case connect_loop as of (r, gone) \<Rightarrow> (r, ai_socket a # gone)))"

text \<open>\<open>std::stoi\<close>, which throws where this is \<open>None\<close>.\<close>

definition stoi :: "string \<Rightarrow> int option" where
  "stoi str =
     (case stoll str of
        None \<Rightarrow> None
      | Some (v, _) \<Rightarrow> if v < - (2 ^ 31) \<or> 2 ^ 31 - 1 < v then None else Some v)"

text \<open>The socket, the address and the port of the server, and the descriptors that were closed.\<close>

definition connect_to_server ::
  "(string \<Rightarrow> string \<Rightarrow> hint \<Rightarrow> addrinfo list option) \<Rightarrow> string \<Rightarrow> string \<Rightarrow> bool \<Rightarrow> bool \<Rightarrow> (int \<times> string \<times> int \<times> int list) res"
where
  "connect_to_server getaddrinfo host port_str force_ipv4 force_ipv6 =
     (case getaddrinfo host port_str (hints_of force_ipv4 force_ipv6) of
        None \<Rightarrow> Inl Exit
      | Some as \<Rightarrow>
          (case connect_loop as of
             (None, gone) \<Rightarrow> Inl Exit
           | (Some (sockfd, ip), gone) \<Rightarrow>
               (case stoi port_str of None \<Rightarrow> Inl Undefined | Some p \<Rightarrow> Inr (sockfd, ip, p, gone))))"

text \<open>The \<open>timeval\<close> that \<open>set_receive_timeout\<close> hands to \<open>setsockopt\<close>.\<close>

definition receive_timeval :: "int \<Rightarrow> int \<times> int" where
  "receive_timeval timeout_ms = (timeout_ms div 1000, (timeout_ms mod 1000) * 1000)"

definition set_socket_timeout :: "(int \<times> int \<Rightarrow> bool) \<Rightarrow> int \<Rightarrow> unit res" where
  "set_socket_timeout setsockopt timeout_ms = (if setsockopt (receive_timeval timeout_ms) then Inr () else Inl Exit)"

section \<open>Listening\<close>

text \<open>\<open>fcntl\<close> reads the flags of a descriptor and sets them.\<close>

record fcntl_calls =
  get_flags :: int
  set_flags :: bool

definition set_socket_nonblocking :: "fcntl_calls \<Rightarrow> unit res" where
  "set_socket_nonblocking c = (if get_flags c < 0 \<or> \<not> set_flags c then Inl Exit else Inr ())"

record listen_calls =
  lc_socket :: int
  lc_reuseaddr :: bool
  lc_v6only :: bool
  lc_bind :: bool
  lc_fcntl :: fcntl_calls
  lc_listen :: bool

text \<open>The result, \<open>sockfd\<close>, and the printed text.\<close>

definition setup_listening_socket_ipv6 :: "listen_calls \<Rightarrow> (bool \<times> int \<times> string) res" where
  "setup_listening_socket_ipv6 c =
     (if lc_socket c < 0 then Inr (False, lc_socket c, [])
      else let error_msg = (if lc_reuseaddr c then [] else ''Enabling SO_REUSEADDR failed'' @ [CHR 0x0A]) @
                 (if lc_v6only c then [] else ''Disabling IPV6_V6ONLY failed'' @ [CHR 0x0A])
           in if \<not> lc_bind c then Inr (False, lc_socket c, [])
              else bindR (set_socket_nonblocking (lc_fcntl c)) (\<lambda>_.
                     if \<not> lc_listen c then Inr (False, lc_socket c, [])
                     else Inr (True, lc_socket c, error_msg @ ''Listening on IPv6.'' @ [CHR 0x0A])))"

definition setup_listening_socket_ipv4 :: "listen_calls \<Rightarrow> (int \<times> string) res" where
  "setup_listening_socket_ipv4 c =
     (if lc_socket c < 0 then Inl Exit
      else if \<not> lc_bind c then Inl Exit
      else bindR (set_socket_nonblocking (lc_fcntl c)) (\<lambda>_.
             if \<not> lc_listen c then Inl Exit
             else Inr (lc_socket c, ''Listening on IPv4.'' @ [CHR 0x0A])))"

definition setup_listening_socket :: "listen_calls \<Rightarrow> listen_calls \<Rightarrow> (int \<times> string) res" where
  "setup_listening_socket c6 c4 =
     bindR (setup_listening_socket_ipv6 c6) (\<lambda>(ok, sockfd, text).
       if ok then Inr (sockfd, text) else setup_listening_socket_ipv4 c4)"

section \<open>Accepting\<close>

datatype accept_result = Accepted int | Accept_again | Accept_failed

definition accept_new_connection :: "accept_result \<Rightarrow> fcntl_calls \<Rightarrow> int res" where
  "accept_new_connection r c =
     (case r of
        Accept_again \<Rightarrow> Inr (- 1)
      | Accept_failed \<Rightarrow> Inl Exit
      | Accepted client_fd \<Rightarrow> bindR (set_socket_nonblocking c) (\<lambda>_. Inr client_fd))"

section \<open>Facts\<close>

text \<open>Every socket that was opened is either closed or returned.\<close>

lemma connect_loop_sockets:
  "connect_loop as = (r, gone) \<Longrightarrow>
    \<exists>tried rest. as = tried @ rest \<and>
      filter (\<lambda>s. s \<noteq> - 1) (map ai_socket tried) = gone @ (case r of None \<Rightarrow> [] | Some (s, _) \<Rightarrow> [s]) \<and>
      (r = None \<longrightarrow> rest = [])"
proof (induction as arbitrary: gone)
  case (Cons a as)
  show ?case
  proof (cases "ai_socket a \<noteq> - 1 \<and> ai_connects a \<and> conversion_result a \<noteq> None")
    case True
    then show ?thesis using Cons.prems by (intro exI [of _ "[a]"] exI [of _ as]) (auto split: if_splits)
  next
    case False
    then obtain c where c: "connect_loop as = (r, c)" "gone = (if ai_socket a = - 1 then c else ai_socket a # c)"
      using Cons.prems by (cases "connect_loop as") (auto split: if_splits option.splits)
    from Cons.IH [OF c(1)] obtain tried rest where "as = tried @ rest"
      "filter (\<lambda>s. s \<noteq> - 1) (map ai_socket tried) = c @ (case r of None \<Rightarrow> [] | Some (s, _) \<Rightarrow> [s])"
      "r = None \<longrightarrow> rest = []"
      by blast
    then show ?thesis using c(2) by (intro exI [of _ "a # tried"] exI [of _ rest]) auto
  qed
qed simp

lemma stoi_show_nat:
  assumes "n < 2 ^ 31"
  shows "stoi (show_nat n) = Some (int n)"
proof -
  have p: "parseInteger (show_int (int n)) = Some (int n)" using assms by (intro parseInteger_show) auto
  then show ?thesis by (auto simp: stoi_def parseInteger_def show_int_def split: if_splits option.splits)
qed

lemma connect_to_server_port:
  assumes "connect_to_server g host (show_nat p) f4 f6 = Inr (fd, ip, q, gone)" and "p < 2 ^ 31"
  shows "q = int p"
  using assms by (auto simp: connect_to_server_def stoi_show_nat split: option.splits prod.splits)

lemma connect_to_server_defined:
  assumes "p < 2 ^ 31"
  shows "connect_to_server g host (show_nat p) f4 f6 \<noteq> Inl Undefined"
  using stoi_show_nat [OF assms] by (auto simp: connect_to_server_def split: option.splits prod.splits)

end
