(* ===== verification/Node_Arguments.thy ===== *)
theory Node_Arguments
  imports Option_Parsing Node_Main
begin

text \<open>
  The arguments of a node: \<open>read_port\<close> of \<open>src/peer-time-sync/networking.c\<close> and \<open>parse_args\<close> of
  \<open>src/peer-time-sync/arg_parser.c\<close>, and the whole of \<open>main\<close> up to its loop.
\<close>

definition read_port :: "string \<Rightarrow> 16 word parsed" where
  "read_port str =
     (case strtoul str of (p, rest, erange) \<Rightarrow>
        if erange \<or> rest \<noteq> [] \<or> 65535 < p then Inl [str @ '' is not a valid port number''] else Inr (of_nat p))"

definition node_usage :: "string \<Rightarrow> string" where
  "node_usage argv0 = ''Usage: '' @ argv0 @ '' [-b bind_address] [-p port] [-a peer_address] [-r peer_port]''"

text \<open>The configuration with the flags \<open>a_provided\<close> and \<open>r_provided\<close>.\<close>

type_synonym node_opts = "Config \<times> bool \<times> bool"

definition node_option :: "string \<Rightarrow> getopt_result \<Rightarrow> node_opts \<Rightarrow> node_opts parsed" where
  "node_option argv0 opt st =
     (case st of (cfg, a_provided, r_provided) \<Rightarrow>
      case opt of
        Opt c arg \<Rightarrow>
          if c = CHR ''b'' then Inr (cfg\<lparr>bind_address := Some arg\<rparr>, a_provided, r_provided)
          else if c = CHR ''p''
          then bindP (read_port arg) (\<lambda>p. Inr (cfg\<lparr>port := p\<rparr>, a_provided, r_provided))
          else if c = CHR ''a'' then Inr (cfg\<lparr>peer_address := Some arg\<rparr>, True, r_provided)
          else if c = CHR ''r''
          then bindP (read_port arg) (\<lambda>p. Inr (cfg\<lparr>peer_port := p\<rparr>, a_provided, True))
          else Inl [node_usage argv0, ''Error parsing arguments'']
      | Opt_missing optopt \<Rightarrow> Inl [node_usage argv0, missing_argument optopt]
      | Opt_unknown optopt \<Rightarrow> Inl [node_usage argv0, unknown_option optopt])"

fun node_options :: "string \<Rightarrow> getopt_result list \<Rightarrow> node_opts \<Rightarrow> node_opts parsed" where
  "node_options argv0 [] st = Inr st"
| "node_options argv0 (r # rs) st = bindP (node_option argv0 r st) (node_options argv0 rs)"

definition parse_args :: "string \<Rightarrow> getopt_result list \<Rightarrow> string list \<Rightarrow> Config parsed" where
  "parse_args argv0 opts extra =
     bindP (node_options argv0 opts
        (\<lparr>bind_address = None, port = 0, peer_address = None, peer_port = 0\<rparr>, False, False))
       (\<lambda>(cfg, a_provided, r_provided).
       if a_provided \<noteq> r_provided then Inl [''Options -a and -r must be provided together'']
       else if r_provided \<and> peer_port cfg = 0 then Inl [''Peer port must not be 0'']
       else if extra \<noteq> [] then Inl [node_usage argv0, ''Unknown argument: '' @ hd extra]
       else Inr cfg)"

text \<open>
  \<open>main\<close> up to its loop. (\<open>clock_init\<close>, part of \<open>main_init\<close>, comes before \<open>parse_args\<close>; either may end
  the process, and neither depends on the other.)
\<close>

definition node_main :: "env \<Rightarrow> sys \<Rightarrow> string \<Rightarrow> getopt_result list \<Rightarrow> string list \<Rightarrow> NodeData \<Rightarrow> proc res" where
  "node_main E S argv0 opts extra n0 =
     bindR (or_exit (parse_args argv0 opts extra)) (\<lambda>cfg. main_init E S cfg n0)"

text \<open>A peer is greeted exactly when both of its options are there, and then on a port that is not 0.\<close>

lemma node_options_peer:
  assumes "node_options argv0 opts (cfg, a, r) = Inr (cfg', a', r')" and "a \<longleftrightarrow> peer_address cfg \<noteq> None"
  shows "a' \<longleftrightarrow> peer_address cfg' \<noteq> None"
  using assms
proof (induction opts arbitrary: cfg a r)
  case (Cons opt opts)
  from Cons.prems(1) obtain cfg1 a1 r1 where s: "node_option argv0 opt (cfg, a, r) = Inr (cfg1, a1, r1)"
      "node_options argv0 opts (cfg1, a1, r1) = Inr (cfg', a', r')"
    by (auto simp: bindP_eq_Inr)
  have "a1 \<longleftrightarrow> peer_address cfg1 \<noteq> None"
    using s(1) Cons.prems(2) by (auto simp: node_option_def bindP_eq_Inr split: getopt_result.splits if_splits)
  with s(2) show ?case using Cons.IH by blast
qed simp

lemma parse_args_peer:
  assumes "parse_args argv0 opts extra = Inr cfg" and "peer_address cfg \<noteq> None"
  shows "peer_port cfg \<noteq> 0"
  using assms node_options_peer [of argv0 opts "\<lparr>bind_address = None, port = 0, peer_address = None, peer_port = 0\<rparr>" False False]
  by (auto simp: parse_args_def bindP_eq_Inr split: if_splits)

end
