(* ===== verification/Program_Starts.thy ===== *)
theory Program_Starts
  imports Server_Arguments Approx_Network Server_Theorems Client_Invariants Node_Arguments Node_Properties
begin

text \<open>
  The three \<open>main\<close> functions with their parsers of arguments: what they start is what the theorems about
  the running programs require. (\<open>src/the-great-approximator/approx-server.cpp\<close>,
  \<open>src/the-great-approximator/approx-client.cpp\<close>, \<open>src/peer-time-sync/main.c\<close>)
\<close>

section \<open>The server\<close>

text \<open>\<open>files\<close> gives the contents of the files that can be opened.\<close>

definition server_main ::
  "(string \<Rightarrow> string option) \<Rightarrow> listen_calls \<Rightarrow> listen_calls \<Rightarrow> string \<Rightarrow> getopt_result list \<Rightarrow> string list \<Rightarrow> Server res"
where
  "server_main files c6 c4 argv0 opts extra =
     bindR (or_exit (server_args argv0 opts extra)) (\<lambda>a.
     bindR (setup_listening_socket c6 c4) (\<lambda>(listening_fd, text).
     bindR (server_start (arg_k a) (arg_n a) (arg_m a) (files (arg_file a)) listening_fd) (\<lambda>w.
       Inr (w\<lparr>logic := (logic w)\<lparr>cout := [server_log_info a, text]\<rparr>\<rparr>))))"

lemma server_main_safe:
  assumes "server_main files c6 c4 argv0 opts extra = Inr w"
  shows "config_ok (logic w)" and "1 \<le> K (logic w)" and "1 \<le> N (logic w)"
    and "file_ok (N (logic w)) (coeff_file (logic w)) \<Longrightarrow> server_safe w"
proof -
  obtain a shown lfd w0 where a: "server_args argv0 opts extra = Inr a"
      and w0: "server_start (arg_k a) (arg_n a) (arg_m a) (files (arg_file a)) lfd = Inr w0"
      and w: "w = w0\<lparr>logic := (logic w0)\<lparr>cout := [server_log_info a, shown]\<rparr>\<rparr>"
    using assms by (auto simp: server_main_def bindR_eq_Inr or_exit_def split: sum.splits)
  note r = server_args_range(1) [OF a, unfolded server_args_ok_def]
  from w0 obtain content where f: "files (arg_file a) = Some content"
    by (auto simp: server_start_def server_init_def bindR_eq_Inr split: option.splits)
  then have l: "logic w0 = \<lparr>K = arg_k a, N = arg_n a, M = arg_m a, total_correct_puts = 0, coeff_file = content,
      players = [], events = [], stopping = False, cout = []\<rparr>"
    using w0 by (auto simp: server_start_def server_init_def)
  then show "config_ok (logic w)" "1 \<le> K (logic w)" "1 \<le> N (logic w)" using r by (simp_all add: w config_ok_def)
  have "server_safe w0" if "file_ok (arg_n a) content"
    using server_start_safe [of "arg_k a" "arg_n a" "arg_m a" content lfd w0] w0 f r that by simp
  then show "server_safe w" if "file_ok (N (logic w)) (coeff_file (logic w))"
    using that unfolding w
    by (simp add: l server_safe_def server_ok_def client_fds_def game_ok_def nums_ok_def config_ok_def)
qed

text \<open>
  C40: The parser of arguments gives the server only parameters in the ranges its other parts rely on:
  whenever \<open>main\<close> gets to its loop, \<open>1 \<le> k \<le> 10000\<close>, \<open>1 \<le> n \<le> 8\<close> and \<open>1 \<le> m \<le> 12341234\<close>, whatever the
  command line was (with the signs, the white space and the wrap-around that \<open>strtoul\<close> admits, repeated
  options and defaults). So no run of the started server has undefined behaviour, if every line of the file
  that is a message has \<open>N + 1\<close> coefficients and the first whole line of every client is HELLO.
\<close>

theorem server_main_typed:
  assumes "server_main files c6 c4 argv0 opts extra = Inr w"
  shows "1 \<le> K (logic w) \<and> K (logic w) \<le> 10000 \<and> 1 \<le> N (logic w) \<and> N (logic w) \<le> 8 \<and>
    1 \<le> M (logic w) \<and> M (logic w) \<le> 12341234 \<and>
    (file_ok (N (logic w)) (coeff_file (logic w)) \<and> inputs_ok inps w \<longrightarrow> server_run inps w \<noteq> Inl Undefined)"
  using server_main_safe [OF assms] safe_server_run [of w inps] safeR_not_undefined unfolding config_ok_def by blast

definition working :: listen_calls where
  "working = \<lparr>lc_socket = 3, lc_reuseaddr = True, lc_v6only = True, lc_bind = True,
     lc_fcntl = \<lparr>get_flags = 0, set_flags = True\<rparr>, lc_listen = True\<rparr>"

theorem server_main_typed_witness:
  "\<exists>w. server_main (\<lambda>f. Some '''') working working ''approx-server'' [Opt CHR ''f'' ''x'', Opt CHR ''k'' ''7''] [] = Inr w \<and>
    K (logic w) = 7 \<and> server_run [] w \<noteq> Inl Undefined"
proof -
  have k: "parseAndValidateInt u ''7'' 1 opt_max_k = Inr 7" for u
    using strtoul_digits [of "''7''"] by (simp add: parseAndValidateInt_def opt_max_k_def isdigit_def code_def digit_value_def)
  obtain w where w: "server_main (\<lambda>f. Some '''') working working ''approx-server'' [Opt CHR ''f'' ''x'', Opt CHR ''k'' ''7''] [] = Inr w"
      "K (logic w) = 7" "file_ok (N (logic w)) (coeff_file (logic w))"
    using k by (simp add: server_main_def server_args_def server_option_def Let_def or_exit_def setup_listening_socket_def
        setup_listening_socket_ipv6_def working_def set_socket_nonblocking_def server_start_def server_init_def
        file_ok_def line_ok_def createMessage_def)
  from server_main_typed [OF w(1), of "[]"] w show ?thesis by auto
qed

section \<open>The client\<close>

definition client_main ::
  "(string \<Rightarrow> string \<Rightarrow> hint \<Rightarrow> addrinfo list option) \<Rightarrow> (int \<times> int \<Rightarrow> bool) \<Rightarrow> string \<Rightarrow> int \<Rightarrow> int \<Rightarrow>
    getopt_result list \<Rightarrow> string list \<Rightarrow> Client res"
where
  "client_main lookup_host set_timeout argv0 port0 n0 opts extra =
     bindR (or_exit (client_args argv0 port0 opts extra)) (\<lambda>a.
     bindR (connect_to_server lookup_host (server_address a) (show_int (server_port a)) (force_ipv4 a) (force_ipv6 a))
       (\<lambda>(sockfd, ip, p, gone).
     bindR (set_socket_timeout set_timeout 200) (\<lambda>_.
       Inr ((client_start (player_id a) (auto_strategy a) n0 ip p)\<lparr>console := [(client_log_info a, False)]\<rparr>))))"

text \<open>The threads start in the initial state, up to the first line on standard output, with a good id.\<close>

lemma client_main_start:
  assumes "client_main g s argv0 port0 n0 opts extra = Inr c"
  shows "\<exists>pid auto ip p l. c = (client_start pid auto n0 ip p)\<lparr>console := l\<rparr> \<and> isAlphanumeric pid \<and> pid \<noteq> [] \<and>
    1 \<le> p \<and> p \<le> 65535"
proof -
  obtain a fd ip p gone where a: "client_args argv0 port0 opts extra = Inr a"
      and k: "connect_to_server g (server_address a) (show_int (server_port a)) (force_ipv4 a) (force_ipv6 a) = Inr (fd, ip, p, gone)"
      and c: "c = (client_start (player_id a) (auto_strategy a) n0 ip p)\<lparr>console := [(client_log_info a, False)]\<rparr>"
    using assms by (auto simp: client_main_def bindR_eq_Inr or_exit_def split: sum.splits)
  note r = client_args_range [OF a]
  have "p = server_port a"
    using connect_to_server_port [of g "server_address a" "nat (server_port a)"] k r(1,2) by (simp add: show_int_def)
  then have "1 \<le> p" "p \<le> 65535" using r(1,2) by simp_all
  moreover have "isAlphanumeric (player_id a)" using r(4) by (simp add: isAlphanumeric_def)
  ultimately show ?thesis using c r(3) by blast
qed

lemma client_main_defined: "client_main g s argv0 port0 n0 opts extra \<noteq> Inl Undefined"
proof
  assume "client_main g s argv0 port0 n0 opts extra = Inl Undefined"
  then obtain a where a: "client_args argv0 port0 opts extra = Inr a"
      and k: "connect_to_server g (server_address a) (show_int (server_port a)) (force_ipv4 a) (force_ipv6 a) = Inl Undefined"
    by (auto simp: client_main_def bindR_eq_Inl or_exit_def set_socket_timeout_def split: sum.splits if_splits)
  then show False
    using connect_to_server_defined [of "nat (server_port a)"] client_args_range(1,2) [OF a] by (simp add: show_int_def)
qed

section \<open>The node\<close>

text \<open>A started node is in a reachable state of the node's theorems; a greeted peer has a port.\<close>

lemma node_main_start:
  assumes "node_main E S argv0 opts extra n0 = Inr w"
  shows "\<exists>cfg. parse_args argv0 opts extra = Inr cfg \<and> node_reachable E S cfg n0 w \<and>
    (peer_address cfg \<noteq> None \<longrightarrow> peer_port cfg \<noteq> 0)"
  using assms parse_args_peer
  by (fastforce simp: node_main_def bindR_eq_Inr or_exit_def split: sum.splits intro: node_reachable.start)

end
