(* ===== verification/Node_Errors.thy ===== *)
theory Node_Errors
  imports Error_Reports Node_Main
begin

text \<open>
  Error reports of the node: \<open>src/peer-time-sync/err.c\<close>. They differ from those of the approximator:
  \<open>cleanup\<close> closes the node's socket and frees its addresses, as far as they are there, and \<open>error\<close> leaves
  \<open>errno\<close> as it is. \<open>node_data_to_cleanup\<close> is \<open>None\<close> before \<open>register_node_data\<close>.
\<close>

section \<open>Reports\<close>

record Node_process = Process +
  node_data_to_cleanup :: "NodeData option"
  addresses_freed :: bool

definition node_cleanup :: "Node_process \<Rightarrow> Node_process" where
  "node_cleanup p =
     (case node_data_to_cleanup p of
        None \<Rightarrow> p
      | Some n \<Rightarrow>
          let p = (if 0 \<le> sock_fd n then p\<lparr>descriptors := filter (\<lambda>d. d \<noteq> sock_fd n) (descriptors p)\<rparr> else p)
          in if my_addresses n \<noteq> [] then p\<lparr>addresses_freed := True\<rparr> else p)"

definition node_syserr :: "(int \<Rightarrow> string) \<Rightarrow> string \<Rightarrow> fmt_arg list \<Rightarrow> Node_process \<Rightarrow> Node_process res" where
  "node_syserr strerror fmt args p =
     (let org_errno = errno p in
      bindR (vprintf fmt args) (\<lambda>msg.
        Inr (node_cleanup
          (p\<lparr>stderr_text := stderr_text p @ ''ERROR '' @ msg @ errno_text strerror org_errno @ [CHR 0x0A]\<rparr>))))"

definition node_fatal :: "string \<Rightarrow> fmt_arg list \<Rightarrow> Node_process \<Rightarrow> Node_process res" where
  "node_fatal fmt args p =
     bindR (vprintf fmt args) (\<lambda>msg.
       Inr (node_cleanup (p\<lparr>stderr_text := stderr_text p @ ''ERROR '' @ msg @ [CHR 0x0A]\<rparr>)))"

definition node_error :: "(int \<Rightarrow> string) \<Rightarrow> string \<Rightarrow> fmt_arg list \<Rightarrow> Node_process \<Rightarrow> Node_process res" where
  "node_error strerror fmt args p =
     (let org_errno = errno p in
      bindR (vprintf fmt args) (\<lambda>msg.
        Inr (p\<lparr>stderr_text := stderr_text p @ ''ERROR '' @ msg @
          (if org_errno \<noteq> 0 then errno_text strerror org_errno else []) @ [CHR 0x0A]\<rparr>)))"

section \<open>What they do\<close>

text \<open>
  The state of \<open>register_node_data\<close> is safe to clean up: with the node registered but without a socket and
  without addresses nothing is closed or freed.
\<close>

lemma cleanup_after_register:
  "node_data_to_cleanup p = Some (register_node_data n) \<Longrightarrow> node_cleanup p = p"
  by (simp add: node_cleanup_def register_node_data_def)

text \<open>Later exactly the socket of the node is closed, and the addresses are freed if there are some.\<close>

lemma cleanup_closes_socket:
  assumes "node_data_to_cleanup p = Some n" and "0 \<le> sock_fd n"
  shows "set (descriptors (node_cleanup p)) = set (descriptors p) - {sock_fd n} \<and>
    addresses_freed (node_cleanup p) = (addresses_freed p \<or> my_addresses n \<noteq> [])"
  using assms by (auto simp: node_cleanup_def Let_def)

text \<open>
  The line of \<open>error\<close> begins with what \<open>report_error\<close> puts out in the model of the handlers, which have no
  \<open>errno\<close>.
\<close>

lemma node_error_line:
  assumes "vprintf fmt args = Inr msg"
  shows "\<exists>p'. node_error strerror fmt args p = Inr p' \<and> errno p' = errno p \<and> descriptors p' = descriptors p \<and>
    stderr_text p' = stderr_text p @ ''ERROR '' @ msg @ (if errno p = 0 then [] else errno_text strerror (errno p)) @ [CHR 0x0A] \<and>
    report_error msg w = emit (Stderr (''ERROR '' @ msg)) w"
  using assms by (simp add: node_error_def Let_def report_error_def)

text \<open>The formats of the node's own errors.\<close>

lemma send_formats:
  "vprintf ''Failed to send a message of type %u'' [Int_arg (int (unat ty))] =
    Inr (''Failed to send a message of type '' @ show_nat (unat (ty :: byte)))"
  "vprintf ''Incomplete message of type %u sent'' [Int_arg (int (unat ty))] =
    Inr (''Incomplete message of type '' @ show_nat (unat ty) @ '' sent'')"
proof -
  have "int (unat ty) < 256" using unat_byte_less [of ty] by linarith
  then have "int (unat ty) mod 2 ^ 32 = int (unat ty)" by (intro mod_pos_pos_trivial) (simp_all del: int_nat_eq)
  then show "vprintf ''Failed to send a message of type %u'' [Int_arg (int (unat ty))] =
      Inr (''Failed to send a message of type '' @ show_nat (unat ty))"
    "vprintf ''Incomplete message of type %u sent'' [Int_arg (int (unat ty))] =
      Inr (''Incomplete message of type '' @ show_nat (unat ty) @ '' sent'')"
    by (simp_all add: show_int_def)
qed

end
