(* ===== verification/Spec2Isabelle.thy ===== *)
theory Spec2Isabelle
  imports Sync_Properties Text_Properties Whole_Game Program_Starts Node_Errors
begin

text \<open>
  A verification of the two programs of the repository: \<open>src/peer-time-sync\<close>, a node of a network whose
  nodes learn of each other and synchronize their clocks over UDP, and \<open>src/the-great-approximator\<close>, a
  game in which clients approximate polynomials that a server knows, over TCP.

  How the code is translated. A function of the code is a definition with (nearly always) its name, from
  the state before to the state after. A function that may not return normally has the result type
  \<open>'a res\<close> of \<open>Prelude\<close>: \<open>Inl Exit\<close> when the process ends with \<open>fatal\<close> or \<open>syserr\<close>, \<open>Inl Undefined\<close> for
  undefined behaviour and uncaught exceptions (an access out of range, a null pointer, a missing key,
  signed overflow, a failed \<open>assert\<close>, which \<open>-DNDEBUG\<close> compiles out), \<open>Inr x\<close> otherwise. What comes from outside is an
  argument or an input: the results of system calls, the clock, the results of \<open>getopt\<close>, the contents of
  files, the texts of \<open>strerror\<close>. Unsigned integers of the node are words, \<open>int64_t\<close> is an integer whose overflow is
  \<open>Undefined\<close>; \<open>double\<close> is a model of binary64. The operations are executable.

  The node, \<open>src/peer-time-sync\<close>.
  \<^item> \<open>Peer_Lists\<close> (\<open>peers.cpp\<close>): the registry of ordered sets of addresses, each with one iterator, that an
    erased element invalidates. The locale \<open>peer_registry\<close> is its contract in terms of sets of
    addresses; the interpretation \<open>peers\<close> discharges it for the code's operations.
  \<^item> \<open>Byte_Order\<close> (\<open>htonll\<close>, \<open>ntohll\<close> and the functions of the C library): machines of both byte orders.
  \<^item> \<open>Node_Clock\<close> (\<open>clock.c\<close>, \<open>node_data.h\<close>): the state \<open>NodeData\<close>, the process around it (\<open>proc\<close>: the
    registry, the start time, what was sent and printed), natural and synchronized time, deadlines and
    \<open>update_offset\<close>.
  \<^item> \<open>Node_Messages\<close> (\<open>messages.c\<close>): the bytes of the messages, one definition per handler, \<open>handle_message\<close>,
    the timers \<open>check_and_handle_timers\<close>. \<open>sync_start_loop\<close> has the number of peers as fuel; it is shown to
    send to every one of them (\<open>Node_Invariants\<close>).
  \<^item> \<open>Node_Main\<close> (\<open>main.c\<close>, \<open>networking.c\<close>), \<open>Node_Arguments\<close> (\<open>arg_parser.c\<close>, \<open>read_port\<close>), \<open>Node_Errors\<close>
    (\<open>err.c\<close>): start-up, the main loop as a step per datagram, the options, and the error reports.
  \<^item> \<open>Node_Invariants\<close>: the invariant (three different lists without own addresses, an offset in range,
    valid iterators) and that every handler keeps it and has no undefined behaviour, on any bytes
    (with timestamps below \<open>2 ^ 61\<close> in the two messages that are read for one).
  \<^item> \<open>Node_Properties\<close>, \<open>Hello_Exchange\<close>, \<open>Sync_Properties\<close>: safety of the reachable states, the exchange of
    peer lists, a whole exchange of clocks, the accuracy of the offset, the rounds of SYNC_START, rejected
    datagrams, and four behaviours of the code that differ from what it means to do.

  The approximator, \<open>src/the-great-approximator\<close>: what both programs use.
  \<^item> \<open>Binary64\<close>, \<open>Double_Nearest\<close>, \<open>Double_Bounds\<close>, \<open>Range_Checks\<close>: doubles as sign,
    mantissa and exponent with rounding to nearest, ties to even, tied to the real numbers by \<open>dval\<close> and
    \<open>rounds_to\<close>; a result is the nearest number of the format; bounds of results; why the tolerance \<open>eps\<close>
    of the range checks is exact on decimals with seven digits.
  \<^item> \<open>Text_Numbers\<close>, \<open>Text_Messages\<close> (\<open>msg_parser.cpp\<close>, \<open>msg_parser.h\<close>, \<open>constants.h\<close>): formats, numbers in text,
    the seven messages with their parsers and factories; the regular expression is matched by
    derivatives. \<open>Message_Lemmas\<close> and \<open>Text_Properties\<close>: the grammar exactly, and the round trips.
  \<^item> \<open>Option_Parsing\<close>, \<open>Server_Arguments\<close> (\<open>arg_parser.cpp\<close>), \<open>Approx_Network\<close> (\<open>networking.cpp\<close>),
    \<open>Error_Reports\<close> (\<open>err.cpp\<close>, with \<open>vfprintf\<close> for the directives that occur).

  The server.
  \<^item> \<open>Event_Queue\<close> (\<open>server_events.cpp\<close>): timers in the order of their deadlines; the contract is the locale
    \<open>timed_queue\<close>, interpreted as \<open>timers\<close>.
  \<^item> \<open>Game_Server\<close> (\<open>server_logic.cpp\<close>): the class \<open>ServerLogic\<close> as a record; a callback is data.
  \<^item> \<open>Server_Loop\<close> (\<open>approx-server.cpp\<close>): buffers, \<open>poll_fds\<close> and an iteration of the main loop.
    \<open>flush_client\<close> has the number of queued messages as fuel and \<open>clients_loop\<close> the number of sockets: each
    round takes a message, or moves on or removes a socket.
  \<^item> \<open>Game_Invariants\<close>, \<open>Server_Invariants\<close>: what agrees between descriptors, players, counters and timers, for
    arbitrary clients. \<open>Score_Bounds\<close>, \<open>Game_Safety\<close>, \<open>Server_Safety\<close>: no undefined behaviour, for parameters as
    the parser of arguments admits them (\<open>K\<close> up to 10000, \<open>N\<close> up to 8, \<open>M\<close> up to 12341234).
    Approximations stay below 12 times the number of accepted PUTs; penalties, which are added without limit, stay below \<open>2 ^ 59\<close>, since from there adding 20
    changes nothing; so scores stay finite.
  \<^item> \<open>Server_Streams\<close>: cutting the stream from a client into reads makes no difference. \<open>Server_Sends\<close>: what
    is queued for a client is what that client may be sent, and writing keeps the stream. \<open>transmitted\<close> in
    the state of \<open>Server_Loop\<close> records what \<open>send\<close> took for each descriptor since it was accepted
    (\<open>stream_to\<close>); no operation reads it.
  \<^item> \<open>Server_Properties\<close>, \<open>Server_Theorems\<close>: each branch of PUT and HELLO, the delayed responses, the end of
    a game; safety and the invariant over whole runs.

  The client.
  \<^item> \<open>Thread_Queue\<close> (\<open>ts_queue.h\<close>): each operation as one step; the contract is the locale \<open>fifo\<close>,
    interpreted for both ways of taking (\<open>tsq\<close>, \<open>tsw\<close>).
  \<^item> \<open>Game_Client\<close> (\<open>client_logic.cpp\<close>): the six threads with program counters; a step is the code up to the
    next access to shared state, so every interleaving of the real program is a sequence of \<open>client_step\<close>s.
  \<^item> \<open>Client_Numbers\<close>, \<open>Client_Invariants\<close>, \<open>Client_Theorems\<close>: the invariant under every scheduling, for any
    \<open>int\<close> \<open>k\<close>; the only undefined behaviour is the overflow of \<open>poly_at\<close> at the first STATE (\<open>power_overflows\<close>),
    which cannot happen if \<open>k ^ (n + 1)\<close> fits into an \<open>int\<close> and does happen with the
    defaults; the races and the malformed messages that make the client fail.
  \<^item> \<open>Client_Streams\<close>, \<open>Client_Wire\<close>, \<open>Client_Feed\<close>: the streams between the programs. The client sends whole
    messages, the automatic one HELLO first, which is what the safety of the server asks for
    (\<open>polite\<close>); the server queues lines that are \<open>regular\<close>, which is what the safety of the client asks for.
  \<^item> \<open>Server_Quiet\<close>, \<open>Server_Greeted\<close>: the server sends nothing to a client that has not written anything, and
    when the first line of every client is a good HELLO, its iterations keep to what its safety assumes.
  \<^item> \<open>Whole_Game\<close>: the server and any number of clients with the automatic strategy as one system. A \<open>world\<close>
    is the server, the client at each of its descriptors with the bytes it has read, and the clients whose
    descriptor was used again; the connections carry bytes in order and cut them anywhere, and may
    break. \<open>whole_game\<close> is its step relation over all interleavings; the server is
    safe, and its clients are but for that overflow, without an assumption on what the other program
    sends. A thread whose next step overflows takes no further step in the model.
  \<^item> \<open>Client_End\<close>: after \<open>game_over\<close> every thread ends, by a lexicographic measure.
  \<^item> \<open>Program_Starts\<close> (the \<open>main\<close> functions): what the arguments admit is what the theorems assume.

  Not modelled, or simplified. The text of \<open>errno\<close> in the lines on standard error of the handlers (the two theories of
  error reports have it); the \<open>LOG\<close> lines, which \<open>NDEBUG\<close> removes; the contents of socket addresses in the
  approximator; signals (\<open>SIGPIPE\<close> of a write to a connection that was reset, which nothing ignores:
  here such a write returns -1); the failure of memory allocation; one iteration of the server takes
  one time where the code reads the clock again for every deadline; overflow of the counters of PUTs, which would take
  \<open>2 ^ 31\<close> of them. A wait on a condition variable is its end, with the predicate as it is then, and an
  operation under a mutex is one step. Exponents, hexadecimal digits and special values of \<open>strtod\<close>
  do not pass the format check before it. The whole game has no client with the manual strategy, which may
  send a PUT before HELLO, and no client named \<open>UNKNOWN\<close>, which is the id of a client before HELLO; those
  are in the theorems about one program. Datagrams between nodes have no common state: the theorems
  about two nodes hand the bytes sent by one to the other. The build files and the documentation hold no code.
\<close>

end
